(* ===== verification/Ordered_Map.thy ===== *)
theory Ordered_Map
  imports Prelude
begin

text \<open>
  \<^verbatim>\<open>std::map<std::string, V>\<close> where the program iterates over it: an association list with
  strictly increasing keys. \<^verbatim>\<open>std::less<std::string>\<close> compares the characters as unsigned
  bytes, lexicographically, which is the order of \<^typ>\<open>string\<close> here. The interface that the
  components rely on is the locale \<open>dict\<close>.
\<close>

type_synonym 'v smap = "(string \<times> 'v) list"

fun sm_put :: "string \<Rightarrow> 'v \<Rightarrow> 'v smap \<Rightarrow> 'v smap" where
  "sm_put k v [] = [(k, v)]"
| "sm_put k v ((a, b) # xs) =
     (if k < a then (k, v) # (a, b) # xs
      else if k = a then (k, v) # xs
      else (a, b) # sm_put k v xs)"

definition sm_erase :: "string \<Rightarrow> 'v smap \<Rightarrow> 'v smap" where
  "sm_erase k xs = filter (\<lambda>kv. fst kv \<noteq> k) xs"

definition sm_get :: "'v smap \<Rightarrow> string \<Rightarrow> 'v option" where
  "sm_get xs = map_of xs"

definition sm_ordered :: "'v smap \<Rightarrow> bool" where
  "sm_ordered xs \<longleftrightarrow> sorted_wrt (<) (map fst xs)"

text \<open>Erasing the entries whose value satisfies a condition, as an iterator loop does.\<close>

definition sm_filter :: "('v \<Rightarrow> bool) \<Rightarrow> 'v smap \<Rightarrow> 'v smap" where
  "sm_filter P xs = filter (\<lambda>kv. P (snd kv)) xs"

text \<open>Changing the value under a key if it is present (\<^verbatim>\<open>find\<close>, then assign through the iterator).\<close>

definition sm_adjust :: "string \<Rightarrow> ('v \<Rightarrow> 'v) \<Rightarrow> 'v smap \<Rightarrow> 'v smap" where
  "sm_adjust k f xs = map (\<lambda>kv. if fst kv = k then (k, f (snd kv)) else kv) xs"


section \<open>The dictionary interface\<close>

locale dict =
  fixes empty :: 'm
    and put :: "string \<Rightarrow> 'v \<Rightarrow> 'm \<Rightarrow> 'm"
    and erase :: "string \<Rightarrow> 'm \<Rightarrow> 'm"
    and get :: "'m \<Rightarrow> string \<Rightarrow> 'v option"
    and ok :: "'m \<Rightarrow> bool"
  assumes get_empty: "get empty = Map.empty"
    and get_put: "ok m \<Longrightarrow> get (put k v m) = (get m)(k \<mapsto> v)"
    and get_erase: "ok m \<Longrightarrow> get (erase k m) = (get m)(k := None)"
    and ok_empty: "ok empty"
    and ok_put: "ok m \<Longrightarrow> ok (put k v m)"
    and ok_erase: "ok m \<Longrightarrow> ok (erase k m)"
begin

lemma get_put_same: "ok m \<Longrightarrow> get (put k v m) k = Some v"
  by (simp add: get_put)

lemma get_put_other: "ok m \<Longrightarrow> k' \<noteq> k \<Longrightarrow> get (put k v m) k' = get m k'"
  by (simp add: get_put)

lemma erase_put_same: "ok m \<Longrightarrow> get (erase k (put k v m)) = (get m)(k := None)"
  by (simp add: get_put get_erase ok_put fun_eq_iff)

lemma put_put_commute:
  assumes "ok m" and "k \<noteq> k'"
  shows "get (put k v (put k' v' m)) = get (put k' v' (put k v m))"
  using assms by (simp add: get_put ok_put fun_eq_iff)

text \<open>Building a dictionary by a sequence of stores: the last store of a key wins.\<close>

lemma ok_fold_put: "ok m \<Longrightarrow> ok (fold (\<lambda>kv. put (fst kv) (snd kv)) kvs m)"
  by (induction kvs arbitrary: m) (simp_all add: ok_put)

lemma get_fold_put:
  "ok m \<Longrightarrow> get (fold (\<lambda>kv. put (fst kv) (snd kv)) kvs m) = get m ++ map_of (rev kvs)"
proof (induction kvs arbitrary: m)
  case Nil
  then show ?case by simp
next
  case (Cons kv kvs)
  then show ?case by (cases kv) (auto simp: ok_put get_put map_add_def fun_eq_iff split: option.splits)
qed

end

lemma sm_get_put: "sm_get (sm_put k v m) = (sm_get m)(k \<mapsto> v)"
  unfolding sm_get_def by (induction k v m rule: sm_put.induct) (auto simp: fun_eq_iff)

lemma sm_get_erase: "sm_get (sm_erase k m) = (sm_get m)(k := None)"
  unfolding sm_get_def sm_erase_def by (induction m) (auto simp: fun_eq_iff)

lemma keys_sm_put: "fst ` set (sm_put k v m) = insert k (fst ` set m)"
  by (induction k v m rule: sm_put.induct) auto

lemma sm_ordered_put: "sm_ordered m \<Longrightarrow> sm_ordered (sm_put k v m)"
  unfolding sm_ordered_def
proof (induction k v m rule: sm_put.induct)
  case (1 k v)
  then show ?case by simp
next
  case (2 k v a b xs)
  have keys: "set (map fst (sm_put k v xs)) = insert k (set (map fst xs))"
    using keys_sm_put[of k v xs] by simp
  show ?case
    using 2 keys by (auto dest: order.strict_trans)
qed

lemma sm_ordered_erase: "sm_ordered m \<Longrightarrow> sm_ordered (sm_erase k m)"
  unfolding sm_ordered_def sm_erase_def
  by (induction m) auto

interpretation omap: dict "[]" sm_put sm_erase sm_get sm_ordered
  by unfold_locales
    (auto simp: sm_get_put sm_get_erase sm_ordered_put sm_ordered_erase,
      auto simp: sm_get_def sm_ordered_def)

lemma sm_ordered_distinct: "sm_ordered m \<Longrightarrow> distinct (map fst m)"
  unfolding sm_ordered_def using strict_sorted_iff by blast

lemma sm_ordered_filter: "sm_ordered m \<Longrightarrow> sm_ordered (filter P m)"
  unfolding sm_ordered_def by (induction m) auto

lemma keys_sm_adjust [simp]: "map fst (sm_adjust k f m) = map fst m"
  unfolding sm_adjust_def by (induction m) auto

lemma sm_ordered_adjust [simp]: "sm_ordered (sm_adjust k f m) = sm_ordered m"
  unfolding sm_ordered_def by simp

lemma sm_get_adjust:
  "sm_get (sm_adjust k f m) = (sm_get m)(k := map_option f (sm_get m k))"
  unfolding sm_get_def sm_adjust_def by (induction m) (auto simp: fun_eq_iff)

lemma sm_get_adjust_same [simp]: "sm_get (sm_adjust k f m) k = map_option f (sm_get m k)"
  by (simp add: sm_get_adjust)

lemma sm_get_filter:
  assumes "sm_ordered m"
  shows "sm_get (sm_filter P m) k =
         (case sm_get m k of Some v \<Rightarrow> if P v then Some v else None | None \<Rightarrow> None)"
proof -
  have "distinct (map fst m)" using assms by (rule sm_ordered_distinct)
  then show ?thesis
    unfolding sm_get_def sm_filter_def
    by (induction m) (auto split: option.splits dest: map_of_SomeD, force dest: map_of_SomeD)
qed

end
