(* ===== verification/Json.thy ===== *)
theory Json
  imports Ordered_Map
begin

text \<open>
  The values of the JSON library (\<^verbatim>\<open>include/utils/json.hpp\<close>) and the accessors the program
  calls: \<^verbatim>\<open>value(key, default)\<close>, \<^verbatim>\<open>contains\<close>, iteration, building objects. Objects are
  \<^verbatim>\<open>std::map\<close>s. The text functions (\<^verbatim>\<open>dump\<close>, \<^verbatim>\<open>parse\<close>) are the parameter \<open>json_text\<close>.
\<close>

datatype json =
    JNull
  | JBool bool
  | JInt int
  | JUInt u64
  | JFloat rat
  | JStr string
  | JArr "json list"
  | JObj "(string \<times> json) list"

record json_text =
  dump :: "int \<Rightarrow> json \<Rightarrow> string result"
  parse :: "string \<Rightarrow> json result"

definition ascii :: "string \<Rightarrow> bool" where
  "ascii s \<longleftrightarrow> (\<forall>c \<in> set s. of_char c < (128 :: nat))"

text \<open>
  Values whose text form is read back as the same value: \<^verbatim>\<open>dump\<close> throws on strings that are not
  UTF-8, \<^verbatim>\<open>parse\<close> stores nonnegative integers as unsigned, and floats are left out.
\<close>

primrec json_plain :: "json \<Rightarrow> bool" where
  "json_plain JNull = True"
| "json_plain (JBool b) = True"
| "json_plain (JInt i) = (- (2 ^ 63) \<le> i \<and> i < 0)"
| "json_plain (JUInt w) = True"
| "json_plain (JFloat r) = False"
| "json_plain (JStr s) = ascii s"
| "json_plain (JArr xs) = list_all (\<lambda>p. p) (map json_plain xs)"
| "json_plain (JObj kvs) =
     (sm_ordered kvs \<and> list_all (\<lambda>(k, p). ascii k \<and> p) (map (map_prod id json_plain) kvs))"

definition is_array :: "json \<Rightarrow> bool" where
  "is_array j \<longleftrightarrow> (case j of JArr _ \<Rightarrow> True | _ \<Rightarrow> False)"

text \<open>Documented behaviour of the library: such a value is written out and read back.\<close>

definition json_text_ok :: "json_text \<Rightarrow> bool" where
  "json_text_ok jt \<longleftrightarrow>
     (\<forall>i j. json_plain j \<longrightarrow>
        (\<exists>s. dump jt i j = Inr s \<and> parse jt s = Inr j \<and> s \<noteq> [] \<and>
             (is_array j \<and> j \<noteq> JArr [] \<longrightarrow> 2 < length s)))"

definition jobj :: "(string \<times> json) list \<Rightarrow> json" where
  "jobj kvs = JObj (fold (\<lambda>kv. sm_put (fst kv) (snd kv)) kvs [])"

definition is_object :: "json \<Rightarrow> bool" where
  "is_object j \<longleftrightarrow> (case j of JObj _ \<Rightarrow> True | _ \<Rightarrow> False)"

definition is_string :: "json \<Rightarrow> bool" where
  "is_string j \<longleftrightarrow> (case j of JStr _ \<Rightarrow> True | _ \<Rightarrow> False)"

text \<open>
  \<^verbatim>\<open>get<T>()\<close>. A conversion to \<^verbatim>\<open>uint64_t\<close> accepts numbers only; a conversion to another
  arithmetic type accepts booleans too. Integers wrap into the target width; floats are
  truncated, and out of range the conversion is undefined.
\<close>

definition trunc_rat :: "rat \<Rightarrow> int" where
  "trunc_rat r = (if r < 0 then - \<lfloor>- r\<rfloor> else \<lfloor>r\<rfloor>)"

definition get_str :: "json \<Rightarrow> string result" where
  "get_str j = (case j of JStr s \<Rightarrow> Inr s | _ \<Rightarrow> Inl (JsonException 302))"

definition get_u64 :: "json \<Rightarrow> u64 result" where
  "get_u64 j =
     (case j of
        JUInt w \<Rightarrow> Inr w
      | JInt i \<Rightarrow> Inr (word_of_int i)
      | JFloat r \<Rightarrow> if -1 < r \<and> r < 2 ^ 64 then Inr (word_of_int (trunc_rat r)) else Inl UndefinedCast
      | _ \<Rightarrow> Inl (JsonException 302))"

definition get_u32 :: "json \<Rightarrow> u32 result" where
  "get_u32 j =
     (case j of
        JUInt w \<Rightarrow> Inr (ucast w)
      | JInt i \<Rightarrow> Inr (word_of_int i)
      | JFloat r \<Rightarrow> if -1 < r \<and> r < 2 ^ 32 then Inr (word_of_int (trunc_rat r)) else Inl UndefinedCast
      | JBool b \<Rightarrow> Inr (if b then 1 else 0)
      | _ \<Rightarrow> Inl (JsonException 302))"

text \<open>The C++ type \<^verbatim>\<open>int\<close>: a two's complement value of 32 bits.\<close>

definition get_int :: "json \<Rightarrow> int result" where
  "get_int j =
     (case j of
        JUInt w \<Rightarrow> Inr (sint (ucast w :: 32 word))
      | JInt i \<Rightarrow> Inr (sint (word_of_int i :: 32 word))
      | JFloat r \<Rightarrow> if - (2 ^ 31) - 1 < r \<and> r < 2 ^ 31 then Inr (trunc_rat r) else Inl UndefinedCast
      | JBool b \<Rightarrow> Inr (if b then 1 else 0)
      | _ \<Rightarrow> Inl (JsonException 302))"

definition jvalue :: "(json \<Rightarrow> 'a result) \<Rightarrow> string \<Rightarrow> 'a \<Rightarrow> json \<Rightarrow> 'a result" where
  "jvalue getter key dflt j =
     (case j of
        JObj kvs \<Rightarrow> (case sm_get kvs key of Some v \<Rightarrow> getter v | None \<Rightarrow> Inr dflt)
      | _ \<Rightarrow> Inl (JsonException 306))"

definition jcontains :: "json \<Rightarrow> string \<Rightarrow> bool" where
  "jcontains j key \<longleftrightarrow> (case j of JObj kvs \<Rightarrow> sm_get kvs key \<noteq> None | _ \<Rightarrow> False)"

text \<open>\<^verbatim>\<open>operator[]\<close> on a key that is present (the program tests \<^verbatim>\<open>contains\<close> first).\<close>

definition jfield :: "json \<Rightarrow> string \<Rightarrow> json" where
  "jfield j key =
     (case j of JObj kvs \<Rightarrow> (case sm_get kvs key of Some v \<Rightarrow> v | None \<Rightarrow> JNull) | _ \<Rightarrow> JNull)"

text \<open>\<^verbatim>\<open>operator[]\<close> used to store under a key; \<^verbatim>\<open>null\<close> turns into an object first.\<close>

definition jput :: "string \<Rightarrow> json \<Rightarrow> json \<Rightarrow> json result" where
  "jput key v j =
     (case j of
        JObj kvs \<Rightarrow> Inr (JObj (sm_put key v kvs))
      | JNull \<Rightarrow> Inr (JObj (sm_put key v []))
      | _ \<Rightarrow> Inl (JsonException 305))"

text \<open>
  Range-based \<^verbatim>\<open>for\<close> over a value: the elements of an array, the values of an object, nothing
  for \<^verbatim>\<open>null\<close>, and the value itself for every other type.
\<close>

definition jelems :: "json \<Rightarrow> json list" where
  "jelems j = (case j of JNull \<Rightarrow> [] | JArr xs \<Rightarrow> xs | JObj kvs \<Rightarrow> map snd kvs | _ \<Rightarrow> [j])"

lemmas json_getters = get_str_def get_u64_def get_u32_def get_int_def

lemma sm_get_jobj:
  "sm_get (fold (\<lambda>kv. sm_put (fst kv) (snd kv)) kvs []) = map_of (rev kvs)"
  using omap.get_fold_put[OF omap.ok_empty, of kvs] by (simp add: omap.get_empty)

lemma jvalue_jobj [simp]:
  "jvalue getter key dflt (jobj kvs) =
     (case map_of (rev kvs) key of Some v \<Rightarrow> getter v | None \<Rightarrow> Inr dflt)"
  by (simp add: jvalue_def jobj_def sm_get_jobj)

lemma jcontains_jobj [simp]: "jcontains (jobj kvs) key \<longleftrightarrow> map_of (rev kvs) key \<noteq> None"
  by (simp add: jcontains_def jobj_def sm_get_jobj)

lemma jfield_jobj [simp]:
  "jfield (jobj kvs) key = (case map_of (rev kvs) key of Some v \<Rightarrow> v | None \<Rightarrow> JNull)"
  by (simp add: jfield_def jobj_def sm_get_jobj)

lemma get_str_JStr [simp]: "get_str (JStr s) = Inr s"
  by (simp add: get_str_def)

lemma get_u64_JUInt [simp]: "get_u64 (JUInt w) = Inr w"
  by (simp add: get_u64_def)

lemma get_u32_JUInt [simp]: "get_u32 (JUInt w) = Inr (ucast w)"
  by (simp add: get_u32_def)

text \<open>A 32-bit value that was widened for output is read back unchanged.\<close>

lemma get_u32_widened: "get_u32 (JUInt (ucast (w :: u32))) = Inr w"
  by (simp, rule bit_word_eqI) (simp add: bit_unsigned_iff)


lemma json_plain_JArr [simp]: "json_plain (JArr xs) \<longleftrightarrow> (\<forall>x \<in> set xs. json_plain x)"
  by (simp add: list_all_iff)

lemma json_plain_JObj:
  "json_plain (JObj kvs) \<longleftrightarrow> sm_ordered kvs \<and> (\<forall>kv \<in> set kvs. ascii (fst kv) \<and> json_plain (snd kv))"
  by (auto simp: list_all_iff split_beta)

declare json_plain.simps(7,8) [simp del]

lemma json_plain_sm_put:
  assumes "json_plain (JObj kvs)" "ascii k" "json_plain v"
  shows "json_plain (JObj (sm_put k v kvs))"
proof -
  have "set (sm_put k v kvs) \<subseteq> insert (k, v) (set kvs)"
    by (induction k v kvs rule: sm_put.induct) auto
  moreover have "sm_ordered (sm_put k v kvs)"
    using assms(1) omap.ok_put[of kvs k v] by (simp add: json_plain_JObj)
  ultimately show ?thesis using assms by (auto simp: json_plain_JObj)
qed

lemma json_plain_jobj:
  assumes "\<forall>kv \<in> set kvs. ascii (fst kv) \<and> json_plain (snd kv)"
  shows "json_plain (jobj kvs)"
proof -
  have "json_plain (JObj acc) \<Longrightarrow> json_plain (JObj (fold (\<lambda>kv. sm_put (fst kv) (snd kv)) kvs acc))" for acc
    using assms
  proof (induction kvs arbitrary: acc)
    case (Cons kv kvs)
    then show ?case using json_plain_sm_put[of acc "fst kv" "snd kv"] by auto
  qed simp
  moreover have "json_plain (JObj [])" using omap.ok_empty by (simp add: json_plain_JObj)
  ultimately show ?thesis by (simp add: jobj_def)
qed


section \<open>A concrete text form\<close>

text \<open>
  An instance of \<open>json_text\<close> for the examples: a prefix notation that is simpler than the
  library's and satisfies the documented law.
\<close>

definition enc_str :: "string \<Rightarrow> string" where
  "enc_str s = concat (map (\<lambda>c. [CHR ''+'', c]) s) @ ''.''"

fun dec_str :: "string \<Rightarrow> (string \<times> string) option" where
  "dec_str [] = None"
| "dec_str (x # s) =
     (if x = CHR ''.'' then Some ([], s)
      else (case s of [] \<Rightarrow> None | c # r \<Rightarrow> map_option (\<lambda>(u, t). (c # u, t)) (dec_str r)))"

lemma dec_enc_str [simp]: "dec_str (enc_str s @ r) = Some (s, r)"
  by (induction s) (simp_all add: enc_str_def)

primrec demo_dump :: "json \<Rightarrow> string" where
  "demo_dump JNull = ''n!''"
| "demo_dump (JBool b) = (if b then ''t!'' else ''f!'')"
| "demo_dump (JInt i) = ''i'' @ dec (nat (- i)) @ '';''"
| "demo_dump (JUInt w) = ''u'' @ dec (unat w) @ '';''"
| "demo_dump (JFloat r) = ''?!''"
| "demo_dump (JStr s) = ''s'' @ enc_str s"
| "demo_dump (JArr xs) = ''a'' @ concat (map (\<lambda>s. CHR '','' # s) (map demo_dump xs)) @ '']''"
| "demo_dump (JObj kvs) =
     ''o'' @ concat (map (\<lambda>(k, s). CHR '','' # enc_str k @ s) (map (map_prod id demo_dump) kvs)) @ '']''"

definition dec_num :: "string \<Rightarrow> nat \<times> string" where
  "dec_num s = (undec 0 (takeWhile is_digit s), drop 1 (dropWhile is_digit s))"

fun dec_val :: "nat \<Rightarrow> string \<Rightarrow> (json \<times> string) option"
  and dec_arr :: "nat \<Rightarrow> string \<Rightarrow> (json list \<times> string) option"
  and dec_obj :: "nat \<Rightarrow> string \<Rightarrow> ((string \<times> json) list \<times> string) option" where
  "dec_val 0 s = None"
| "dec_val (Suc n) s =
     (case s of [] \<Rightarrow> None
      | c # r \<Rightarrow>
        if c = CHR ''n'' then Some (JNull, drop 1 r)
        else if c = CHR ''t'' then Some (JBool True, drop 1 r)
        else if c = CHR ''f'' then Some (JBool False, drop 1 r)
        else if c = CHR ''i'' then Some (JInt (- int (fst (dec_num r))), snd (dec_num r))
        else if c = CHR ''u'' then Some (JUInt (of_nat (fst (dec_num r))), snd (dec_num r))
        else if c = CHR ''s'' then map_option (\<lambda>(u, t). (JStr u, t)) (dec_str r)
        else if c = CHR ''a'' then map_option (\<lambda>(xs, t). (JArr xs, t)) (dec_arr n r)
        else if c = CHR ''o'' then map_option (\<lambda>(kvs, t). (JObj kvs, t)) (dec_obj n r)
        else None)"
| "dec_arr 0 s = None"
| "dec_arr (Suc n) s =
     (case s of [] \<Rightarrow> None
      | c # r \<Rightarrow>
        if c = CHR '']'' then Some ([], r)
        else Option.bind (dec_val n r) (\<lambda>(x, t). map_option (\<lambda>(xs, u). (x # xs, u)) (dec_arr n t)))"
| "dec_obj 0 s = None"
| "dec_obj (Suc n) s =
     (case s of [] \<Rightarrow> None
      | c # r \<Rightarrow>
        if c = CHR '']'' then Some ([], r)
        else Option.bind (dec_str r) (\<lambda>(k, t).
             Option.bind (dec_val n t) (\<lambda>(x, u). map_option (\<lambda>(xs, v). ((k, x) # xs, v)) (dec_obj n u))))"

lemma dec_num_dec [simp]: "dec_num (dec n @ CHR '';'' # r) = (n, r)"
proof -
  have d: "\<And>c. c \<in> set (dec n) \<Longrightarrow> is_digit c" by (rule dec_digits)
  have "\<not> is_digit CHR '';''" by (simp add: is_digit_def less_eq_char_nat)
  with d show ?thesis by (simp add: dec_num_def takeWhile_append dropWhile_append undec_dec)
qed


lemma demo_dump_nonempty: "demo_dump j \<noteq> []"
  by (cases j) auto

lemma dec_arr_elems:
  assumes "\<And>x n r. x \<in> set xs \<Longrightarrow> length (demo_dump x) < n \<Longrightarrow> dec_val n (demo_dump x @ r) = Some (x, r)"
    and "length (concat (map (\<lambda>s. CHR '','' # s) (map demo_dump xs))) < n"
  shows "dec_arr n (concat (map (\<lambda>s. CHR '','' # s) (map demo_dump xs)) @ CHR '']'' # r) = Some (xs, r)"
  using assms
proof (induction xs arbitrary: n)
  case Nil
  then show ?case by (cases n) auto
next
  case (Cons x xs)
  then obtain m where m: "n = Suc m" by (cases n) auto
  with Cons show ?case by simp
qed

lemma dec_obj_elems:
  assumes "\<And>kv n r. kv \<in> set kvs \<Longrightarrow> length (demo_dump (snd kv)) < n \<Longrightarrow>
      dec_val n (demo_dump (snd kv) @ r) = Some (snd kv, r)"
    and "length (concat (map (\<lambda>(k, s). CHR '','' # enc_str k @ s) (map (map_prod id demo_dump) kvs))) < n"
  shows "dec_obj n (concat (map (\<lambda>(k, s). CHR '','' # enc_str k @ s) (map (map_prod id demo_dump) kvs)) @
      CHR '']'' # r) = Some (kvs, r)"
  using assms
proof (induction kvs arbitrary: n)
  case Nil
  then show ?case by (cases n) auto
next
  case (Cons kv kvs)
  obtain k v where kv: "kv = (k, v)" by (cases kv)
  obtain m where m: "n = Suc m" using Cons.prems(2) by (cases n) auto
  have "dec_val m (demo_dump v @ t) = Some (v, t)" for t
    using Cons.prems(1)[of kv m t] Cons.prems(2) by (simp add: kv m)
  moreover have "dec_obj m (concat (map (\<lambda>(k, s). CHR '','' # enc_str k @ s) (map (map_prod id demo_dump) kvs)) @
      CHR '']'' # r) = Some (kvs, r)"
    using Cons.prems by (intro Cons.IH) (auto simp: kv m)
  ultimately show ?case by (simp add: kv m id_def)
qed

lemma dec_val_demo_dump:
  "json_plain j \<Longrightarrow> length (demo_dump j) < n \<Longrightarrow> dec_val n (demo_dump j @ r) = Some (j, r)"
proof (induction j arbitrary: n r)
  case (JArr xs)
  then obtain m where m: "n = Suc m" by (cases n) auto
  show ?case
    using dec_arr_elems[of xs m r] JArr by (simp add: m)
next
  case (JObj kvs)
  then obtain m where m: "n = Suc m" by (cases n) auto
  have "dec_val n (demo_dump (snd kv) @ r) = Some (snd kv, r)"
    if "kv \<in> set kvs" "length (demo_dump (snd kv)) < n" for kv n r
    using JObj(1)[of kv "snd kv" n r] JObj(2) that by (cases kv) (auto simp: json_plain_JObj)
  then show ?case
    using dec_obj_elems[of kvs m r] JObj.prems(2) by (simp add: m)
next
  case (JUInt w)
  then obtain m where "n = Suc m" by (cases n) auto
  then show ?case by simp
next
  case (JInt i)
  then obtain m where "n = Suc m" by (cases n) auto
  with JInt show ?case by simp
qed (auto simp: less_Suc_eq_0_disj gr0_conv_Suc dest!: Suc_lessD elim!: less_natE)

definition demo_json :: json_text where
  "demo_json =
     \<lparr>dump = (\<lambda>i j. Inr (demo_dump j)),
      parse = (\<lambda>s. case dec_val (length s + 1) s of Some (j, []) \<Rightarrow> Inr j | _ \<Rightarrow> Inl (JsonException 101))\<rparr>"

lemma demo_json_ok: "json_text_ok demo_json"
  unfolding json_text_ok_def
proof (intro allI impI)
  fix i j
  assume "json_plain j"
  then have "dec_val (length (demo_dump j) + 1) (demo_dump j) = Some (j, [])"
    using dec_val_demo_dump[of j "length (demo_dump j) + 1" "[]"] by (simp del: dec_val.simps)
  then have "parse demo_json (demo_dump j) = Inr j" by (simp add: demo_json_def del: dec_val.simps)
  moreover have "2 < length (demo_dump j)" if arr: "is_array j \<and> j \<noteq> JArr []"
  proof -
    obtain x xs where "j = JArr (x # xs)"
      using arr by (cases j) (auto simp: is_array_def neq_Nil_conv)
    then show ?thesis using demo_dump_nonempty[of x] by (cases "demo_dump x") auto
  qed
  ultimately show "\<exists>s. dump demo_json i j = Inr s \<and> parse demo_json s = Inr j \<and> s \<noteq> [] \<and>
      (is_array j \<and> j \<noteq> JArr [] \<longrightarrow> 2 < length s)"
    using demo_dump_nonempty[of j] by (auto simp: demo_json_def)
qed

end
