(* ===== verification/Message.thy ===== *)
theory Message
  imports Json
begin

unbundle bit_operations_syntax

text \<open>
  \<^verbatim>\<open>include/network/message.h\<close>, \<^verbatim>\<open>src/network/message.cpp\<close>: the messages between nodes and their
  form on the wire, a big-endian length of four bytes followed by JSON text.
\<close>

section \<open>Messages\<close>

datatype MessageType =
    NEW_TRANSACTION | NEW_BLOCK | REQUEST_CHAIN | RESPONSE_CHAIN | PING | PONG | PEER_LIST
  | REQUEST_PEERS | RESPONSE_PEERS | NODE_ANNOUNCE | REGISTER_NODE | REQUEST_BOOTSTRAP
  | RESPONSE_BOOTSTRAP | UNKNOWN

record Message =
  msg_type :: MessageType
  msg_payload :: json

fun typeToString :: "MessageType \<Rightarrow> string" where
  "typeToString NEW_TRANSACTION = ''NEW_TRANSACTION''"
| "typeToString NEW_BLOCK = ''NEW_BLOCK''"
| "typeToString REQUEST_CHAIN = ''REQUEST_CHAIN''"
| "typeToString RESPONSE_CHAIN = ''RESPONSE_CHAIN''"
| "typeToString PING = ''PING''"
| "typeToString PONG = ''PONG''"
| "typeToString PEER_LIST = ''PEER_LIST''"
| "typeToString REQUEST_PEERS = ''REQUEST_PEERS''"
| "typeToString RESPONSE_PEERS = ''RESPONSE_PEERS''"
| "typeToString NODE_ANNOUNCE = ''NODE_ANNOUNCE''"
| "typeToString REGISTER_NODE = ''REGISTER_NODE''"
| "typeToString REQUEST_BOOTSTRAP = ''REQUEST_BOOTSTRAP''"
| "typeToString RESPONSE_BOOTSTRAP = ''RESPONSE_BOOTSTRAP''"
| "typeToString UNKNOWN = ''UNKNOWN''"

definition stringToType :: "string \<Rightarrow> MessageType" where
  "stringToType str =
     (if str = ''NEW_TRANSACTION'' then NEW_TRANSACTION
      else if str = ''NEW_BLOCK'' then NEW_BLOCK
      else if str = ''REQUEST_CHAIN'' then REQUEST_CHAIN
      else if str = ''RESPONSE_CHAIN'' then RESPONSE_CHAIN
      else if str = ''PING'' then PING
      else if str = ''PONG'' then PONG
      else if str = ''PEER_LIST'' then PEER_LIST
      else if str = ''REQUEST_PEERS'' then REQUEST_PEERS
      else if str = ''RESPONSE_PEERS'' then RESPONSE_PEERS
      else if str = ''NODE_ANNOUNCE'' then NODE_ANNOUNCE
      else if str = ''REGISTER_NODE'' then REGISTER_NODE
      else if str = ''REQUEST_BOOTSTRAP'' then REQUEST_BOOTSTRAP
      else if str = ''RESPONSE_BOOTSTRAP'' then RESPONSE_BOOTSTRAP
      else UNKNOWN)"

text \<open>The enumerators are numbered in the order of their declaration.\<close>

fun type_number :: "MessageType \<Rightarrow> nat" where
  "type_number NEW_TRANSACTION = 0"
| "type_number NEW_BLOCK = 1"
| "type_number REQUEST_CHAIN = 2"
| "type_number RESPONSE_CHAIN = 3"
| "type_number PING = 4"
| "type_number PONG = 5"
| "type_number PEER_LIST = 6"
| "type_number REQUEST_PEERS = 7"
| "type_number RESPONSE_PEERS = 8"
| "type_number NODE_ANNOUNCE = 9"
| "type_number REGISTER_NODE = 10"
| "type_number REQUEST_BOOTSTRAP = 11"
| "type_number RESPONSE_BOOTSTRAP = 12"
| "type_number UNKNOWN = 13"


section \<open>The wire format\<close>

definition low_char :: "u32 \<Rightarrow> char" where
  "low_char w = char_of (unat (w AND 0xFF))"

definition length_prefix :: "u32 \<Rightarrow> string" where
  "length_prefix len =
     [low_char (drop_bit 24 len), low_char (drop_bit 16 len), low_char (drop_bit 8 len), low_char len]"

definition frame :: "string \<Rightarrow> string" where
  "frame data = length_prefix (of_nat (length data)) @ data"

definition serialize :: "json_text \<Rightarrow> Message \<Rightarrow> string result" where
  "serialize jt msg =
     ebind (dump jt (-1) (jobj [(''type'', JStr (typeToString (msg_type msg))), (''payload'', msg_payload msg)]))
       (\<lambda>data. Inr (frame data))"

text \<open>Every exception of the JSON library is caught and gives an unknown message.\<close>

definition deserialize :: "json_text \<Rightarrow> string \<Rightarrow> Message" where
  "deserialize jt data =
     (case ebind (parse jt data) (\<lambda>j.
           ebind (jvalue get_str ''type'' ''UNKNOWN'' j) (\<lambda>t.
           ebind (jvalue Inr ''payload'' (JObj []) j) (\<lambda>p.
             Inr \<lparr>msg_type = stringToType t, msg_payload = p\<rparr>))) of
        Inr m \<Rightarrow> m
      | Inl e \<Rightarrow> \<lparr>msg_type = UNKNOWN, msg_payload = JObj []\<rparr>)"

text \<open>The reader's side of the length.\<close>

definition prefix_value :: "string \<Rightarrow> u32" where
  "prefix_value h =
     push_bit 24 (of_nat (of_char (h ! 0))) OR push_bit 16 (of_nat (of_char (h ! 1))) OR
     push_bit 8 (of_nat (of_char (h ! 2))) OR of_nat (of_char (h ! 3))"


section \<open>What is written is read back\<close>

lemma stringToType_typeToString [simp]: "stringToType (typeToString t) = t"
  by (cases t) (simp_all add: stringToType_def)

lemma ascii_typeToString: "ascii (typeToString t)"
  by (cases t) (simp_all add: ascii_def)

lemma low_char_value: "of_nat (of_char (low_char w)) = w AND (0xFF :: u32)"
proof -
  have "unat (w AND 0xFF) \<le> unat (0xFF :: u32)" by (rule word_le_nat_alt[THEN iffD1]) (rule word_and_le1)
  then have "unat (w AND 0xFF) < 256" by simp
  then show ?thesis by (simp add: low_char_def of_char_of)
qed

lemma length_length_prefix [simp]: "length (length_prefix w) = 4"
  by (simp add: length_prefix_def)

lemma prefix_value_length_prefix [simp]: "prefix_value (length_prefix w @ s) = w"
proof -
  have m: "(0xFF :: u32) = mask 8" by (simp add: mask_eq_exp_minus_1)
  have "prefix_value (length_prefix w @ s) =
      push_bit 24 (drop_bit 24 w AND mask 8) OR push_bit 16 (drop_bit 16 w AND mask 8) OR
      push_bit 8 (drop_bit 8 w AND mask 8) OR (w AND mask 8)"
    by (simp add: prefix_value_def length_prefix_def low_char_value m)
  also have "\<dots> = w"
  proof (rule bit_word_eqI)
    fix n
    assume "n < LENGTH(32)"
    consider "n < 8" | "8 \<le> n" "n < 16" | "16 \<le> n" "n < 24" | "24 \<le> n" by linarith
    then show "bit (push_bit 24 (drop_bit 24 w AND mask 8) OR push_bit 16 (drop_bit 16 w AND mask 8) OR
      push_bit 8 (drop_bit 8 w AND mask 8) OR (w AND mask 8)) n = bit w n"
      using \<open>n < LENGTH(32)\<close> by cases (auto simp: bit_simps)
  qed
  finally show ?thesis .
qed

lemma prefix_value_length_prefix_Nil [simp]: "prefix_value (length_prefix w) = w"
  using prefix_value_length_prefix[of w "[]"] by simp

text \<open>A message that the JSON library can write and read, of a known type and short enough.\<close>

definition sendable :: "json_text \<Rightarrow> Message \<Rightarrow> bool" where
  "sendable jt m \<longleftrightarrow> msg_type m \<noteq> UNKNOWN \<and> json_plain (msg_payload m) \<and>
     (\<forall>s. serialize jt m = Inr s \<longrightarrow> length s \<le> 10 * 1024 * 1024 + 4)"

lemma message_json_plain:
  "json_plain p \<Longrightarrow> json_plain (jobj [(''type'', JStr (typeToString t)), (''payload'', p)])"
  by (intro json_plain_jobj) (auto simp: ascii_typeToString, simp_all add: ascii_def)

lemma serialize_parts:
  assumes "json_text_ok jt" "json_plain (msg_payload m)"
  obtains d where "serialize jt m = Inr (frame d)" "deserialize jt d = m" "d \<noteq> []"
proof -
  have "json_plain (jobj [(''type'', JStr (typeToString (msg_type m))), (''payload'', msg_payload m)])"
    using assms(2) by (rule message_json_plain)
  then obtain d where d: "dump jt (-1) (jobj [(''type'', JStr (typeToString (msg_type m))), (''payload'', msg_payload m)]) = Inr d"
      "parse jt d = Inr (jobj [(''type'', JStr (typeToString (msg_type m))), (''payload'', msg_payload m)])" "d \<noteq> []"
    using assms(1) unfolding json_text_ok_def by blast
  show ?thesis
  proof
    show "serialize jt m = Inr (frame d)" using d(1) by (simp add: serialize_def)
    show "deserialize jt d = m" using d(2) by (simp add: deserialize_def)
  qed (rule d(3))
qed

end
