(* ===== verification/Peer.thy ===== *)
theory Peer
  imports Message
begin

text \<open>
  \<^verbatim>\<open>include/network/peer.h\<close>, \<^verbatim>\<open>src/network/peer.cpp\<close>: one connection to another node. The socket is
  represented by whether it is open and by what \<^verbatim>\<open>remote_endpoint()\<close> answers while it is; that
  call throws on a closed socket. The completion handlers of the asynchronous reads and writes
  are functions of the outcome of the operation. Times are nanoseconds of the steady clock.
\<close>

section \<open>Data and operations\<close>

record Peer =
  remote_endpoint :: "(string \<times> u16) option"
  is_open :: bool
  knownListenPort :: u16
  writeQueue :: "string list"
  writing :: bool
  messageTimes :: "int list"

definition MAX_WRITE_QUEUE :: nat where
  "MAX_WRITE_QUEUE = 1000"

definition new_peer :: "(string \<times> u16) option \<Rightarrow> Peer" where
  "new_peer remote =
     \<lparr>remote_endpoint = remote, is_open = True, knownListenPort = 0, writeQueue = [],
      writing = False, messageTimes = []\<rparr>"

text \<open>A message that is dropped because the queue is full leaves the connection unchanged.\<close>

definition enqueue :: "string \<Rightarrow> Peer \<Rightarrow> Peer" where
  "enqueue data p =
     (if length (writeQueue p) \<ge> MAX_WRITE_QUEUE then p
      else let p1 = p\<lparr>writeQueue := writeQueue p @ [data]\<rparr>
           in if \<not> writing p1 then p1\<lparr>writing := True\<rparr> else p1)"

definition send :: "json_text \<Rightarrow> Message \<Rightarrow> Peer \<Rightarrow> Peer result" where
  "send jt msg p = ebind (serialize jt msg) (\<lambda>data. Inr (enqueue data p))"

definition close_peer :: "Peer \<Rightarrow> Peer" where
  "close_peer p = p\<lparr>is_open := False\<rparr>"

definition isConnected :: "Peer \<Rightarrow> bool" where
  "isConnected p = is_open p"

definition getEndpoint :: "Peer \<Rightarrow> string" where
  "getEndpoint p =
     (case remote_endpoint p of
        Some (address, rport) \<Rightarrow>
          if is_open p then
            (let port = (if knownListenPort p > 0 then knownListenPort p else rport)
             in address @ '':'' @ to_string port)
          else ''unknown''
      | None \<Rightarrow> ''unknown'')"

definition getPort :: "Peer \<Rightarrow> u16" where
  "getPort p =
     (case remote_endpoint p of
        Some (address, rport) \<Rightarrow> if is_open p then rport else 0
      | None \<Rightarrow> 0)"

definition setListenPort :: "u16 \<Rightarrow> Peer \<Rightarrow> Peer" where
  "setListenPort port p = p\<lparr>knownListenPort := port\<rparr>"

definition isRateLimited :: "int \<Rightarrow> nat \<Rightarrow> Peer \<Rightarrow> Peer \<times> bool" where
  "isRateLimited now maxPerSecond p =
     (let times = messageTimes p @ [now];
          cutoff = now - 1000000000;
          kept = dropWhile (\<lambda>t. t < cutoff) times
      in (p\<lparr>messageTimes := kept\<rparr>, length kept > maxPerSecond))"

text \<open>
  Completion of a header read: the connection is closed, or the length of the body to be read
  next is returned. Completion of a body read: the connection is closed, or the message is
  returned that is passed to the handler, if any.
\<close>

definition header_read :: "bool \<Rightarrow> string \<Rightarrow> Peer \<Rightarrow> Peer \<times> u32 option" where
  "header_read ec headerBuf p =
     (if ec then (close_peer p, None)
      else let bodyLen = prefix_value headerBuf
           in if bodyLen > 10 * 1024 * 1024 then (close_peer p, None)
              else (p, Some bodyLen))"

definition body_read :: "json_text \<Rightarrow> bool \<Rightarrow> string \<Rightarrow> Peer \<Rightarrow> Peer \<times> Message option" where
  "body_read jt ec bodyBuf p =
     (if ec then (close_peer p, None)
      else let msg = deserialize jt bodyBuf
           in if msg_type msg = UNKNOWN then (p, None) else (p, Some msg))"

text \<open>Completion of a write of the front of the queue.\<close>

definition write_done :: "bool \<Rightarrow> Peer \<Rightarrow> Peer" where
  "write_done ec p =
     (if ec then p\<lparr>writing := False, writeQueue := []\<rparr>
      else let p1 = p\<lparr>writeQueue := tl (writeQueue p)\<rparr>
           in if writeQueue p1 \<noteq> [] then p1 else p1\<lparr>writing := False\<rparr>)"

text \<open>
  The reading loop on a connection on which the bytes \<open>s\<close> arrive before it ends: a read of
  \<open>n\<close> bytes fails when fewer are left. The messages passed to the handler are returned in order.
\<close>

function read_stream :: "json_text \<Rightarrow> string \<Rightarrow> Peer \<Rightarrow> Peer \<times> Message list" where
  "read_stream jt s p =
     (case header_read (length s < 4) (take 4 s) p of
        (p1, None) \<Rightarrow> (p1, [])
      | (p1, Some n) \<Rightarrow>
          let r = drop 4 s
          in if length r < unat n then (fst (body_read jt True [] p1), [])
             else case body_read jt False (take (unat n) r) p1 of
                    (p2, m) \<Rightarrow>
                      let (p3, ms) = read_stream jt (drop (unat n) r) p2
                      in (p3, (case m of None \<Rightarrow> ms | Some msg \<Rightarrow> msg # ms)))"
  by pat_completeness auto
termination
  by (relation "measure (\<lambda>(jt, s, p). length s)") (auto simp: header_read_def Let_def split: if_splits)

declare read_stream.simps [simp del]


section \<open>The write queue\<close>

text \<open>
  What was accepted for sending, oldest first, and which frames were written completely.
\<close>

inductive writer_run :: "json_text \<Rightarrow> Message list \<Rightarrow> string list \<Rightarrow> Peer \<Rightarrow> bool" for jt where
  start: "writer_run jt [] [] (new_peer remote)"
| send: "writer_run jt ms w p \<Longrightarrow> send jt m p = Inr p' \<Longrightarrow>
    writer_run jt (if length (writeQueue p) \<ge> MAX_WRITE_QUEUE then ms else ms @ [m]) w p'"
| written: "writer_run jt ms w p \<Longrightarrow> writing p \<Longrightarrow>
    writer_run jt ms (w @ [hd (writeQueue p)]) (write_done False p)"

definition queue_ok :: "Peer \<Rightarrow> bool" where
  "queue_ok p \<longleftrightarrow> (writing p \<longleftrightarrow> writeQueue p \<noteq> []) \<and> length (writeQueue p) \<le> MAX_WRITE_QUEUE"

lemma queue_ok_new [simp, intro]: "queue_ok (new_peer r)"
  by (simp add: queue_ok_def new_peer_def)

lemma queue_ok_enqueue [inv_intros]: "queue_ok p \<Longrightarrow> queue_ok (enqueue d p)"
  by (auto simp: queue_ok_def enqueue_def Let_def)

lemma queue_ok_write_done [inv_intros]: "queue_ok p \<Longrightarrow> queue_ok (write_done ec p)"
  by (auto simp: queue_ok_def write_done_def Let_def)

lemma writer_run_inv:
  "writer_run jt ms w p \<Longrightarrow> queue_ok p \<and> map (serialize jt) ms = map Inr (w @ writeQueue p)"
proof (induction rule: writer_run.induct)
  case (send ms w p m p')
  then show ?case
    by (auto simp: send_def intro: inv_intros) (auto simp: enqueue_def Let_def)
next
  case (written ms w p)
  then have "writeQueue p \<noteq> []" by (simp add: queue_ok_def)
  with written show ?case
    by (auto intro: inv_intros) (cases "writeQueue p", auto simp: write_done_def Let_def)
qed (simp_all add: queue_ok_def new_peer_def)


section \<open>The reading loop\<close>

lemma unat_prefix:
  "length d < 2 ^ 32 \<Longrightarrow> unat (prefix_value (frame d @ r)) = length d"
  by (simp add: frame_def unat_of_nat)

lemma read_stream_frame:
  assumes "length d \<le> 10 * 1024 * 1024"
  shows "read_stream jt (frame d @ r) p =
    (let (p', ms) = read_stream jt r p; m = deserialize jt d
     in (p', if msg_type m = UNKNOWN then ms else m # ms))"
proof -
  have u: "unat (of_nat (length d) :: u32) = length d"
    using assms by (simp add: unat_of_nat)
  have h: "header_read (length (frame d @ r) < 4) (take 4 (frame d @ r)) p = (p, Some (of_nat (length d)))"
    using assms by (simp add: header_read_def Let_def word_less_nat_alt u frame_def)
  have t: "take (length d) (drop 4 (frame d @ r)) = d" "drop (length d) (drop 4 (frame d @ r)) = r"
    "\<not> length (drop 4 (frame d @ r)) < length d"
    by (simp_all add: frame_def)
  show ?thesis
    by (subst read_stream.simps) (simp only: h prod.case option.case u t Let_def if_False,
        simp add: body_read_def Let_def split: prod.splits)
qed

lemma read_stream_end:
  assumes "length s < 4"
  shows "read_stream jt s p = (close_peer p, [])"
  using assms by (subst read_stream.simps) (simp add: header_read_def)

lemma read_stream_oversized:
  assumes "10 * 1024 * 1024 < length d" "length d < 2 ^ 32"
  shows "read_stream jt (frame d @ r) p = (close_peer p, [])"
proof -
  have "unat (of_nat (length d) :: u32) = length d"
    using assms by (simp add: unat_of_nat)
  then have h: "header_read (length (frame d @ r) < 4) (take 4 (frame d @ r)) p = (close_peer p, None)"
    using assms by (simp add: header_read_def Let_def word_less_nat_alt frame_def)
  show ?thesis by (subst read_stream.simps) (simp only: h prod.case option.case)
qed

lemma read_stream_frames:
  assumes "json_text_ok jt" "map (serialize jt) ms = map Inr fs" "\<forall>m \<in> set ms. sendable jt m"
  shows "read_stream jt (concat fs) p = (close_peer p, ms)"
  using assms(2,3)
proof (induction ms arbitrary: fs)
  case Nil
  then show ?case by (simp add: read_stream_end)
next
  case (Cons m ms)
  then obtain f fs' where fs: "fs = f # fs'" "serialize jt m = Inr f" "map (serialize jt) ms = map Inr fs'"
    by (cases fs) auto
  from Cons.prems(2) have s: "msg_type m \<noteq> UNKNOWN" "json_plain (msg_payload m)" "length f \<le> 10 * 1024 * 1024 + 4"
    using fs(2) by (auto simp: sendable_def)
  obtain d where d: "f = frame d" "deserialize jt d = m"
    using serialize_parts[OF assms(1) s(2)] fs(2) by auto
  have "length d \<le> 10 * 1024 * 1024" using s(3) by (simp add: d(1) frame_def)
  from read_stream_frame[OF this, of jt "concat fs'" p] Cons fs(3) s(1) show ?case
    by (simp add: fs(1) d)
qed


section \<open>Properties\<close>


text \<open>
  A message whose text is longer than 10 MB is sent without complaint, but the receiver
  closes the connection on its header and never sees it or anything sent after it; a node whose
  chain has outgrown the limit can therefore not be synchronised from.
\<close>

theorem oversized_message_closes_receiver:
  assumes "dump jt (-1) (jobj [(''type'', JStr (typeToString (msg_type m))), (''payload'', msg_payload m)]) = Inr d"
    and "10 * 1024 * 1024 < length d" "length d < 2 ^ 32" "writeQueue p = []"
  shows "\<exists>p'. send jt m p = Inr p' \<and> writeQueue p' = [frame d] \<and>
    read_stream jt (concat (writeQueue p') @ later) q = (close_peer q, [])"
  using assms by (auto simp: send_def serialize_def enqueue_def MAX_WRITE_QUEUE_def Let_def read_stream_oversized)

text \<open>Two messages, the first of them written.\<close>

definition demo_ping :: Message where
  "demo_ping = \<lparr>msg_type = PING, msg_payload = JObj []\<rparr>"

lemma demo_ping_sendable: "sendable demo_json demo_ping"
  by (simp add: sendable_def demo_ping_def json_plain_JObj sm_ordered_def serialize_def demo_json_def
      frame_def jobj_def enc_str_def)


theorem oversized_message_closes_receiver_witness:
  "let jt = demo_json\<lparr>dump := (\<lambda>i j. Inr (replicate 10485761 CHR ''x''))\<rparr>
   in \<exists>p'. send jt demo_ping (new_peer None) = Inr p' \<and>
        read_stream jt (concat (writeQueue p')) (new_peer None) = (close_peer (new_peer None), [])"
proof -
  let ?jt = "demo_json\<lparr>dump := (\<lambda>i j. Inr (replicate 10485761 CHR ''x''))\<rparr>"
  have d: "dump ?jt (-1) (jobj [(''type'', JStr (typeToString (msg_type demo_ping))),
      (''payload'', msg_payload demo_ping)]) = Inr (replicate 10485761 CHR ''x'')" by simp
  from oversized_message_closes_receiver[OF d, of "new_peer None" "[]" "new_peer None"]
  show ?thesis by (auto simp: Let_def new_peer_def)
qed

end
