(* ===== verification/Number_Input.thy ===== *)
theory Number_Input
  imports Prelude
begin

text \<open>\<^verbatim>\<open>std::stoi\<close> with base 10, and the signed 32-bit arithmetic of \<^verbatim>\<open>int32_t\<close> counters.\<close>

text \<open>
  White space is skipped, one sign and a nonempty run of digits are read, the rest is ignored.
  No digits throw \<^verbatim>\<open>std::invalid_argument\<close>, values outside 32 bits \<^verbatim>\<open>std::out_of_range\<close>.
\<close>

definition sign_split :: "string \<Rightarrow> bool \<times> string" where
  "sign_split s =
     (case s of
        [] \<Rightarrow> (False, [])
      | c # r \<Rightarrow> if c = CHR ''-'' then (True, r) else if c = CHR ''+'' then (False, r) else (False, s))"

definition stoi :: "string \<Rightarrow> int result" where
  "stoi s =
     (let (neg, t) = sign_split (dropWhile is_space s);
          ds = takeWhile is_digit t;
          v = (if neg then - int (undec 0 ds) else int (undec 0 ds))
      in if ds = [] then Inl (InvalidArgument ''stoi'')
         else if v < - (2 ^ 31) \<or> 2 ^ 31 \<le> v then Inl (OutOfRange ''stoi'')
         else Inr v)"

lemma dec_Cons:
  obtains c cs where "dec n = c # cs" "is_digit c" "\<forall>d \<in> set cs. is_digit d"
proof (cases "dec n")
  case (Cons c cs)
  then have "\<forall>d \<in> set (c # cs). is_digit d" using dec_digits[of _ n] by auto
  with Cons that show ?thesis by auto
qed simp

lemma sign_split_dec: "sign_split (dropWhile is_space (dec n @ r)) = (False, dec n @ r)"
proof -
  obtain c cs where c: "dec n = c # cs" "is_digit c" by (rule dec_Cons[of n])
  then have "c \<noteq> CHR ''-''" "c \<noteq> CHR ''+''" "\<not> is_space c"
    using is_digit_not_space by (auto simp: is_digit_iff)
  with c show ?thesis by (simp add: sign_split_def)
qed

lemma stoi_dec:
  assumes "n < 2 ^ 31" "\<And>c cs. r = c # cs \<Longrightarrow> \<not> is_digit c"
  shows "stoi (dec n @ r) = Inr (int n)"
proof -
  have t: "takeWhile is_digit (dec n @ r) = dec n"
    using dec_digits[of _ n] assms(2) by (cases r) (auto simp: takeWhile_append)
  have "int n < int (2 ^ 31)" using assms(1) by (simp only: of_nat_less_iff)
  then show ?thesis by (simp add: stoi_def sign_split_dec t undec_dec)
qed

lemma stoi_to_string:
  fixes w :: u16
  shows "stoi (to_string w) = Inr (uint w)"
proof -
  have "unat w < 65536" using unsigned_less[of w, where ?'a = nat] by simp
  then have "unat w < 2 ^ 31" by simp
  then show ?thesis using stoi_dec[of "unat w" "[]"] by (simp add: to_string_def)
qed

text \<open>Two's complement wrap-around of \<^verbatim>\<open>int32_t\<close>.\<close>

definition s32 :: "int \<Rightarrow> int" where
  "s32 i = sint (word_of_int i :: 32 word)"

lemma s32_id: "- 2147483648 \<le> i \<Longrightarrow> i < 2147483648 \<Longrightarrow> s32 i = i"
  by (simp add: s32_def int_word_sint)

end
