(* ===== verification/Peer_Scorer.thy ===== *)
theory Peer_Scorer
  imports Number_Input Ordered_Map
begin

text \<open>
  \<^verbatim>\<open>include/network/peer_scorer.h\<close>, \<^verbatim>\<open>src/network/peer_scorer.cpp\<close>: reputation, bans and
  heartbeats. The map \<^verbatim>\<open>peers_\<close> is a \<^verbatim>\<open>std::map\<close>, iterated in key order; every method holds the
  mutex. Times are nanoseconds of the steady clock.
\<close>

section \<open>Data and operations\<close>

record PeerInfo =
  pi_host :: string
  pi_port :: u16
  score :: int
  banned :: bool
  invalidBlockCount :: int
  lastSeen :: int
  lastPingSent :: int
  pendingPong :: bool

type_synonym scorer = "PeerInfo smap"

definition INITIAL_SCORE :: int where "INITIAL_SCORE = 100"
definition BAN_THRESHOLD :: int where "BAN_THRESHOLD = 0"
definition REWARD_VALID_BLOCK :: int where "REWARD_VALID_BLOCK = 1"
definition REWARD_VALID_TX :: int where "REWARD_VALID_TX = 1"
definition PENALTY_INVALID_BLOCK :: int where "PENALTY_INVALID_BLOCK = -10"
definition PENALTY_INVALID_TX :: int where "PENALTY_INVALID_TX = -5"
definition PENALTY_RAPID_MISBEHAVIOR :: int where "PENALTY_RAPID_MISBEHAVIOR = -20"

definition peer_key :: "string \<Rightarrow> u16 \<Rightarrow> string" where
  "peer_key host port = host @ '':'' @ to_string port"

definition new_peer_info :: "int \<Rightarrow> string \<Rightarrow> u16 \<Rightarrow> PeerInfo" where
  "new_peer_info now host port =
     \<lparr>pi_host = host, pi_port = port, score = INITIAL_SCORE, banned = False, invalidBlockCount = 0,
      lastSeen = now, lastPingSent = 0, pendingPong = False\<rparr>"

definition addPeer :: "int \<Rightarrow> string \<Rightarrow> u16 \<Rightarrow> scorer \<Rightarrow> scorer" where
  "addPeer now host port peers =
     (let k = peer_key host port
      in if sm_get peers k = None then sm_put k (new_peer_info now host port) peers else peers)"

definition reward_info :: "int \<Rightarrow> PeerInfo \<Rightarrow> PeerInfo" where
  "reward_info amt p =
     (let p1 = p\<lparr>score := s32 (score p + amt)\<rparr>;
          p2 = (if score p1 > 200 then p1\<lparr>score := 200\<rparr> else p1)
      in if banned p2 \<and> score p2 > BAN_THRESHOLD + 20
         then p2\<lparr>banned := False, invalidBlockCount := 0\<rparr> else p2)"

definition rewardPeer :: "string \<Rightarrow> int \<Rightarrow> scorer \<Rightarrow> scorer" where
  "rewardPeer key amt peers =
     (case sm_get peers key of None \<Rightarrow> peers | Some p \<Rightarrow> sm_adjust key (reward_info amt) peers)"

definition penalize_info :: "int \<Rightarrow> PeerInfo \<Rightarrow> PeerInfo" where
  "penalize_info penalty p =
     (let p1 = p\<lparr>score := s32 (score p + penalty)\<rparr>;
          p2 = (if penalty = PENALTY_INVALID_BLOCK then
                  (let p' = p1\<lparr>invalidBlockCount := s32 (invalidBlockCount p1 + 1)\<rparr>
                   in if invalidBlockCount p' = 3
                      then p'\<lparr>score := s32 (score p' + PENALTY_RAPID_MISBEHAVIOR)\<rparr> else p')
                else p1)
      in if score p2 \<le> BAN_THRESHOLD then p2\<lparr>banned := True\<rparr> else p2)"

definition penalizePeer :: "string \<Rightarrow> int \<Rightarrow> scorer \<Rightarrow> scorer \<times> bool" where
  "penalizePeer key penalty peers =
     (case sm_get peers key of
        None \<Rightarrow> (peers, False)
      | Some p \<Rightarrow> (sm_adjust key (penalize_info penalty) peers,
                   score (penalize_info penalty p) \<le> BAN_THRESHOLD))"

definition isBanned :: "string \<Rightarrow> scorer \<Rightarrow> bool" where
  "isBanned key peers = (case sm_get peers key of None \<Rightarrow> False | Some p \<Rightarrow> banned p)"

definition getScore :: "string \<Rightarrow> scorer \<Rightarrow> int" where
  "getScore key peers = (case sm_get peers key of None \<Rightarrow> 0 | Some p \<Rightarrow> score p)"

definition markSeen :: "int \<Rightarrow> string \<Rightarrow> scorer \<Rightarrow> scorer" where
  "markSeen now key peers =
     (case sm_get peers key of None \<Rightarrow> peers | Some p \<Rightarrow> sm_adjust key (\<lambda>p. p\<lparr>lastSeen := now\<rparr>) peers)"

definition markPingSent :: "int \<Rightarrow> string \<Rightarrow> scorer \<Rightarrow> scorer" where
  "markPingSent now key peers =
     (case sm_get peers key of
        None \<Rightarrow> peers
      | Some p \<Rightarrow> if pendingPong p then peers
                  else sm_adjust key (\<lambda>p. p\<lparr>lastPingSent := now, pendingPong := True\<rparr>) peers)"

definition markPongReceived :: "int \<Rightarrow> string \<Rightarrow> scorer \<Rightarrow> scorer" where
  "markPongReceived now key peers =
     (case sm_get peers key of
        None \<Rightarrow> peers
      | Some p \<Rightarrow> sm_adjust key (\<lambda>p. p\<lparr>pendingPong := False, lastSeen := now\<rparr>) peers)"

abbreviation ns :: "int \<Rightarrow> int" where
  "ns seconds \<equiv> seconds * 1000000000"

definition getHeartbeatTimeoutPeers :: "int \<Rightarrow> int \<Rightarrow> scorer \<Rightarrow> string list" where
  "getHeartbeatTimeoutPeers now timeoutSeconds peers =
     map fst (filter (\<lambda>kp. pendingPong (snd kp) \<and> now - lastPingSent (snd kp) > ns timeoutSeconds) peers)"

definition getShareablePeers :: "scorer \<Rightarrow> string list" where
  "getShareablePeers peers = map fst (filter (\<lambda>kp. \<not> banned (snd kp) \<and> score (snd kp) > 20) peers)"

definition evictStalePeers :: "int \<Rightarrow> int \<Rightarrow> scorer \<Rightarrow> scorer" where
  "evictStalePeers now staleSeconds peers = sm_filter (\<lambda>p. \<not> now - lastSeen p > ns staleSeconds) peers"


section \<open>Runs of the scorer\<close>

text \<open>
  A peer is in order if its score is at most 200, a banned peer has not recovered above 20 and
  a peer that is not banned is above the threshold.
\<close>

definition peer_ok :: "PeerInfo \<Rightarrow> bool" where
  "peer_ok p \<longleftrightarrow> - (2 ^ 31) \<le> score p \<and> score p \<le> 200 \<and> (banned p \<longrightarrow> score p \<le> 20) \<and> (\<not> banned p \<longrightarrow> 0 < score p)"

definition scorer_ok :: "scorer \<Rightarrow> bool" where
  "scorer_ok peers \<longleftrightarrow> sm_ordered peers \<and> (\<forall>kp \<in> set peers. peer_ok (snd kp))"

text \<open>
  The calls the node makes: rewards are nonnegative, penalties are not positive, and no 32-bit
  score is driven below \<open>- 2^30\<close>.
\<close>

inductive scorer_step :: "scorer \<Rightarrow> scorer \<Rightarrow> bool" where
  add: "scorer_step s (addPeer now host port s)"
| reward: "0 \<le> amt \<Longrightarrow> amt \<le> 2 ^ 30 \<Longrightarrow> scorer_step s (rewardPeer k amt s)"
| penalize: "penalty \<le> 0 \<Longrightarrow> - (2 ^ 29) \<le> penalty \<Longrightarrow> \<forall>kp \<in> set s. - (2 ^ 30) \<le> score (snd kp) \<Longrightarrow>
    scorer_step s (fst (penalizePeer k penalty s))"
| seen: "scorer_step s (markSeen now k s)"
| ping: "scorer_step s (markPingSent now k s)"
| pong: "scorer_step s (markPongReceived now k s)"
| evict: "scorer_step s (evictStalePeers now stale s)"

lemma set_sm_adjust: "kp \<in> set (sm_adjust k f m) \<Longrightarrow> \<exists>v. (fst kp, v) \<in> set m \<and> (snd kp = v \<or> snd kp = f v)"
  by (cases kp) (force simp: sm_adjust_def split: if_splits)

lemma scorer_ok_adjust:
  assumes "scorer_ok s" "\<And>p. p \<in> snd ` set s \<Longrightarrow> peer_ok p \<Longrightarrow> peer_ok (f p)"
  shows "scorer_ok (sm_adjust k f s)"
  unfolding scorer_ok_def
proof (intro conjI ballI)
  show "sm_ordered (sm_adjust k f s)" using assms(1) by (simp add: scorer_ok_def)
  fix kp assume "kp \<in> set (sm_adjust k f s)"
  then obtain v where v: "(fst kp, v) \<in> set s" "snd kp = v \<or> snd kp = f v" using set_sm_adjust by blast
  moreover have "peer_ok v" using assms(1) v(1) by (auto simp: scorer_ok_def)
  moreover have "v \<in> snd ` set s" using v(1) by force
  ultimately show "peer_ok (snd kp)" using assms(2)[of v] by metis
qed

lemma reward_info_ok:
  assumes "peer_ok p" "0 \<le> amt" "amt \<le> 2 ^ 30"
  shows "peer_ok (reward_info amt p)"
proof -
  have "s32 (score p + amt) = score p + amt"
    using assms by (intro s32_id) (simp_all add: peer_ok_def)
  then show ?thesis using assms(1,2) by (auto simp: peer_ok_def reward_info_def Let_def BAN_THRESHOLD_def)
qed

lemma penalize_info_ok:
  assumes "peer_ok p" "penalty \<le> 0" "- (2 ^ 29) \<le> penalty" "- (2 ^ 30) \<le> score p"
  shows "peer_ok (penalize_info penalty p)"
proof -
  have "s32 (score p + penalty) = score p + penalty"
    "s32 (score p + penalty + PENALTY_RAPID_MISBEHAVIOR) = score p + penalty + PENALTY_RAPID_MISBEHAVIOR"
    using assms by (auto intro!: s32_id simp: peer_ok_def PENALTY_RAPID_MISBEHAVIOR_def)
  then show ?thesis
    using assms by (auto simp: peer_ok_def penalize_info_def Let_def BAN_THRESHOLD_def PENALTY_RAPID_MISBEHAVIOR_def)
qed

lemma set_sm_put: "set (sm_put k v m) \<subseteq> insert (k, v) (set m)"
  by (induction k v m rule: sm_put.induct) auto

lemma scorer_step_ok:
  assumes "scorer_step s s'" "scorer_ok s"
  shows "scorer_ok s'"
  using assms
proof (cases rule: scorer_step.cases)
  case (add now host port)
  have "peer_ok (new_peer_info now host port)"
    by (simp add: peer_ok_def new_peer_info_def INITIAL_SCORE_def)
  then show ?thesis
    using assms(2) set_sm_put[of "peer_key host port" "new_peer_info now host port" s]
    by (auto simp: add addPeer_def scorer_ok_def Let_def intro: sm_ordered_put)
next
  case (evict now stale)
  show ?thesis
    using assms(2) by (auto simp: evict evictStalePeers_def scorer_ok_def sm_filter_def intro: sm_ordered_filter)
next
  case (penalize penalty k)
  have "scorer_ok (sm_adjust k (penalize_info penalty) s)"
    using assms(2) penalize by (intro scorer_ok_adjust penalize_info_ok) auto
  then show ?thesis using assms(2) by (simp add: penalize penalizePeer_def split: option.splits)
next
  case (reward amt k)
  have "scorer_ok (sm_adjust k (reward_info amt) s)"
    using assms(2) reward by (intro scorer_ok_adjust reward_info_ok) auto
  then show ?thesis using assms(2) by (simp add: reward rewardPeer_def split: option.splits)
qed (use assms(2) in \<open>auto simp: markSeen_def markPingSent_def markPongReceived_def peer_ok_def
      intro!: scorer_ok_adjust split: option.splits\<close>)

inductive scorer_reachable :: "scorer \<Rightarrow> bool" where
  empty: "scorer_reachable []"
| step: "scorer_reachable s \<Longrightarrow> scorer_step s s' \<Longrightarrow> scorer_reachable s'"

lemma scorer_reachable_ok: "scorer_reachable s \<Longrightarrow> scorer_ok s"
proof (induction rule: scorer_reachable.induct)
  case empty
  show ?case by (simp add: scorer_ok_def sm_ordered_def)
next
  case (step s s')
  then show ?case by (blast intro: scorer_step_ok)
qed


section \<open>Repeated invalid blocks\<close>

fun invalid_blocks :: "nat \<Rightarrow> string \<Rightarrow> scorer \<Rightarrow> scorer" where
  "invalid_blocks 0 k s = s"
| "invalid_blocks (Suc n) k s = invalid_blocks n k (fst (penalizePeer k PENALTY_INVALID_BLOCK s))"

fun valid_blocks :: "nat \<Rightarrow> string \<Rightarrow> scorer \<Rightarrow> scorer" where
  "valid_blocks 0 k s = s"
| "valid_blocks (Suc n) k s = valid_blocks n k (rewardPeer k REWARD_VALID_BLOCK s)"

lemma get_invalid_blocks:
  "sm_get (invalid_blocks n k s) k = map_option (penalize_info PENALTY_INVALID_BLOCK ^^ n) (sm_get s k)"
proof (induction n arbitrary: s)
  case (Suc n)
  have "sm_get (fst (penalizePeer k PENALTY_INVALID_BLOCK s)) k =
      map_option (penalize_info PENALTY_INVALID_BLOCK) (sm_get s k)"
    by (simp add: penalizePeer_def split: option.splits)
  then show ?case by (simp add: Suc option.map_comp funpow_swap1 comp_def)
qed (simp add: option.map_id)

lemma get_valid_blocks:
  "sm_get (valid_blocks n k s) k = map_option (reward_info REWARD_VALID_BLOCK ^^ n) (sm_get s k)"
proof (induction n arbitrary: s)
  case (Suc n)
  have "sm_get (rewardPeer k REWARD_VALID_BLOCK s) k = map_option (reward_info REWARD_VALID_BLOCK) (sm_get s k)"
    by (simp add: rewardPeer_def split: option.splits)
  then show ?case by (simp add: Suc option.map_comp funpow_swap1 comp_def)
qed (simp add: option.map_id)


lemma penalized_fresh:
  assumes "n \<le> 2 ^ 20"
  shows "(penalize_info PENALTY_INVALID_BLOCK ^^ n) (new_peer_info now host port) =
    (new_peer_info now host port)\<lparr>score := (if n < 3 then 100 else 80) - 10 * int n,
       banned := 8 \<le> n, invalidBlockCount := int n\<rparr>"
  using assms
proof (induction n)
  case (Suc n)
  have n: "int n \<le> 1048576" using Suc.prems by simp
  have "s32 ((if n < 3 then 100 else 80) - 10 * int n - 10) = (if n < 3 then 100 else 80) - 10 * int n - 10"
    "s32 (int n + 1) = int n + 1" "s32 (100 - 10 * int n - 30) = 100 - 10 * int n - 30"
    using n by (auto intro!: s32_id)
  with Suc show ?case
    by (auto simp: penalize_info_def new_peer_info_def Let_def PENALTY_INVALID_BLOCK_def
        PENALTY_RAPID_MISBEHAVIOR_def BAN_THRESHOLD_def)
qed (simp add: new_peer_info_def INITIAL_SCORE_def)

lemma rewarded_banned:
  assumes "banned p" "score p = 0" "m \<le> 200"
  shows "(reward_info REWARD_VALID_BLOCK ^^ m) p =
    p\<lparr>score := int m, banned := m \<le> 20,
      invalidBlockCount := (if m \<le> 20 then invalidBlockCount p else 0)\<rparr>"
  using assms(3)
proof (induction m)
  case (Suc m)
  have "s32 (int m + 1) = int m + 1" using Suc.prems by (intro s32_id) simp_all
  with Suc assms show ?case
    by (auto simp: reward_info_def Let_def REWARD_VALID_BLOCK_def BAN_THRESHOLD_def)
qed (use assms in simp)


section \<open>Properties\<close>

text \<open>
  C35. In every state the scorer can reach, a peer's score is at most 200, a peer that is not
  banned has a positive score, a banned one has not recovered above 20, the peers are stored
  in key order, and only peers that are not banned and score above 20 are shared with others.
\<close>

theorem scorer_invariant:
  assumes "scorer_reachable s"
  shows "sm_ordered s \<and>
    (\<forall>p. sm_get s k = Some p \<longrightarrow> score p \<le> 200 \<and> (if isBanned k s then score p \<le> 20 else 0 < score p)) \<and>
    (k \<in> set (getShareablePeers s) \<longrightarrow> \<not> isBanned k s \<and> 20 < getScore k s)"
proof -
  have ok: "scorer_ok s" using assms by (rule scorer_reachable_ok)
  then have "distinct (map fst s)" by (auto simp: scorer_ok_def intro: sm_ordered_distinct)
  then have get: "sm_get s k = Some p \<longleftrightarrow> (k, p) \<in> set s" for k p by (simp add: sm_get_def)
  have "score p \<le> 200 \<and> (if isBanned k s then score p \<le> 20 else 0 < score p)" if "sm_get s k = Some p" for p
  proof -
    have "(k, p) \<in> set s" using that by (simp add: get)
    then have "peer_ok p" using ok unfolding scorer_ok_def by force
    with that show ?thesis by (auto simp: peer_ok_def isBanned_def)
  qed
  moreover have "\<not> isBanned k s \<and> 20 < getScore k s" if kp: "k \<in> set (getShareablePeers s)"
  proof -
    obtain p where "(k, p) \<in> set s" "\<not> banned p" "20 < score p"
      using kp by (auto simp: getShareablePeers_def)
    then show ?thesis by (simp add: isBanned_def getScore_def flip: get)
  qed
  ultimately show ?thesis using ok by (simp add: scorer_ok_def)
qed

theorem scorer_invariant_witness:
  "let s = addPeer 0 ''h'' 8333 [] in scorer_reachable s \<and> sm_ordered s \<and> \<not> isBanned ''h:8333'' s"
proof -
  have r: "scorer_reachable (addPeer 0 ''h'' 8333 [])"
    by (rule scorer_reachable.step[OF scorer_reachable.empty scorer_step.add])
  then show ?thesis
    using scorer_invariant[OF r, of "''h:8333''"]
    by (auto simp: isBanned_def addPeer_def new_peer_info_def sm_get_def Let_def)
qed

text \<open>
  A newly added peer that sends only invalid blocks is banned by exactly the eighth (the
  third costs 20 points extra), and it takes 21 rewards after that to lift the ban.
\<close>

theorem banned_by_eighth_invalid_block:
  assumes "sm_get s k = None" "k = peer_key host port" "n \<le> 2 ^ 20" "m \<le> 200"
  shows "(isBanned k (invalid_blocks n k (addPeer now host port s)) \<longleftrightarrow> 8 \<le> n) \<and>
    (isBanned k (valid_blocks m k (invalid_blocks 8 k (addPeer now host port s))) \<longleftrightarrow> m \<le> 20)"
proof -
  have g: "sm_get (addPeer now host port s) k = Some (new_peer_info now host port)"
    using assms(1,2) by (simp add: addPeer_def Let_def sm_get_put)
  have b: "isBanned k (invalid_blocks n k (addPeer now host port s)) \<longleftrightarrow> 8 \<le> n" if "n \<le> 2 ^ 20" for n
    using that by (simp add: isBanned_def get_invalid_blocks g penalized_fresh)
  have "isBanned k (valid_blocks m k (invalid_blocks 8 k (addPeer now host port s))) \<longleftrightarrow> m \<le> 20"
    using assms(4) by (simp add: isBanned_def get_valid_blocks get_invalid_blocks g penalized_fresh rewarded_banned)
  with b[OF assms(3)] show ?thesis by blast
qed

theorem banned_by_eighth_invalid_block_witness:
  "isBanned (peer_key ''h'' 1) (invalid_blocks 8 (peer_key ''h'' 1) (addPeer 0 ''h'' 1 [])) \<and>
   \<not> isBanned (peer_key ''h'' 1) (invalid_blocks 7 (peer_key ''h'' 1) (addPeer 0 ''h'' 1 []))"
  using banned_by_eighth_invalid_block[of "[]" "peer_key ''h'' 1" "''h''" 1 8 0 0]
    banned_by_eighth_invalid_block[of "[]" "peer_key ''h'' 1" "''h''" 1 7 0 0]
  by (simp add: sm_get_def)

end
