(* ===== verification/Peer_Manager.thy ===== *)
theory Peer_Manager
  imports Number_Input Ordered_Map "HOL-Library.Multiset"
begin

text \<open>
  \<^verbatim>\<open>include/network/peer_manager.h\<close>, \<^verbatim>\<open>src/network/peer_manager.cpp\<close>: the known endpoints, the
  dial attempts and the quarantine, and the endpoint syntax. Of the two unordered maps one
  is only looked up; the order in which the other is counted does not matter, so it is kept as an
  ordered one. \<^verbatim>\<open>std::shuffle\<close> is a function argument.
  Times are nanoseconds of the steady clock.
\<close>

section \<open>Data and operations\<close>

record PeerManager =
  knownPeers :: "string list"
  lastDialAttempt :: "string \<rightharpoonup> int"
  quarantinedUntil :: "int smap"

definition new_peer_manager :: PeerManager where
  "new_peer_manager = \<lparr>knownPeers = [], lastDialAttempt = Map.empty, quarantinedUntil = []\<rparr>"

definition addKnownPeer :: "string \<Rightarrow> PeerManager \<Rightarrow> PeerManager" where
  "addKnownPeer endpoint pm =
     (if endpoint = [] then pm
      else if endpoint \<notin> set (knownPeers pm) then pm\<lparr>knownPeers := knownPeers pm @ [endpoint]\<rparr>
      else pm)"

fun mergeKnownPeers :: "string list \<Rightarrow> PeerManager \<Rightarrow> PeerManager" where
  "mergeKnownPeers [] pm = pm"
| "mergeKnownPeers (peer # peers) pm =
     (if peer = [] then mergeKnownPeers peers pm
      else if peer \<notin> set (knownPeers pm)
      then mergeKnownPeers peers (pm\<lparr>knownPeers := knownPeers pm @ [peer]\<rparr>)
      else mergeKnownPeers peers pm)"

definition hasPeer :: "string \<Rightarrow> PeerManager \<Rightarrow> bool" where
  "hasPeer endpoint pm \<longleftrightarrow> endpoint \<in> set (knownPeers pm)"

definition isQuarantined :: "int \<Rightarrow> string \<Rightarrow> PeerManager \<Rightarrow> bool" where
  "isQuarantined now endpoint pm =
     (case sm_get (quarantinedUntil pm) endpoint of None \<Rightarrow> False | Some t \<Rightarrow> now < t)"

definition getRandomPeers ::
  "(string list \<Rightarrow> string list) \<Rightarrow> int \<Rightarrow> nat \<Rightarrow> string list \<Rightarrow> PeerManager \<Rightarrow> string list" where
  "getRandomPeers shuffle now maxCount exclude pm =
     (let candidates = filter (\<lambda>peer. peer \<notin> set exclude \<and> \<not> isQuarantined now peer pm) (knownPeers pm);
          shuffled = shuffle candidates
      in if length shuffled > maxCount then take maxCount shuffled else shuffled)"

text \<open>\<^verbatim>\<open>duration_cast\<close> to milliseconds truncates towards zero.\<close>

definition to_ms :: "int \<Rightarrow> int" where
  "to_ms d = (if d < 0 then - (- d div 1000000) else d div 1000000)"

definition shouldAttemptConnection :: "int \<Rightarrow> string \<Rightarrow> int \<Rightarrow> PeerManager \<Rightarrow> bool" where
  "shouldAttemptConnection now endpoint cooldownMs pm =
     (if isQuarantined now endpoint pm then False
      else case lastDialAttempt pm endpoint of
             None \<Rightarrow> True
           | Some t \<Rightarrow> to_ms (now - t) \<ge> cooldownMs)"

definition markDialAttempt :: "int \<Rightarrow> string \<Rightarrow> PeerManager \<Rightarrow> PeerManager" where
  "markDialAttempt now endpoint pm = pm\<lparr>lastDialAttempt := (lastDialAttempt pm)(endpoint \<mapsto> now)\<rparr>"

definition quarantinePeer :: "int \<Rightarrow> string \<Rightarrow> int \<Rightarrow> PeerManager \<Rightarrow> PeerManager" where
  "quarantinePeer now endpoint quarantineSeconds pm =
     pm\<lparr>quarantinedUntil := sm_put endpoint (now + quarantineSeconds * 1000000000) (quarantinedUntil pm)\<rparr>"

definition quarantinedPeerCount :: "int \<Rightarrow> PeerManager \<Rightarrow> nat" where
  "quarantinedPeerCount now pm = length (filter (\<lambda>kv. now < snd kv) (quarantinedUntil pm))"

text \<open>
  \<^const>\<open>None\<close> stands for the result \<^verbatim>\<open>false\<close>; the cast to \<^verbatim>\<open>uint16_t\<close> keeps the low 16 bits.
\<close>

definition parseEndpoint :: "string \<Rightarrow> (string \<times> u16) option" where
  "parseEndpoint endpoint =
     (case str_rfind CHR '':'' endpoint of
        None \<Rightarrow> None
      | Some split \<Rightarrow>
          if split = 0 then None
          else let host = take split endpoint
               in case stoi (drop (split + 1) endpoint) of
                    Inl e \<Rightarrow> None
                  | Inr v \<Rightarrow> let port = word_of_int v in if port > 0 then Some (host, port) else None)"


section \<open>Known endpoints\<close>

definition peers_ok :: "PeerManager \<Rightarrow> bool" where
  "peers_ok pm \<longleftrightarrow> distinct (knownPeers pm) \<and> [] \<notin> set (knownPeers pm)"

lemma addKnownPeer_ok [inv_intros]: "peers_ok pm \<Longrightarrow> peers_ok (addKnownPeer e pm)"
  by (auto simp: peers_ok_def addKnownPeer_def)

lemma mergeKnownPeers_add: "mergeKnownPeers ps pm = fold addKnownPeer ps pm"
  by (induction ps pm rule: mergeKnownPeers.induct) (auto simp: addKnownPeer_def)

lemma mergeKnownPeers_ok [inv_intros]: "peers_ok pm \<Longrightarrow> peers_ok (mergeKnownPeers ps pm)"
  unfolding mergeKnownPeers_add by (induction ps arbitrary: pm) (auto intro: addKnownPeer_ok)

lemma other_ok [inv_intros]:
  "peers_ok pm \<Longrightarrow> peers_ok (markDialAttempt now e pm)"
  "peers_ok pm \<Longrightarrow> peers_ok (quarantinePeer now e s pm)"
  by (simp_all add: peers_ok_def markDialAttempt_def quarantinePeer_def)

lemma set_addKnownPeer: "set (knownPeers (addKnownPeer e pm)) = set (knownPeers pm) \<union> ({e} - {[]})"
  by (auto simp: addKnownPeer_def)

lemma set_mergeKnownPeers: "set (knownPeers (mergeKnownPeers ps pm)) = set (knownPeers pm) \<union> (set ps - {[]})"
  unfolding mergeKnownPeers_add by (induction ps arbitrary: pm) (auto simp: set_addKnownPeer)

inductive pm_step :: "PeerManager \<Rightarrow> PeerManager \<Rightarrow> bool" where
  add: "pm_step pm (addKnownPeer e pm)"
| merge: "pm_step pm (mergeKnownPeers es pm)"
| dial: "pm_step pm (markDialAttempt now e pm)"
| quarantine: "pm_step pm (quarantinePeer now e secs pm)"

inductive pm_reachable :: "PeerManager \<Rightarrow> bool" where
  start: "pm_reachable new_peer_manager"
| step: "pm_reachable pm \<Longrightarrow> pm_step pm pm' \<Longrightarrow> pm_reachable pm'"

lemma pm_step_ok: "pm_step pm pm' \<Longrightarrow> peers_ok pm \<Longrightarrow> peers_ok pm'"
  by (erule pm_step.cases) (auto intro: inv_intros)

lemma pm_reachable_ok: "pm_reachable pm \<Longrightarrow> peers_ok pm"
  by (induction rule: pm_reachable.induct)
    (simp add: peers_ok_def new_peer_manager_def, blast intro: pm_step_ok)


section \<open>The endpoint syntax\<close>

lemma colon_not_digit: "\<not> is_digit CHR '':''"
  by (simp add: is_digit_iff)

lemma parseEndpoint_roundtrip:
  assumes "host \<noteq> []" "port \<noteq> 0"
  shows "parseEndpoint (host @ '':'' @ to_string port) = Some (host, port)"
proof -
  have "str_rfind CHR '':'' (host @ CHR '':'' # to_string port) = Some (length host)"
    by (rule str_rfind_append) (simp add: digit_not_in_to_string colon_not_digit)
  then show ?thesis
    using assms by (simp add: parseEndpoint_def stoi_to_string word_neq_0_conv)
qed


lemma parseEndpoint_wraps:
  assumes "host \<noteq> []" "n < 2 ^ 31" "of_nat n \<noteq> (0 :: u16)"
  shows "parseEndpoint (host @ '':'' @ dec n) = Some (host, of_nat n)"
proof -
  have "str_rfind CHR '':'' (host @ CHR '':'' # dec n) = Some (length host)"
    by (rule str_rfind_append) (simp add: digit_not_in_dec colon_not_digit)
  moreover have "stoi (dec n) = Inr (int n)" using stoi_dec[of n "[]"] assms(2) by simp
  ultimately show ?thesis
    using assms by (simp add: parseEndpoint_def word_neq_0_conv)
qed


section \<open>Properties\<close>

text \<open>
  The peers handed out for gossip are known endpoints without repetition, none of them
  empty, excluded by the caller or quarantined now, and their number is the smaller of the
  requested count and the number of eligible endpoints, whatever permutation the shuffle makes.
\<close>

theorem getRandomPeers_eligible:
  assumes "pm_reachable pm" "\<And>xs. mset (shuffle xs) = mset xs"
  shows "let eligible = {e \<in> set (knownPeers pm). e \<notin> set exclude \<and> \<not> isQuarantined now e pm};
      r = getRandomPeers shuffle now maxCount exclude pm
    in distinct r \<and> set r \<subseteq> eligible \<and> [] \<notin> set r \<and> length r = min maxCount (card eligible)"
proof -
  define cs where "cs = filter (\<lambda>e. e \<notin> set exclude \<and> \<not> isQuarantined now e pm) (knownPeers pm)"
  have ok: "distinct (knownPeers pm)" "[] \<notin> set (knownPeers pm)"
    using pm_reachable_ok[OF assms(1)] by (simp_all add: peers_ok_def)
  have "distinct cs" "[] \<notin> set cs" using ok by (simp_all add: cs_def)
  then have sh: "distinct (shuffle cs)" "set (shuffle cs) = set cs" "length (shuffle cs) = card (set cs)"
    using assms(2)[of cs] mset_eq_setD[of "shuffle cs" cs] mset_eq_length[of "shuffle cs" cs]
      mset_eq_imp_distinct_iff[of "shuffle cs" cs] by (simp_all add: distinct_card)
  have r: "getRandomPeers shuffle now maxCount exclude pm = take maxCount (shuffle cs)"
    by (simp add: getRandomPeers_def cs_def[symmetric] Let_def)
  have e: "{e \<in> set (knownPeers pm). e \<notin> set exclude \<and> \<not> isQuarantined now e pm} = set cs"
    by (auto simp: cs_def)
  show ?thesis
    unfolding Let_def r e
    using sh \<open>[] \<notin> set cs\<close> by (auto simp: min_def dest: in_set_takeD)
qed

theorem getRandomPeers_eligible_witness:
  "let pm = mergeKnownPeers [''a'', ''b'', ''a'', []] new_peer_manager
   in set (getRandomPeers rev 0 1 [''a''] pm) \<subseteq> {e \<in> set (knownPeers pm). e \<noteq> ''a''}"
proof -
  have r: "pm_reachable (mergeKnownPeers [''a'', ''b'', ''a'', []] new_peer_manager)"
    by (rule pm_reachable.step[OF pm_reachable.start pm_step.merge])
  show ?thesis
    using getRandomPeers_eligible[OF r, of rev "[''a'']" 0 1] by (auto simp: Let_def)
qed

text \<open>
  An endpoint written as host, colon and port is parsed back to the same host and port,
  also when the host contains colons itself; a port number beyond 16 bits is not refused but
  cut down to its low 16 bits.
\<close>

theorem parseEndpoint_exact:
  assumes "host \<noteq> []"
  shows "(port \<noteq> 0 \<longrightarrow> parseEndpoint (host @ '':'' @ to_string port) = Some (host, port)) \<and>
    (n < 2 ^ 31 \<longrightarrow> of_nat n \<noteq> (0 :: u16) \<longrightarrow> parseEndpoint (host @ '':'' @ dec n) = Some (host, of_nat n))"
  using parseEndpoint_roundtrip[OF assms] parseEndpoint_wraps[OF assms] by blast

theorem parseEndpoint_exact_witness:
  "parseEndpoint (''::1'' @ '':'' @ to_string (8333 :: u16)) = Some (''::1'', 8333) \<and>
   parseEndpoint (''h'' @ '':'' @ dec 70000) = Some (''h'', 4464)"
  using parseEndpoint_exact[of "''::1''" 8333 0] parseEndpoint_exact[of "''h''" 1 70000] by simp

end
