(* ===== verification/Connections.thy ===== *)
theory Connections
  imports Json "HOL-Library.Multiset"
begin

text \<open>
  The small managers of the network layer: connection slots
  (\<^verbatim>\<open>src/network/connection_manager.cpp\<close>), bootstrap and topology endpoints
  (\<^verbatim>\<open>src/network/bootstrap_manager.cpp\<close>) and counters (\<^verbatim>\<open>src/network/network_metrics.cpp\<close>).
\<close>

section \<open>Connection slots\<close>

datatype ConnectionDirection = INBOUND | OUTBOUND

text \<open>
  The unordered map is only counted and looked up, so the order of its entries does not matter.
\<close>

record ConnectionManager =
  slots :: "ConnectionDirection smap"
  maxOutboundPeers :: nat
  maxInboundPeers :: nat

definition new_connection_manager :: "nat \<Rightarrow> nat \<Rightarrow> ConnectionManager" where
  "new_connection_manager outbound inbound =
     \<lparr>slots = [], maxOutboundPeers = outbound, maxInboundPeers = inbound\<rparr>"

definition inboundCount :: "ConnectionManager \<Rightarrow> nat" where
  "inboundCount cm = length (filter (\<lambda>entry. snd entry = INBOUND) (slots cm))"

definition outboundCount :: "ConnectionManager \<Rightarrow> nat" where
  "outboundCount cm = length (filter (\<lambda>entry. snd entry = OUTBOUND) (slots cm))"

definition totalCount :: "ConnectionManager \<Rightarrow> nat" where
  "totalCount cm = length (slots cm)"

fun count_directions :: "(string \<times> ConnectionDirection) list \<Rightarrow> nat \<Rightarrow> nat \<Rightarrow> nat \<times> nat" where
  "count_directions [] inbound outbound = (inbound, outbound)"
| "count_directions (entry # es) inbound outbound =
     (if snd entry = INBOUND then count_directions es (inbound + 1) outbound
      else count_directions es inbound (outbound + 1))"

definition canAccept :: "ConnectionDirection \<Rightarrow> ConnectionManager \<Rightarrow> bool" where
  "canAccept direction cm =
     (let (inbound, outbound) = count_directions (slots cm) 0 0
      in if direction = INBOUND then inbound < maxInboundPeers cm else outbound < maxOutboundPeers cm)"

definition registerConnection :: "string \<Rightarrow> ConnectionDirection \<Rightarrow> ConnectionManager \<Rightarrow> ConnectionManager" where
  "registerConnection endpoint direction cm = cm\<lparr>slots := sm_put endpoint direction (slots cm)\<rparr>"

definition unregisterConnection :: "string \<Rightarrow> ConnectionManager \<Rightarrow> ConnectionManager" where
  "unregisterConnection endpoint cm = cm\<lparr>slots := sm_erase endpoint (slots cm)\<rparr>"

text \<open>\<^verbatim>\<open>std::min_element\<close> returns the first of several smallest elements.\<close>

fun first_minimum :: "string \<times> int \<Rightarrow> (string \<times> int) list \<Rightarrow> string \<times> int" where
  "first_minimum best [] = best"
| "first_minimum best (x # xs) = first_minimum (if snd x < snd best then x else best) xs"

definition selectLowestScorePeerToDrop :: "(string \<times> int) list \<Rightarrow> string" where
  "selectLowestScorePeerToDrop scores =
     (case scores of [] \<Rightarrow> [] | x # xs \<Rightarrow> fst (first_minimum x xs))"

lemma count_directions_eq:
  "count_directions es i k =
     (i + length (filter (\<lambda>e. snd e = INBOUND) es), k + length (filter (\<lambda>e. snd e = OUTBOUND) es))"
proof (induction es i k rule: count_directions.induct)
  case (2 e es i k)
  then show ?case by (cases "snd e") auto
qed simp

lemma canAccept_iff:
  "canAccept INBOUND cm \<longleftrightarrow> inboundCount cm < maxInboundPeers cm"
  "canAccept OUTBOUND cm \<longleftrightarrow> outboundCount cm < maxOutboundPeers cm"
  by (simp_all add: canAccept_def count_directions_eq inboundCount_def outboundCount_def)

lemma totalCount_eq: "totalCount cm = inboundCount cm + outboundCount cm"
proof -
  have "length es = length (filter (\<lambda>e. snd e = INBOUND) es) + length (filter (\<lambda>e. snd e = OUTBOUND) es)"
    for es :: "(string \<times> ConnectionDirection) list"
  proof (induction es)
    case (Cons e es)
    then show ?case by (cases "snd e") simp_all
  qed simp
  from this[of "slots cm"] show ?thesis by (simp only: totalCount_def inboundCount_def outboundCount_def)
qed

lemma first_minimum_in: "first_minimum b xs \<in> insert b (set xs)"
  by (induction b xs rule: first_minimum.induct) (auto split: if_splits)

lemma first_minimum_le:
  "snd (first_minimum b xs) \<le> snd b \<and> (\<forall>x \<in> set xs. snd (first_minimum b xs) \<le> snd x)"
proof (induction b xs rule: first_minimum.induct)
  case (2 best x xs)
  then show ?case by (cases "snd x < snd best") auto
qed simp

lemma selectLowestScorePeerToDrop_minimal:
  assumes "scores \<noteq> []"
  shows "\<exists>s. (selectLowestScorePeerToDrop scores, s) \<in> set scores \<and> (\<forall>x \<in> set scores. s \<le> snd x)"
proof -
  obtain x xs where [simp]: "scores = x # xs" using assms by (cases scores) auto
  obtain e s where es: "first_minimum x xs = (e, s)" by (cases "first_minimum x xs")
  show ?thesis
    using first_minimum_in[of x xs] first_minimum_le[of x xs]
    by (auto simp: selectLowestScorePeerToDrop_def es)
qed


section \<open>Bootstrap and topology endpoints\<close>

text \<open>
  The set \<^verbatim>\<open>topologyPeers_\<close> is a list without repetition; the order in which the unordered
  set is iterated is the argument \<open>order\<close>.
\<close>

record BootstrapManager =
  bootstrapPeers :: "string list"
  topologyPeers :: "string list"

definition new_bootstrap_manager :: BootstrapManager where
  "new_bootstrap_manager = \<lparr>bootstrapPeers = [], topologyPeers = []\<rparr>"

fun add_bootstrap_peers :: "string list \<Rightarrow> BootstrapManager \<Rightarrow> BootstrapManager" where
  "add_bootstrap_peers [] bm = bm"
| "add_bootstrap_peers (peer # peers) bm =
     (if peer = [] then add_bootstrap_peers peers bm
      else let bm1 = (if peer \<in> set (bootstrapPeers bm) then bm
                      else bm\<lparr>bootstrapPeers := bootstrapPeers bm @ [peer]\<rparr>)
           in add_bootstrap_peers peers (bm1\<lparr>topologyPeers := List.insert peer (topologyPeers bm1)\<rparr>))"

definition setBootstrapPeers :: "string list \<Rightarrow> BootstrapManager \<Rightarrow> BootstrapManager" where
  "setBootstrapPeers peers bm = add_bootstrap_peers peers (bm\<lparr>bootstrapPeers := [], topologyPeers := []\<rparr>)"

definition registerPeer :: "string \<Rightarrow> BootstrapManager \<Rightarrow> BootstrapManager" where
  "registerPeer endpoint bm =
     (if endpoint = [] then bm else bm\<lparr>topologyPeers := List.insert endpoint (topologyPeers bm)\<rparr>)"

definition knownTopology :: "(string list \<Rightarrow> string list) \<Rightarrow> nat \<Rightarrow> BootstrapManager \<Rightarrow> string list" where
  "knownTopology order maxCount bm =
     (let peers = order (topologyPeers bm) in if length peers > maxCount then take maxCount peers else peers)"

definition topology_ok :: "BootstrapManager \<Rightarrow> bool" where
  "topology_ok bm \<longleftrightarrow> distinct (bootstrapPeers bm) \<and> distinct (topologyPeers bm) \<and>
     [] \<notin> set (topologyPeers bm) \<and> set (bootstrapPeers bm) \<subseteq> set (topologyPeers bm)"

lemma add_bootstrap_peers_ok: "topology_ok bm \<Longrightarrow> topology_ok (add_bootstrap_peers peers bm)"
proof (induction peers bm rule: add_bootstrap_peers.induct)
  case (2 peer peers bm)
  show ?case
  proof (cases "peer = []")
    case False
    let ?bm1 = "if peer \<in> set (bootstrapPeers bm) then bm else bm\<lparr>bootstrapPeers := bootstrapPeers bm @ [peer]\<rparr>"
    have "topology_ok (?bm1\<lparr>topologyPeers := List.insert peer (topologyPeers ?bm1)\<rparr>)"
      using 2(3) False by (auto simp: topology_ok_def)
    with 2(2)[OF False refl] False show ?thesis by (simp only: add_bootstrap_peers.simps Let_def if_False)
  qed (use 2 in simp)
qed simp

lemma setBootstrapPeers_ok [inv_intros]: "topology_ok (setBootstrapPeers peers bm)"
  unfolding setBootstrapPeers_def by (intro add_bootstrap_peers_ok) (simp add: topology_ok_def)

lemma registerPeer_ok [inv_intros]: "topology_ok bm \<Longrightarrow> topology_ok (registerPeer e bm)"
  by (auto simp: topology_ok_def registerPeer_def)

lemma knownTopology_bounds:
  assumes "topology_ok bm" "mset (order (topologyPeers bm)) = mset (topologyPeers bm)"
  shows "length (knownTopology order n bm) = min n (length (topologyPeers bm))"
    "set (knownTopology order n bm) \<subseteq> set (topologyPeers bm)" "distinct (knownTopology order n bm)"
proof -
  have "length (order (topologyPeers bm)) = length (topologyPeers bm)"
    "set (order (topologyPeers bm)) = set (topologyPeers bm)" "distinct (order (topologyPeers bm))"
    using assms mset_eq_length[OF assms(2)] mset_eq_setD[OF assms(2)] mset_eq_imp_distinct_iff[OF assms(2)]
    by (auto simp: topology_ok_def)
  then show "length (knownTopology order n bm) = min n (length (topologyPeers bm))"
    "set (knownTopology order n bm) \<subseteq> set (topologyPeers bm)" "distinct (knownTopology order n bm)"
    by (auto simp: knownTopology_def Let_def dest: in_set_takeD)
qed


section \<open>Counters\<close>

record NetworkMetrics =
  startedAt :: int
  connectedPeers :: u64
  nm_knownPeers :: u64
  rejectedPeers :: u64
  bannedPeers :: u64

definition new_network_metrics :: "int \<Rightarrow> NetworkMetrics" where
  "new_network_metrics now =
     \<lparr>startedAt = now, connectedPeers = 0, nm_knownPeers = 0, rejectedPeers = 0, bannedPeers = 0\<rparr>"

definition setConnectedPeers :: "u64 \<Rightarrow> NetworkMetrics \<Rightarrow> NetworkMetrics" where
  "setConnectedPeers n nm = nm\<lparr>connectedPeers := n\<rparr>"

definition setKnownPeers :: "u64 \<Rightarrow> NetworkMetrics \<Rightarrow> NetworkMetrics" where
  "setKnownPeers n nm = nm\<lparr>nm_knownPeers := n\<rparr>"

definition setBannedPeers :: "u64 \<Rightarrow> NetworkMetrics \<Rightarrow> NetworkMetrics" where
  "setBannedPeers n nm = nm\<lparr>bannedPeers := n\<rparr>"

definition incrementRejectedPeers :: "NetworkMetrics \<Rightarrow> NetworkMetrics" where
  "incrementRejectedPeers nm = nm\<lparr>rejectedPeers := rejectedPeers nm + 1\<rparr>"

text \<open>\<^verbatim>\<open>duration_cast\<close> to seconds truncates; the steady clock does not go back.\<close>

definition metrics_toJson :: "int \<Rightarrow> NetworkMetrics \<Rightarrow> json" where
  "metrics_toJson now nm =
     jobj [(''connectedPeers'', JUInt (connectedPeers nm)),
           (''knownPeers'', JUInt (nm_knownPeers nm)),
           (''rejectedPeers'', JUInt (rejectedPeers nm)),
           (''bannedPeers'', JUInt (bannedPeers nm)),
           (''networkUptimeSeconds'', JInt ((now - startedAt nm) div 1000000000))]"

end
