(* ===== verification/Crypto.thy ===== *)
theory Crypto
  imports Prelude
begin

text \<open>
  \<^verbatim>\<open>src/crypto/sha256.cpp\<close>, \<^verbatim>\<open>src/crypto/ecdsa.cpp\<close>: the hexadecimal codec and the wrappers
  around OpenSSL. OpenSSL itself is the parameter \<open>openssl\<close>; a curve point is its affine
  coordinates (\<^const>\<open>None\<close> for the point at infinity), an ECDSA signature the pair of its two
  integers, a BIGNUM an integer. The documented laws of OpenSSL that a property needs are the
  predicates \<open>digest_ok\<close> and \<open>ecdsa_ok\<close>.
\<close>

section \<open>The OpenSSL parameter\<close>

type_synonym ec_point = "(int \<times> int) option"
type_synonym ecdsa_sig = "int \<times> int"

record openssl =
  evp_sha256 :: "byte list \<Rightarrow> byte list"
  bn_hex2bn :: "string \<Rightarrow> int option"
  bn_bn2hex :: "int \<Rightarrow> string"
  ec_key_set_private_key :: "int \<Rightarrow> bool"
  ec_point_mul :: "int \<Rightarrow> ec_point option"
  ec_key_set_public_key :: "ec_point \<Rightarrow> bool"
  ec_point_point2hex :: "ec_point \<Rightarrow> string option"
  ec_point_hex2point :: "string \<Rightarrow> ec_point option"
  ecdsa_do_sign :: "byte list \<Rightarrow> int \<Rightarrow> ecdsa_sig option"
  ecdsa_do_verify :: "byte list \<Rightarrow> ecdsa_sig \<Rightarrow> ec_point \<Rightarrow> int"
  i2d_ecdsa_sig :: "ecdsa_sig \<Rightarrow> byte list"
  d2i_ecdsa_sig :: "byte list \<Rightarrow> ecdsa_sig option"

text \<open>A SHA-256 digest has 32 bytes.\<close>

definition digest_ok :: "openssl \<Rightarrow> bool" where
  "digest_ok ossl \<longleftrightarrow> (\<forall>bs. length (evp_sha256 ossl bs) = 32)"

text \<open>
  The signature scheme and its encodings: a DER encoding is decoded to the signature it
  encodes, a hexadecimal point (in either letter case) to the point it encodes, and a
  signature made with a private key verifies under the point that key generates.
\<close>

definition ecdsa_ok :: "openssl \<Rightarrow> bool" where
  "ecdsa_ok ossl \<longleftrightarrow>
     (\<forall>sg. i2d_ecdsa_sig ossl sg \<noteq> [] \<longrightarrow> d2i_ecdsa_sig ossl (i2d_ecdsa_sig ossl sg) = Some sg) \<and>
     (\<forall>pt h. ec_point_point2hex ossl pt = Some h \<longrightarrow>
        ec_point_hex2point ossl (map to_lower h) = Some pt) \<and>
     (\<forall>h k pt sg. ec_point_mul ossl k = Some pt \<longrightarrow> ecdsa_do_sign ossl h k = Some sg \<longrightarrow>
        ecdsa_do_verify ossl h sg pt = 1)"


lemma ecdsa_okD:
  assumes "ecdsa_ok ossl"
  shows "i2d_ecdsa_sig ossl sg \<noteq> [] \<Longrightarrow> d2i_ecdsa_sig ossl (i2d_ecdsa_sig ossl sg) = Some sg"
    and "ec_point_point2hex ossl pt = Some hx \<Longrightarrow> ec_point_hex2point ossl (map to_lower hx) = Some pt"
    and "ec_point_mul ossl k = Some pt \<Longrightarrow> ecdsa_do_sign ossl h k = Some sg \<Longrightarrow>
      ecdsa_do_verify ossl h sg pt = 1"
  using assms unfolding ecdsa_ok_def by blast+


section \<open>Hexadecimal codec\<close>

definition hex_digit :: "nat \<Rightarrow> char" where
  "hex_digit d = (if d < 10 then char_of (48 + d) else char_of (87 + d))"

definition hex_byte :: "byte \<Rightarrow> string" where
  "hex_byte b = [hex_digit (unat b div 16), hex_digit (unat b mod 16)]"

definition bytesToHex :: "byte list \<Rightarrow> string" where
  "bytesToHex bs = concat (map hex_byte bs)"

definition hex_val :: "char \<Rightarrow> nat option" where
  "hex_val c =
     (let n = of_char c :: nat in
      if 48 \<le> n \<and> n \<le> 57 then Some (n - 48)
      else if 97 \<le> n \<and> n \<le> 102 then Some (n - 87)
      else if 65 \<le> n \<and> n \<le> 70 then Some (n - 55)
      else None)"

text \<open>
  \<^verbatim>\<open>ss << std::hex << s; ss >> byte\<close> for a string of two characters, then the cast to
  \<^verbatim>\<open>unsigned char\<close>. Leading white space is skipped, one sign is accepted (a minus sign negates
  modulo $2^{32}$), reading stops at the first character that is not a hexadecimal digit, and
  a failed conversion stores 0. On white space alone nothing is stored and the variable stays
  indeterminate.
\<close>

definition scan_byte :: "char \<Rightarrow> char \<Rightarrow> byte result" where
  "scan_byte a b =
     (if is_space a then
        (if is_space b then Inl UndefinedCast
         else Inr (case hex_val b of Some d \<Rightarrow> of_nat d | None \<Rightarrow> 0))
      else if a = CHR ''+'' then Inr (case hex_val b of Some d \<Rightarrow> of_nat d | None \<Rightarrow> 0)
      else if a = CHR ''-'' then Inr (case hex_val b of Some d \<Rightarrow> - of_nat d | None \<Rightarrow> 0)
      else (case hex_val a of
              None \<Rightarrow> Inr 0
            | Some h \<Rightarrow> (case hex_val b of
                          None \<Rightarrow> Inr (of_nat h)
                        | Some l \<Rightarrow> Inr (of_nat (16 * h + l)))))"

fun hex_pairs :: "string \<Rightarrow> byte list result" where
  "hex_pairs (a # b # cs) = ebind (scan_byte a b) (\<lambda>x. ebind (hex_pairs cs) (\<lambda>xs. Inr (x # xs)))"
| "hex_pairs _ = Inr []"

definition hexToBytes :: "string \<Rightarrow> byte list result" where
  "hexToBytes hex =
     (if odd (length hex) then Inl (InvalidArgument ''Hex string must have even length'')
      else hex_pairs hex)"


section \<open>SHA-256\<close>

definition byte_of_char :: "char \<Rightarrow> byte" where
  "byte_of_char c = of_char c"

text \<open>The OpenSSL call of \<^verbatim>\<open>sha256\<close> that fails, if one does.\<close>

datatype evp_call = EVP_MD_CTX_new | EVP_DigestInit_ex | EVP_DigestUpdate | EVP_DigestFinal_ex

definition sha256_call :: "openssl \<Rightarrow> evp_call option \<Rightarrow> string \<Rightarrow> string result" where
  "sha256_call ossl failing data =
     (case failing of
        Some EVP_MD_CTX_new \<Rightarrow> Inl (RuntimeError ''Failed to create EVP_MD_CTX'')
      | Some EVP_DigestInit_ex \<Rightarrow> Inl (RuntimeError ''Failed to initialize SHA-256 digest'')
      | Some EVP_DigestUpdate \<Rightarrow> Inl (RuntimeError ''Failed to update SHA-256 digest'')
      | Some EVP_DigestFinal_ex \<Rightarrow> Inl (RuntimeError ''Failed to finalize SHA-256 digest'')
      | None \<Rightarrow> Inr (concat (map hex_byte (evp_sha256 ossl (map byte_of_char data)))))"

text \<open>
  The digest when no OpenSSL call runs out of resources; the rest of the model uses this
  total function.
\<close>

definition sha256 :: "openssl \<Rightarrow> string \<Rightarrow> string" where
  "sha256 ossl data = concat (map hex_byte (evp_sha256 ossl (map byte_of_char data)))"

definition doubleSha256 :: "openssl \<Rightarrow> string \<Rightarrow> string" where
  "doubleSha256 ossl data = sha256 ossl (sha256 ossl data)"


section \<open>ECDSA on secp256k1\<close>

record KeyPair =
  kp_privateKey :: string
  kp_publicKey :: string

text \<open>
  \<open>generated\<close> is what \<^verbatim>\<open>EC_KEY_generate_key\<close> produced, \<^const>\<open>None\<close> if it failed.
\<close>

definition generateKeyPair :: "openssl \<Rightarrow> (int \<times> ec_point) option \<Rightarrow> KeyPair result" where
  "generateKeyPair ossl generated =
     (case generated of
        None \<Rightarrow> Inl (RuntimeError ''Failed to generate EC key pair'')
      | Some (privBN, pubPoint) \<Rightarrow>
          (case ec_point_point2hex ossl pubPoint of
             None \<Rightarrow> Inl (RuntimeError ''Failed to convert public key to hex'')
           | Some pubHex \<Rightarrow>
               Inr \<lparr>kp_privateKey = map to_lower (bn_bn2hex ossl privBN),
                    kp_publicKey = map to_lower pubHex\<rparr>))"

definition sign :: "openssl \<Rightarrow> string \<Rightarrow> string \<Rightarrow> string result" where
  "sign ossl message privateKeyHex =
     ebind (hexToBytes (sha256 ossl message)) (\<lambda>hashBytes.
       case bn_hex2bn ossl privateKeyHex of
         None \<Rightarrow> Inl (RuntimeError ''Failed to parse private key hex'')
       | Some privBN \<Rightarrow>
           if \<not> ec_key_set_private_key ossl privBN
           then Inl (RuntimeError ''Failed to set private key'')
           else (case ec_point_mul ossl privBN of
             None \<Rightarrow> Inl (RuntimeError ''Failed to derive public key'')
           | Some pubPoint \<Rightarrow>
               if \<not> ec_key_set_public_key ossl pubPoint
               then Inl (RuntimeError ''Failed to set public key'')
               else (case ecdsa_do_sign ossl hashBytes privBN of
                 None \<Rightarrow> Inl (RuntimeError ''Failed to create ECDSA signature'')
               | Some sg \<Rightarrow>
                   (let derSig = i2d_ecdsa_sig ossl sg in
                    if derSig = [] then Inl (RuntimeError ''Failed to get DER length'')
                    else Inr (bytesToHex derSig)))))"

text \<open>Every exception inside \<^verbatim>\<open>verify\<close> is caught and turns into \<^verbatim>\<open>false\<close>.\<close>

definition verify :: "openssl \<Rightarrow> string \<Rightarrow> string \<Rightarrow> string \<Rightarrow> bool" where
  "verify ossl message signatureHex publicKeyHex =
     (case hexToBytes (sha256 ossl message) of
        Inl _ \<Rightarrow> False
      | Inr hashBytes \<Rightarrow>
          (case hexToBytes signatureHex of
             Inl _ \<Rightarrow> False
           | Inr sigBytes \<Rightarrow>
               (case d2i_ecdsa_sig ossl sigBytes of
                  None \<Rightarrow> False
                | Some sg \<Rightarrow>
                    (case ec_point_hex2point ossl publicKeyHex of
                       None \<Rightarrow> False
                     | Some pubPoint \<Rightarrow>
                         if \<not> ec_key_set_public_key ossl pubPoint then False
                         else ecdsa_do_verify ossl hashBytes sg pubPoint = 1))))"


section \<open>The codec is lossless\<close>

lemma unat_byte_less: "unat (b :: byte) < 256"
  using unsigned_less[of b] by simp

lemma of_char_hex_digit: "d < 16 \<Longrightarrow> of_char (hex_digit d) = (if d < 10 then 48 + d else 87 + d :: nat)"
  by (simp add: hex_digit_def of_char_of)

lemma hex_val_hex_digit [simp]: "d < 16 \<Longrightarrow> hex_val (hex_digit d) = Some d"
  by (auto simp: hex_val_def Let_def of_char_hex_digit)

lemma hex_digit_plain:
  assumes "d < 16"
  shows "\<not> is_space (hex_digit d)" "hex_digit d \<noteq> CHR ''+''" "hex_digit d \<noteq> CHR ''-''"
proof -
  have n: "(of_char (hex_digit d) :: nat) = (if d < 10 then 48 + d else 87 + d)"
    using assms by (rule of_char_hex_digit)
  show "\<not> is_space (hex_digit d)" using n assms by (auto simp: is_space_def)
  show "hex_digit d \<noteq> CHR ''+''" using n assms by (auto split: if_splits)
  show "hex_digit d \<noteq> CHR ''-''" using n assms by (auto split: if_splits)
qed

lemma is_xdigit_hex_digit: "d < 16 \<Longrightarrow> is_xdigit (hex_digit d)"
  by (auto simp: is_xdigit_def is_digit_iff less_eq_char_nat of_char_hex_digit)

lemma scan_hex_byte:
  "scan_byte (hex_digit (unat b div 16)) (hex_digit (unat b mod 16)) = Inr b"
proof -
  have hi: "unat b div 16 < 16" using unat_byte_less[of b] by simp
  have lo: "unat b mod 16 < 16" by simp
  have e: "16 * (unat b div 16) + unat b mod 16 = unat b" by simp
  have "(of_nat (16 * (unat b div 16) + unat b mod 16) :: byte) = b"
    unfolding e by simp
  then show ?thesis
    using hex_digit_plain[OF hi] hi lo by (simp add: scan_byte_def)
qed

lemma hex_pairs_bytesToHex: "hex_pairs (concat (map hex_byte bs)) = Inr bs"
  by (induction bs) (simp_all add: hex_byte_def scan_hex_byte)

lemma length_concat_hex: "length (concat (map hex_byte bs)) = 2 * length bs"
  by (induction bs) (simp_all add: hex_byte_def)

lemma hexToBytes_hex: "hexToBytes (concat (map hex_byte bs)) = Inr bs"
  by (simp add: hexToBytes_def length_concat_hex hex_pairs_bytesToHex)

lemma hexToBytes_sha256: "hexToBytes (sha256 ossl m) = Inr (evp_sha256 ossl (map byte_of_char m))"
  by (simp add: sha256_def hexToBytes_hex)

lemma sha256_call_None: "sha256_call ossl None data = Inr (sha256 ossl data)"
  by (simp add: sha256_call_def sha256_def)

lemma length_sha256: "digest_ok ossl \<Longrightarrow> length (sha256 ossl m) = 64"
  by (simp add: sha256_def length_concat_hex digest_ok_def)

lemma sha256_nonempty: "digest_ok ossl \<Longrightarrow> sha256 ossl m \<noteq> []"
  using length_sha256[of ossl m] by auto

lemma hex_byte_xdigits: "c \<in> set (hex_byte b) \<Longrightarrow> is_xdigit c"
  using unat_byte_less[of b] by (auto simp: hex_byte_def intro!: is_xdigit_hex_digit)

lemma sha256_xdigits: "c \<in> set (sha256 ossl m) \<Longrightarrow> is_xdigit c"
  by (auto simp: sha256_def dest: hex_byte_xdigits)

lemma sign_InrD:
  assumes "sign ossl m priv = Inr sg"
  obtains k pt s where
    "bn_hex2bn ossl priv = Some k" "ec_point_mul ossl k = Some pt"
    "ec_key_set_public_key ossl pt"
    "ecdsa_do_sign ossl (evp_sha256 ossl (map byte_of_char m)) k = Some s"
    "i2d_ecdsa_sig ossl s \<noteq> []" "sg = bytesToHex (i2d_ecdsa_sig ossl s)"
  using assms
  by (auto simp: sign_def hexToBytes_sha256 Let_def split: option.splits if_splits)

lemma bytesToHex_inverse: "hexToBytes (bytesToHex bs) = Inr bs"
  by (simp add: bytesToHex_def hexToBytes_hex)

text \<open>A concrete OpenSSL parameter for the witnesses of the development.\<close>

definition byte_total :: "byte list \<Rightarrow> byte" where
  "byte_total bs = sum_list bs"

definition demo_openssl :: openssl where
  "demo_openssl =
     \<lparr>evp_sha256 = (\<lambda>bs. replicate 31 0 @ [byte_total bs]),
      bn_hex2bn = (\<lambda>s. if s = [] then None else Some (int (length s))),
      bn_bn2hex = (\<lambda>k. ''0A''),
      ec_key_set_private_key = (\<lambda>k. True),
      ec_point_mul = (\<lambda>k. Some (Some (k, k))),
      ec_key_set_public_key = (\<lambda>pt. True),
      ec_point_point2hex = (\<lambda>pt. case pt of Some (x, y) \<Rightarrow> if 0 \<le> x \<and> x = y then Some (replicate (nat x) CHR ''2'') else None | None \<Rightarrow> None),
      ec_point_hex2point = (\<lambda>s. Some (Some (int (length s), int (length s)))),
      ecdsa_do_sign = (\<lambda>h k. Some (uint (byte_total h), k)),
      ecdsa_do_verify = (\<lambda>h sg pt. if fst sg = uint (byte_total h) \<and> pt = Some (snd sg, snd sg) then 1 else 0),
      i2d_ecdsa_sig = (\<lambda>sg. if 0 \<le> fst sg \<and> fst sg < 256 \<and> 0 \<le> snd sg \<and> snd sg < 256
                            then [word_of_int (fst sg), word_of_int (snd sg)] else []),
      d2i_ecdsa_sig = (\<lambda>bs. case bs of [r, s] \<Rightarrow> Some (uint r, uint s) | _ \<Rightarrow> None)\<rparr>"

lemma demo_digest_ok: "digest_ok demo_openssl"
  by (simp add: digest_ok_def demo_openssl_def)

lemma demo_ecdsa_ok: "ecdsa_ok demo_openssl"
  by (auto simp: ecdsa_ok_def demo_openssl_def uint_word_of_int split: if_splits option.splits)

lemma demo_sign:
  "sign demo_openssl m ''ab'' =
     Inr (bytesToHex [byte_total (evp_sha256 demo_openssl (map byte_of_char m)), 2])"
proof -
  have "uint (b :: byte) < 256" for b using unsigned_less[of b] by simp
  then show ?thesis by (simp add: sign_def hexToBytes_sha256 demo_openssl_def)
qed

lemma verify_sign:
  assumes "ecdsa_ok ossl"
    and "sign ossl m priv = Inr sg"
    and "bn_hex2bn ossl priv = Some k" and "ec_point_mul ossl k = Some pt"
    and "ec_point_point2hex ossl pt = Some pub"
  shows "verify ossl m sg (map to_lower pub)"
proof -
  obtain s where "ec_key_set_public_key ossl pt"
    and "ecdsa_do_sign ossl (evp_sha256 ossl (map byte_of_char m)) k = Some s"
    and "i2d_ecdsa_sig ossl s \<noteq> []" and "sg = bytesToHex (i2d_ecdsa_sig ossl s)"
    using assms(2,3,4) by (auto elim: sign_InrD)
  with assms(4,5) show ?thesis
    by (simp add: verify_def hexToBytes_sha256 bytesToHex_inverse ecdsa_okD[OF assms(1)])
qed

text \<open>A signature that was produced is not empty.\<close>

lemma sign_nonempty: "sign ossl m priv = Inr sg \<Longrightarrow> sg \<noteq> []"
  by (auto elim!: sign_InrD simp: bytesToHex_def hex_byte_def)

text \<open>
  A signature that \<^verbatim>\<open>sign\<close> produces for a message with a private key is accepted by
  \<^verbatim>\<open>verify\<close> for the same message under the public key (the lowercase compressed encoding of
  the point that the private key generates), given the documented laws of OpenSSL.
\<close>

theorem verify_of_sign:
  assumes "ecdsa_ok ossl"
    and "sign ossl m priv = Inr sg"
    and "bn_hex2bn ossl priv = Some k" and "ec_point_mul ossl k = Some pt"
    and "ec_point_point2hex ossl pt = Some pub"
  shows "verify ossl m sg (map to_lower pub)"
  using assms by (rule verify_sign)

theorem verify_of_sign_witness:
  "verify demo_openssl ''hi'' ''d102'' (map to_lower ''22'')"
proof (rule verify_of_sign[where priv = "''ab''" and k = 2 and pt = "Some (2, 2)"])
  show "ecdsa_ok demo_openssl" by (rule demo_ecdsa_ok)
  show "sign demo_openssl ''hi'' ''ab'' = Inr ''d102''"
    by (simp add: demo_openssl_def sign_def hexToBytes_sha256 byte_total_def byte_of_char_def
        bytesToHex_def hex_byte_def hex_digit_def sum_list_replicate char_of_eq_iff)
  show "ec_point_point2hex demo_openssl (Some (2, 2)) = Some ''22''"
    by (simp add: demo_openssl_def numeral_eq_Suc)
qed (simp_all add: demo_openssl_def)

end
