(* ===== verification/Timestamp.thy ===== *)
theory Timestamp
  imports Prelude
begin

text \<open>
  Calendar time as the sources use it: the format \<^verbatim>\<open>%Y-%m-%dT%H:%M:%SZ\<close> written by
  \<^verbatim>\<open>std::put_time\<close> and read by \<^verbatim>\<open>std::get_time\<close>, with \<^verbatim>\<open>gmtime_r\<close> and \<^verbatim>\<open>timegm\<close> for the
  conversions. A clock reading \<open>now\<close> is the number of nanoseconds since the epoch.
\<close>

section \<open>Calendar arithmetic\<close>

record tm =
  tm_year :: nat
  tm_mon :: nat
  tm_mday :: nat
  tm_hour :: nat
  tm_min :: nat
  tm_sec :: nat

definition is_leap :: "nat \<Rightarrow> bool" where
  "is_leap y \<longleftrightarrow> 4 dvd y \<and> (\<not> 100 dvd y \<or> 400 dvd y)"

definition year_length :: "nat \<Rightarrow> nat" where
  "year_length y = (if is_leap y then 366 else 365)"

definition month_lengths :: "nat \<Rightarrow> nat list" where
  "month_lengths y = [31, if is_leap y then 29 else 28, 31, 30, 31, 30, 31, 31, 30, 31, 30, 31]"

text \<open>Leap days in the years \<open>1..n\<close>, and days from the epoch to the first of January.\<close>

definition leaps_upto :: "nat \<Rightarrow> int" where
  "leaps_upto n = int (n div 4) - int (n div 100) + int (n div 400)"

definition days_before_year :: "nat \<Rightarrow> int" where
  "days_before_year y = 365 * (int y - 1970) + leaps_upto (y - 1) - leaps_upto 1969"

definition days_before_month :: "nat \<Rightarrow> nat \<Rightarrow> nat" where
  "days_before_month y m = sum_list (take (m - 1) (month_lengths y))"

text \<open>\<^verbatim>\<open>timegm\<close>: a day or second beyond its month or minute carries over.\<close>

definition timegm :: "tm \<Rightarrow> int" where
  "timegm t =
     86400 * (days_before_year (tm_year t) + int (days_before_month (tm_year t) (tm_mon t))
              + int (tm_mday t) - 1)
     + 3600 * int (tm_hour t) + 60 * int (tm_min t) + int (tm_sec t)"

text \<open>\<^verbatim>\<open>gmtime_r\<close> for times after the epoch: subtract whole years, then whole months.\<close>

function year_loop :: "nat \<Rightarrow> nat \<Rightarrow> nat \<times> nat" where
  "year_loop y d = (if d < year_length y then (y, d) else year_loop (Suc y) (d - year_length y))"
  by pat_completeness auto
termination
  by (relation "measure snd") (auto simp: year_length_def split: if_splits)

declare year_loop.simps [simp del]

fun month_loop :: "nat \<Rightarrow> nat \<Rightarrow> nat list \<Rightarrow> nat \<times> nat" where
  "month_loop m d [] = (m, d)"
| "month_loop m d (l # ls) = (if d < l then (m, d) else month_loop (Suc m) (d - l) ls)"

definition gmtime :: "nat \<Rightarrow> tm" where
  "gmtime t =
     (let (y, doy) = year_loop 1970 (t div 86400);
          (m, d) = month_loop 1 doy (month_lengths y);
          r = t mod 86400
      in \<lparr>tm_year = y, tm_mon = m, tm_mday = Suc d,
          tm_hour = r div 3600, tm_min = r mod 3600 div 60, tm_sec = r mod 60\<rparr>)"


section \<open>Text form\<close>

text \<open>A field of at least two digits, padded with a zero.\<close>

definition dec2 :: "nat \<Rightarrow> string" where
  "dec2 n = (if n < 10 then CHR ''0'' # dec n else dec n)"

definition put_time :: "tm \<Rightarrow> string" where
  "put_time t =
     dec (tm_year t) @ ''-'' @ dec2 (tm_mon t) @ ''-'' @ dec2 (tm_mday t) @ ''T'' @
     dec2 (tm_hour t) @ '':'' @ dec2 (tm_min t) @ '':'' @ dec2 (tm_sec t) @ ''Z''"

text \<open>Up to \<open>n\<close> digits from the front of the input.\<close>

fun take_digits :: "nat \<Rightarrow> string \<Rightarrow> string \<times> string" where
  "take_digits 0 s = ([], s)"
| "take_digits (Suc n) [] = ([], [])"
| "take_digits (Suc n) (c # cs) =
     (if is_digit c then (let (ds, rest) = take_digits n cs in (c # ds, rest)) else ([], c # cs))"

definition read_field :: "nat \<Rightarrow> nat \<Rightarrow> nat \<Rightarrow> string \<Rightarrow> (nat \<times> string) option" where
  "read_field width lo hi s =
     (let (ds, rest) = take_digits width s; v = undec 0 ds
      in if ds = [] \<or> v < lo \<or> hi < v then None else Some (v, rest))"

definition read_char :: "char \<Rightarrow> string \<Rightarrow> string option" where
  "read_char c s = (case s of [] \<Rightarrow> None | x # xs \<Rightarrow> if x = c then Some xs else None)"

text \<open>
  \<^verbatim>\<open>ss >> std::get_time(&tm, "%Y-%m-%dT%H:%M:%S")\<close>: \<^const>\<open>None\<close> when the stream fails.
  Characters after the seconds are left in the stream.
\<close>

definition get_time :: "string \<Rightarrow> tm option" where
  "get_time s =
     Option.bind (read_field 4 0 9999 (dropWhile is_space s)) (\<lambda>(y, s).
     Option.bind (read_char CHR ''-'' s) (\<lambda>s.
     Option.bind (read_field 2 1 12 s) (\<lambda>(mo, s).
     Option.bind (read_char CHR ''-'' s) (\<lambda>s.
     Option.bind (read_field 2 1 31 s) (\<lambda>(d, s).
     Option.bind (read_char CHR ''T'' s) (\<lambda>s.
     Option.bind (read_field 2 0 23 s) (\<lambda>(h, s).
     Option.bind (read_char CHR '':'' s) (\<lambda>s.
     Option.bind (read_field 2 0 59 s) (\<lambda>(mi, s).
     Option.bind (read_char CHR '':'' s) (\<lambda>s.
     Option.bind (read_field 2 0 60 s) (\<lambda>(se, s).
       Some \<lparr>tm_year = y, tm_mon = mo, tm_mday = d, tm_hour = h, tm_min = mi, tm_sec = se\<rparr>)))))))))))"

text \<open>\<^verbatim>\<open>std::chrono::duration_cast\<close> truncates towards zero.\<close>

definition tdiv :: "int \<Rightarrow> int \<Rightarrow> int" where
  "tdiv a b = (if a < 0 then - (- a div b) else a div b)"

abbreviation ns_per_s :: int where
  "ns_per_s \<equiv> 1000000000"

text \<open>\<^verbatim>\<open>system_clock::to_time_t\<close> followed by \<^verbatim>\<open>gmtime_r\<close> and \<^verbatim>\<open>put_time\<close>.\<close>

definition format_now :: "int \<Rightarrow> string" where
  "format_now now = put_time (gmtime (nat (tdiv now ns_per_s)))"


section \<open>Reading back what was written\<close>

lemma div_step:
  assumes "0 < k"
  shows "Suc n div k = n div k + (if k dvd Suc n then 1 else 0)"
  by (simp add: div_Suc dvd_eq_mod_eq_0)

lemma leap_count:
  assumes "r \<Longrightarrow> q" "q \<Longrightarrow> p"
  shows "int (a + (if p then 1 else 0)) - int (b + (if q then 1 else 0)) + int (c + (if r then 1 else 0))
       = int a - int b + int c + (if p \<and> (\<not> q \<or> r) then 1 else 0)"
  using assms by auto

lemma leaps_upto_Suc: "leaps_upto (Suc n) = leaps_upto n + (if is_leap (Suc n) then 1 else 0)"
proof -
  have d: "(400 :: nat) dvd Suc n \<Longrightarrow> 100 dvd Suc n" "(100 :: nat) dvd Suc n \<Longrightarrow> 4 dvd Suc n"
    by presburger+
  have e: "Suc n div 4 = n div 4 + (if 4 dvd Suc n then 1 else 0)"
    "Suc n div 100 = n div 100 + (if 100 dvd Suc n then 1 else 0)"
    "Suc n div 400 = n div 400 + (if 400 dvd Suc n then 1 else 0)"
    by (rule div_step, simp)+
  show ?thesis
    unfolding leaps_upto_def is_leap_def e by (rule leap_count[OF d])
qed

lemma days_before_Suc: "0 < y \<Longrightarrow> days_before_year (Suc y) = days_before_year y + int (year_length y)"
  using leaps_upto_Suc[of "y - 1"] by (simp add: days_before_year_def year_length_def)

lemma days_before_mono: "0 < y \<Longrightarrow> y \<le> z \<Longrightarrow> days_before_year y \<le> days_before_year z"
proof (induction z)
  case (Suc z)
  show ?case
  proof (cases "y = Suc z")
    case False
    with Suc have "days_before_year y \<le> days_before_year z" "0 < z" by auto
    then show ?thesis by (simp add: days_before_Suc)
  qed simp
qed simp

lemma year_loop_correct:
  "0 < y \<Longrightarrow> year_loop y d = (z, e) \<Longrightarrow>
     y \<le> z \<and> e < year_length z \<and> days_before_year y + int d = days_before_year z + int e"
proof (induction y d rule: year_loop.induct)
  case (1 y d)
  show ?case
  proof (cases "d < year_length y")
    case True
    with 1 show ?thesis by (simp add: year_loop.simps[of y d])
  next
    case False
    with 1 have "Suc y \<le> z \<and> e < year_length z \<and>
        days_before_year (Suc y) + int (d - year_length y) = days_before_year z + int e"
      by (simp add: year_loop.simps[of y d])
    with False \<open>0 < y\<close> show ?thesis by (simp add: days_before_Suc of_nat_diff)
  qed
qed

lemma month_loop_correct:
  assumes "month_loop m d ls = (k, e)" and "d < sum_list ls"
  shows "m \<le> k \<and> k - m < length ls \<and> d = sum_list (take (k - m) ls) + e \<and> e < ls ! (k - m)"
  using assms
proof (induction m d ls rule: month_loop.induct)
  case (2 m d l ls)
  show ?case
  proof (cases "d < l")
    case True
    with 2 show ?thesis by auto
  next
    case False
    with 2 have IH: "Suc m \<le> k \<and> k - Suc m < length ls \<and>
        d - l = sum_list (take (k - Suc m) ls) + e \<and> e < ls ! (k - Suc m)"
      by simp
    then have "k - m = Suc (k - Suc m)" by arith
    with IH False show ?thesis by auto
  qed
qed simp

lemma sum_month_lengths: "sum_list (month_lengths y) = year_length y"
  by (simp add: month_lengths_def year_length_def)

lemma length_month_lengths: "length (month_lengths y) = 12"
  by (simp add: month_lengths_def)

lemma month_lengths_le: "i < 12 \<Longrightarrow> month_lengths y ! i \<le> 31"
  by (auto simp: month_lengths_def less_Suc_eq numeral_eq_Suc)

lemma seconds_split: "int r = 3600 * int (r div 3600) + 60 * int (r mod 3600 div 60) + int (r mod 60)"
proof -
  have "r mod 3600 mod 60 = r mod 60" by (rule mod_mod_cancel) simp
  then have "r = 3600 * (r div 3600) + (60 * (r mod 3600 div 60) + r mod 60)"
    by (metis mult_div_mod_eq)
  then have "int r = int (3600 * (r div 3600) + (60 * (r mod 3600 div 60) + r mod 60))" by simp
  then show ?thesis by (simp only: of_nat_add of_nat_mult of_nat_numeral)
qed

text \<open>The fields that \<^const>\<open>gmtime\<close> produces, and that \<^const>\<open>timegm\<close> inverts it.\<close>

lemma gmtime_fields:
  assumes "int t < 86400 * days_before_year 10000"
  defines "g \<equiv> gmtime t"
  shows "1970 \<le> tm_year g" "tm_year g \<le> 9999" "1 \<le> tm_mon g" "tm_mon g \<le> 12"
    "1 \<le> tm_mday g" "tm_mday g \<le> 31" "tm_hour g \<le> 23" "tm_min g \<le> 59" "tm_sec g \<le> 59"
    and timegm_gmtime: "timegm g = int t"
proof -
  obtain y doy where yl: "year_loop 1970 (t div 86400) = (y, doy)" by fastforce
  obtain m d where ml: "month_loop 1 doy (month_lengths y) = (m, d)" by fastforce
  have g: "g = \<lparr>tm_year = y, tm_mon = m, tm_mday = Suc d, tm_hour = t mod 86400 div 3600,
      tm_min = t mod 86400 mod 3600 div 60, tm_sec = t mod 86400 mod 60\<rparr>"
    by (simp add: g_def gmtime_def yl ml[simplified] Let_def)
  have e: "days_before_year 1970 = 0" by (simp add: days_before_year_def leaps_upto_def)
  have Y: "1970 \<le> y" "doy < year_length y" "int (t div 86400) = days_before_year y + int doy"
    using year_loop_correct[OF _ yl] e by auto
  have M: "1 \<le> m" "m - 1 < 12" "doy = sum_list (take (m - 1) (month_lengths y)) + d"
    "d < month_lengths y ! (m - 1)"
    using month_loop_correct[OF ml, unfolded sum_month_lengths length_month_lengths, OF Y(2)] by auto
  have "y < 10000"
  proof (rule ccontr)
    assume "\<not> y < 10000"
    then have "days_before_year 10000 \<le> days_before_year y"
      using days_before_mono[of 10000 y] by simp
    then have "days_before_year 10000 \<le> int (t div 86400)" using Y(3) by simp
    then show False using assms(1) by (simp add: zdiv_int)
  qed
  moreover have "d < 31" using M(4) month_lengths_le[OF M(2), of y] by simp
  moreover have "t mod 86400 div 3600 \<le> 23"
    using mod_less_divisor[of 86400 t] by linarith
  ultimately show "1970 \<le> tm_year g" "tm_year g \<le> 9999" "1 \<le> tm_mon g" "tm_mon g \<le> 12"
    "1 \<le> tm_mday g" "tm_mday g \<le> 31" "tm_hour g \<le> 23" "tm_min g \<le> 59" "tm_sec g \<le> 59"
    using Y(1) M(1,2) by (simp_all add: g)
  have "int t = 86400 * int (t div 86400) + int (t mod 86400)"
    by (metis mult_div_mod_eq of_nat_add of_nat_mult of_nat_numeral)
  then show "timegm g = int t"
    using Y(3) M(3) seconds_split[of "t mod 86400"]
    by (simp add: timegm_def g days_before_month_def)
qed

lemma dec_two_digits: "10 \<le> n \<Longrightarrow> n < 100 \<Longrightarrow> dec n = [digit_char (n div 10), digit_char (n mod 10)]"
  by (subst dec.simps, subst dec.simps) simp

lemma dec_four_digits:
  assumes "1000 \<le> n" "n < 10000"
  shows "dec n = [digit_char (n div 1000), digit_char (n div 100 mod 10),
    digit_char (n div 10 mod 10), digit_char (n mod 10)]"
proof -
  have "n div 10 div 10 = n div 100" "n div 100 div 10 = n div 1000" by (simp_all add: div_mult2_eq[symmetric])
  moreover have "\<not> n < 10" "\<not> n div 10 < 10" "\<not> n div 100 < 10" "n div 1000 < 10" using assms by auto
  ultimately show ?thesis
    by (simp add: dec.simps[of n] dec.simps[of "n div 10"] dec.simps[of "n div 100"] dec.simps[of "n div 1000"])
qed

lemma dec2_digits: "n < 100 \<Longrightarrow> dec2 n = [digit_char (n div 10), digit_char (n mod 10)]"
proof -
  have "digit_char 0 = CHR ''0''" by (simp add: digit_char_def char_of_eq_iff)
  moreover assume "n < 100"
  ultimately show ?thesis
    by (cases "n < 10") (simp_all add: dec2_def dec_two_digits, simp add: dec.simps)
qed

lemma take_digits_run:
  "(\<And>c. c \<in> set ds \<Longrightarrow> is_digit c) \<Longrightarrow> length ds = n \<Longrightarrow> take_digits n (ds @ s) = (ds, s)"
  by (induction ds arbitrary: n) auto

lemma read_field_dec2:
  assumes "n < 100" "lo \<le> n" "n \<le> hi"
  shows "read_field 2 lo hi (dec2 n @ s) = Some (n, s)"
  using assms
  by (simp add: read_field_def dec2_digits numeral_2_eq_2 Let_def)

lemma read_field_dec4:
  assumes "1000 \<le> n" "n \<le> 9999"
  shows "read_field 4 0 9999 (dec n @ s) = Some (n, s)"
proof -
  have d: "dec n = [digit_char (n div 1000), digit_char (n div 100 mod 10),
    digit_char (n div 10 mod 10), digit_char (n mod 10)]"
    using assms by (intro dec_four_digits) auto
  have "take_digits 4 (dec n @ s) = (dec n, s)"
    by (rule take_digits_run) (use dec_digits in blast, simp add: d)
  then show ?thesis
    using assms by (simp add: read_field_def undec_dec)
qed

lemma read_char_Cons [simp]: "read_char c (c # s) = Some s"
  by (simp add: read_char_def)

lemma dropWhile_space_dec: "dropWhile is_space (dec n @ s) = dec n @ s"
proof (cases "dec n")
  case (Cons c cs)
  then have "is_digit c" using dec_digits[of c n] by simp
  with Cons show ?thesis by (simp add: is_digit_not_space)
qed simp

lemma get_time_put_time:
  assumes "1000 \<le> tm_year g" "tm_year g \<le> 9999" "1 \<le> tm_mon g" "tm_mon g \<le> 12"
    "1 \<le> tm_mday g" "tm_mday g \<le> 31" "tm_hour g \<le> 23" "tm_min g \<le> 59" "tm_sec g \<le> 60"
  shows "get_time (put_time g) = Some g"
  using assms
  by (simp add: get_time_def put_time_def dropWhile_space_dec read_field_dec4 read_field_dec2)

text \<open>The largest time the format can express, the end of the year 9999.\<close>

lemma days_before_year_10000: "86400 * days_before_year 10000 = 253402300800"
  by (simp add: days_before_year_def leaps_upto_def)

lemma format_now_parsed:
  assumes "0 \<le> now" "now < 253402300800 * ns_per_s"
  shows "\<exists>g. get_time (format_now now) = Some g \<and> timegm g = now div ns_per_s"
proof -
  let ?t = "nat (tdiv now ns_per_s)"
  have t: "int ?t = now div ns_per_s" using assms(1) by (simp add: tdiv_def pos_imp_zdiv_nonneg_iff)
  have b: "int ?t < 86400 * days_before_year 10000"
    unfolding t days_before_year_10000 using assms(2) by linarith
  note F = gmtime_fields[OF b]
  have "get_time (format_now now) = Some (gmtime ?t)"
    unfolding format_now_def by (rule get_time_put_time) (use F in auto)
  then show ?thesis using timegm_gmtime[OF b] t by auto
qed

end
