(* ===== verification/Transaction.thy ===== *)
theory Transaction
  imports Crypto Json Timestamp
begin

text \<open>
  \<^verbatim>\<open>include/transaction/transaction.h\<close>, \<^verbatim>\<open>src/transaction/transaction.cpp\<close>: the transaction
  record, its identifier and signature, the replay window on its timestamp, and its JSON form.
\<close>

section \<open>Data and operations\<close>

record Transaction =
  txID :: string
  senderPublicKey :: string
  receiverPublicKey :: string
  fromAddress :: string
  toAddress :: string
  amount :: u64
  tx_nonce :: u64
  payload :: string
  tx_timestamp :: string
  digitalSignature :: string

definition empty_tx :: Transaction where
  "empty_tx =
     \<lparr>txID = [], senderPublicKey = [], receiverPublicKey = [], fromAddress = [], toAddress = [],
      amount = 0, tx_nonce = 0, payload = [], tx_timestamp = [], digitalSignature = []\<rparr>"

definition deriveAddressV2 :: "openssl \<Rightarrow> string \<Rightarrow> string" where
  "deriveAddressV2 ossl publicKey = ''PCN_'' @ take 40 (sha256 ossl publicKey)"

definition deriveAddressLegacy :: "openssl \<Rightarrow> string \<Rightarrow> string" where
  "deriveAddressLegacy ossl publicKey = sha256 ossl publicKey"

definition buildTxCore :: "Transaction \<Rightarrow> string" where
  "buildTxCore tx =
     senderPublicKey tx @ ''|'' @ receiverPublicKey tx @ ''|'' @ fromAddress tx @ ''|'' @
     toAddress tx @ ''|'' @ to_string (amount tx) @ ''|'' @ to_string (tx_nonce tx) @ ''|'' @
     payload tx @ ''|'' @ tx_timestamp tx"

definition computeTxID :: "openssl \<Rightarrow> Transaction \<Rightarrow> Transaction" where
  "computeTxID ossl tx = tx\<lparr>txID := sha256 ossl (buildTxCore tx)\<rparr>"

definition sign_tx :: "openssl \<Rightarrow> string \<Rightarrow> Transaction \<Rightarrow> Transaction result" where
  "sign_tx ossl privateKey tx =
     (let tx' = (if txID tx = [] then computeTxID ossl tx else tx)
      in ebind (sign ossl (txID tx') privateKey) (\<lambda>sg. Inr (tx'\<lparr>digitalSignature := sg\<rparr>)))"

definition isCoinbase :: "Transaction \<Rightarrow> bool" where
  "isCoinbase tx \<longleftrightarrow> senderPublicKey tx = ''COINBASE''"

definition verify_tx :: "openssl \<Rightarrow> Transaction \<Rightarrow> bool" where
  "verify_tx ossl tx =
     (if isCoinbase tx then True
      else if amount tx = 0 then False
      else if txID tx = [] \<or> digitalSignature tx = [] \<or> senderPublicKey tx = [] then False
      else if fromAddress tx \<noteq> [] \<and>
              fromAddress tx \<noteq> deriveAddressV2 ossl (senderPublicKey tx) \<and>
              fromAddress tx \<noteq> deriveAddressLegacy ossl (senderPublicKey tx) then False
      else if sha256 ossl (buildTxCore tx) \<noteq> txID tx then False
      else verify ossl (txID tx) (digitalSignature tx) (senderPublicKey tx))"

text \<open>
  \<^verbatim>\<open>system_clock\<close> counts nanoseconds in a signed 64-bit integer. The conversion of the parsed
  time to nanoseconds and the subtraction wrap around at that width.
\<close>

definition s64 :: "int \<Rightarrow> int" where
  "s64 i = sint (word_of_int i :: 64 word)"

definition isExpired :: "int \<Rightarrow> int \<Rightarrow> Transaction \<Rightarrow> bool" where
  "isExpired now windowSeconds tx =
     (case get_time (tx_timestamp tx) of
        None \<Rightarrow> True
      | Some t \<Rightarrow>
          (let txTime = s64 (timegm t * ns_per_s);
               diff = tdiv (s64 (now - txTime)) ns_per_s
           in \<bar>diff\<bar> > windowSeconds))"

definition currentTimestamp :: "int \<Rightarrow> string" where
  "currentTimestamp now = format_now now"

definition tx_toJson :: "Transaction \<Rightarrow> json" where
  "tx_toJson tx = jobj
     [(''txID'', JStr (txID tx)),
      (''senderPublicKey'', JStr (senderPublicKey tx)),
      (''receiverPublicKey'', JStr (receiverPublicKey tx)),
      (''fromAddress'', JStr (fromAddress tx)),
      (''toAddress'', JStr (toAddress tx)),
      (''amount'', JUInt (amount tx)),
      (''nonce'', JUInt (tx_nonce tx)),
      (''payload'', JStr (payload tx)),
      (''timestamp'', JStr (tx_timestamp tx)),
      (''digitalSignature'', JStr (digitalSignature tx))]"

text \<open>The defaults for entries of older chains that end \<^verbatim>\<open>Transaction::fromJson\<close>.\<close>

definition tx_backfill :: "openssl \<Rightarrow> Transaction \<Rightarrow> Transaction" where
  "tx_backfill ossl tx =
     (let tx1 = (if fromAddress tx = [] \<and> senderPublicKey tx \<noteq> [] \<and> senderPublicKey tx \<noteq> ''COINBASE''
                 then tx\<lparr>fromAddress := deriveAddressV2 ossl (senderPublicKey tx)\<rparr> else tx);
          tx2 = (if toAddress tx1 = [] \<and> receiverPublicKey tx1 \<noteq> []
                 then tx1\<lparr>toAddress := deriveAddressV2 ossl (receiverPublicKey tx1)\<rparr> else tx1)
      in if amount tx2 = 0 \<and> isCoinbase tx2 then tx2\<lparr>amount := 50\<rparr> else tx2)"

definition tx_fromJson :: "openssl \<Rightarrow> json \<Rightarrow> Transaction result" where
  "tx_fromJson ossl j =
     ebind (jvalue get_str ''txID'' [] j) (\<lambda>v1.
     ebind (jvalue get_str ''senderPublicKey'' [] j) (\<lambda>v2.
     ebind (jvalue get_str ''receiverPublicKey'' [] j) (\<lambda>v3.
     ebind (jvalue get_str ''fromAddress'' [] j) (\<lambda>v4.
     ebind (jvalue get_str ''toAddress'' [] j) (\<lambda>v5.
     ebind (jvalue get_u64 ''amount'' 0 j) (\<lambda>v6.
     ebind (jvalue get_u64 ''nonce'' 0 j) (\<lambda>v7.
     ebind (jvalue get_str ''payload'' [] j) (\<lambda>v8.
     ebind (jvalue get_str ''timestamp'' [] j) (\<lambda>v9.
     ebind (jvalue get_str ''digitalSignature'' [] j) (\<lambda>v10.
       Inr (tx_backfill ossl
         \<lparr>txID = v1, senderPublicKey = v2, receiverPublicKey = v3, fromAddress = v4,
          toAddress = v5, amount = v6, tx_nonce = v7, payload = v8, tx_timestamp = v9,
          digitalSignature = v10\<rparr>)))))))))))"


section \<open>Lemmas\<close>

lemma verify_tx_coinbase [simp]: "isCoinbase tx \<Longrightarrow> verify_tx ossl tx"
  by (simp add: verify_tx_def)

lemma verify_tx_iff:
  "verify_tx ossl tx \<longleftrightarrow> isCoinbase tx \<or>
     (amount tx \<noteq> 0 \<and> txID tx \<noteq> [] \<and> digitalSignature tx \<noteq> [] \<and> senderPublicKey tx \<noteq> [] \<and>
      fromAddress tx \<in> {[], deriveAddressV2 ossl (senderPublicKey tx),
        deriveAddressLegacy ossl (senderPublicKey tx)} \<and>
      sha256 ossl (buildTxCore tx) = txID tx \<and>
      verify ossl (txID tx) (digitalSignature tx) (senderPublicKey tx))"
  by (auto simp: verify_tx_def)

lemma verify_txD:
  assumes "verify_tx ossl tx" "\<not> isCoinbase tx"
  shows "amount tx \<noteq> 0" "txID tx = sha256 ossl (buildTxCore tx)"
    "verify ossl (txID tx) (digitalSignature tx) (senderPublicKey tx)"
    "fromAddress tx \<in> {[], deriveAddressV2 ossl (senderPublicKey tx),
      deriveAddressLegacy ossl (senderPublicKey tx)}"
  using assms by (auto simp: verify_tx_def split: if_splits)

lemma buildTxCore_update [simp]:
  "buildTxCore (tx\<lparr>txID := i\<rparr>) = buildTxCore tx"
  "buildTxCore (tx\<lparr>digitalSignature := d\<rparr>) = buildTxCore tx"
  by (simp_all add: buildTxCore_def)

text \<open>A transaction to which \<^const>\<open>tx_backfill\<close> has nothing to add.\<close>

definition tx_complete :: "Transaction \<Rightarrow> bool" where
  "tx_complete tx \<longleftrightarrow>
     (fromAddress tx = [] \<longrightarrow> senderPublicKey tx = [] \<or> senderPublicKey tx = ''COINBASE'') \<and>
     (toAddress tx = [] \<longrightarrow> receiverPublicKey tx = []) \<and>
     (amount tx = 0 \<longrightarrow> \<not> isCoinbase tx)"

lemma tx_backfill_complete: "tx_complete tx \<Longrightarrow> tx_backfill ossl tx = tx"
  by (auto simp: tx_complete_def tx_backfill_def Let_def)

lemma deriveAddressV2_nonempty [simp]: "deriveAddressV2 ossl k \<noteq> []"
  by (simp add: deriveAddressV2_def)

lemma tx_complete_backfill: "tx_complete (tx_backfill ossl tx)"
  by (auto simp: tx_complete_def tx_backfill_def Let_def isCoinbase_def)

lemma tx_fromJson_toJson: "tx_fromJson ossl (tx_toJson tx) = Inr (tx_backfill ossl tx)"
  by (cases tx) (simp add: tx_fromJson_def tx_toJson_def)

lemma s64_id: "- 9223372036854775808 \<le> i \<Longrightarrow> i < 9223372036854775808 \<Longrightarrow> s64 i = i"
  by (simp add: s64_def int_word_sint)

lemma not_digit_bar: "\<not> is_digit CHR ''|''"
  by (simp add: is_digit_def less_eq_char_nat)

text \<open>The text fields of the signed core contain no separator.\<close>

definition bar_free :: "Transaction \<Rightarrow> bool" where
  "bar_free tx \<longleftrightarrow> (\<forall>f \<in> {senderPublicKey, receiverPublicKey, fromAddress, toAddress, payload}.
     CHR ''|'' \<notin> set (f tx))"

lemma buildTxCore_inject:
  assumes "bar_free tx" "bar_free tx'" "buildTxCore tx = buildTxCore tx'"
  shows "senderPublicKey tx = senderPublicKey tx' \<and> receiverPublicKey tx = receiverPublicKey tx' \<and>
    fromAddress tx = fromAddress tx' \<and> toAddress tx = toAddress tx' \<and> amount tx = amount tx' \<and>
    tx_nonce tx = tx_nonce tx' \<and> payload tx = payload tx' \<and> tx_timestamp tx = tx_timestamp tx'"
  using assms
  by (simp add: buildTxCore_def bar_free_def separator_split
      digit_not_in_to_string[OF not_digit_bar])

lemma isExpired_in_range:
  assumes "get_time (tx_timestamp tx) = Some t"
    and "0 \<le> timegm t" "timegm t \<le> 2 ^ 63 div ns_per_s" "0 \<le> now" "now < 2 ^ 63"
  shows "isExpired now w tx \<longleftrightarrow> \<bar>tdiv (now - timegm t * ns_per_s) ns_per_s\<bar> > w"
proof -
  have b: "timegm t \<le> 9223372036" using assms(3) by simp
  then have "s64 (timegm t * ns_per_s) = timegm t * ns_per_s"
    using assms(2) by (intro s64_id) linarith+
  moreover have "s64 (now - timegm t * ns_per_s) = now - timegm t * ns_per_s"
  proof (rule s64_id)
    have "now < 9223372036854775808" using assms(5) by simp
    then show "now - timegm t * ns_per_s < 9223372036854775808" using assms(2) by linarith
    show "- 9223372036854775808 \<le> now - timegm t * ns_per_s" using b assms(4) by linarith
  qed
  ultimately show ?thesis using assms(1) by (simp add: isExpired_def Let_def)
qed


text \<open>A signed transaction under the concrete OpenSSL parameter, for the witnesses.\<close>

definition demo_signed :: "Transaction \<Rightarrow> Transaction" where
  "demo_signed tx =
     (let i = sha256 demo_openssl (buildTxCore tx)
      in tx\<lparr>txID := i, digitalSignature :=
           bytesToHex [byte_total (evp_sha256 demo_openssl (map byte_of_char i)), 2]\<rparr>)"

definition demo_from :: string where
  "demo_from = deriveAddressV2 demo_openssl ''22''"

definition demo_tx :: "string \<Rightarrow> u64 \<Rightarrow> u64 \<Rightarrow> string \<Rightarrow> string \<Rightarrow> Transaction" where
  "demo_tx to am n pl ts = demo_signed (empty_tx\<lparr>senderPublicKey := ''22'', fromAddress := demo_from,
     toAddress := to, amount := am, tx_nonce := n, payload := pl, tx_timestamp := ts\<rparr>)"

lemma verify_demo_tx:
  assumes "am \<noteq> 0"
  shows "verify_tx demo_openssl (demo_tx to am n pl ts)"
proof -
  have "verify demo_openssl m (bytesToHex [byte_total (evp_sha256 demo_openssl (map byte_of_char m)), 2]) ''22''" for m
    using verify_sign[OF demo_ecdsa_ok demo_sign, of 2 "Some (2, 2)" "''22''"]
    by (simp add: demo_openssl_def to_lower_def less_eq_char_nat numeral_eq_Suc)
  then show ?thesis
    using assms
    by (simp add: demo_tx_def demo_signed_def verify_tx_def Let_def isCoinbase_def empty_tx_def
        demo_from_def sha256_nonempty demo_digest_ok) (simp add: bytesToHex_def hex_byte_def buildTxCore_def)
qed

lemma demo_tx_fields [simp]:
  "\<not> isCoinbase (demo_tx to am n pl ts)" "fromAddress (demo_tx to am n pl ts) = demo_from"
  "toAddress (demo_tx to am n pl ts) = to" "amount (demo_tx to am n pl ts) = am"
  "tx_nonce (demo_tx to am n pl ts) = n" "tx_timestamp (demo_tx to am n pl ts) = ts"
  "senderPublicKey (demo_tx to am n pl ts) = ''22''" "payload (demo_tx to am n pl ts) = pl"
  "receiverPublicKey (demo_tx to am n pl ts) = []"
  by (simp_all add: demo_tx_def demo_signed_def isCoinbase_def Let_def empty_tx_def)

lemma demo_from_bar_free: "CHR ''|'' \<notin> set demo_from"
proof -
  have "\<not> is_xdigit CHR ''|''" by (simp add: is_xdigit_def is_digit_def less_eq_char_nat)
  then show ?thesis
    by (auto simp: demo_from_def deriveAddressV2_def dest: in_set_takeD sha256_xdigits)
qed

section \<open>Properties\<close>





text \<open>
  The signed core does not fix the boundary between payload and timestamp: moving the part
  of the payload after a separator into the timestamp keeps the identifier and the signature
  valid, although the two transactions differ in both fields.
\<close>

theorem payload_timestamp_boundary_not_signed:
  assumes "verify_tx ossl tx" "payload tx = p @ CHR ''|'' # q"
  shows "verify_tx ossl (tx\<lparr>payload := p, tx_timestamp := q @ CHR ''|'' # tx_timestamp tx\<rparr>)"
proof -
  let ?tx' = "tx\<lparr>payload := p, tx_timestamp := q @ CHR ''|'' # tx_timestamp tx\<rparr>"
  have "buildTxCore ?tx' = buildTxCore tx" using assms(2) by (simp add: buildTxCore_def)
  with assms(1) show ?thesis by (simp add: verify_tx_iff isCoinbase_def)
qed

theorem payload_timestamp_boundary_not_signed_witness:
  "let tx = demo_tx ''bob'' 5 1 ''a|b'' ''t'' in
     verify_tx demo_openssl tx \<and> verify_tx demo_openssl (tx\<lparr>payload := ''a'', tx_timestamp := ''b|t''\<rparr>)"
proof -
  let ?t = "demo_tx ''bob'' 5 1 ''a|b'' ''t''"
  have v: "verify_tx demo_openssl ?t" by (rule verify_demo_tx) simp
  then show ?thesis
    using payload_timestamp_boundary_not_signed[OF v, of "''a''" "''b''"] by simp
qed

text \<open>
  Within the range of a 64-bit nanosecond clock the replay window is exact: a transaction
  stamped with the clock's text form is expired iff its whole-second distance to the current
  time exceeds the window.
\<close>

theorem isExpired_exact:
  assumes "0 \<le> stamp" "stamp < 2 ^ 63" "0 \<le> now" "now < 2 ^ 63"
    and "tx_timestamp tx = currentTimestamp stamp"
  shows "isExpired now w tx \<longleftrightarrow> \<bar>tdiv (now - stamp div ns_per_s * ns_per_s) ns_per_s\<bar> > w"
proof -
  have "stamp < 253402300800 * ns_per_s" using assms(2) by simp
  then obtain g where g: "get_time (tx_timestamp tx) = Some g" "timegm g = stamp div ns_per_s"
    using format_now_parsed[OF assms(1)] assms(5) by (auto simp: currentTimestamp_def)
  have "0 \<le> stamp div ns_per_s" using assms(1) by (simp add: pos_imp_zdiv_nonneg_iff)
  moreover have "stamp div ns_per_s \<le> (2 ^ 63 - 1) div ns_per_s"
    using assms(2) by (intro zdiv_mono1) auto
  ultimately show ?thesis
    using isExpired_in_range[OF g(1)] g(2) assms(3,4) by simp
qed

theorem isExpired_exact_witness:
  "isExpired (400 * ns_per_s) 300 (empty_tx\<lparr>tx_timestamp := currentTimestamp 0\<rparr>)"
  using isExpired_exact[of 0 "400 * ns_per_s" "empty_tx\<lparr>tx_timestamp := currentTimestamp 0\<rparr>" 300]
  by (simp add: tdiv_def)

end
