(* ===== verification/Block.thy ===== *)
theory Block
  imports Transaction
begin

text \<open>
  \<^verbatim>\<open>include/block/block.h\<close>, \<^verbatim>\<open>src/block/block.cpp\<close>: the block record, its Merkle root and hash,
  the proof-of-work search, validation, and the JSON form. The search may run forever, so
  \<open>mineBlock\<close> returns an option and \<^const>\<open>None\<close> means that the call does not return.
\<close>

section \<open>Data and operations\<close>

record Block =
  bk_index :: u64
  bk_timestamp :: string
  previousHash :: string
  transactions :: "Transaction list"
  merkleRoot :: string
  bk_nonce :: u64
  difficulty :: u32
  hash :: string

definition default_block :: Block where
  "default_block =
     \<lparr>bk_index = 0, bk_timestamp = [], previousHash = [], transactions = [], merkleRoot = [],
      bk_nonce = 0, difficulty = 1, hash = []\<rparr>"

definition merkle_leaf :: "openssl \<Rightarrow> Transaction \<Rightarrow> string" where
  "merkle_leaf ossl tx =
     (if txID tx = []
      then sha256 ossl (senderPublicKey tx @ receiverPublicKey tx @ payload tx @ tx_timestamp tx)
      else txID tx)"

fun merkle_level :: "openssl \<Rightarrow> string list \<Rightarrow> string list" where
  "merkle_level ossl [] = []"
| "merkle_level ossl [h] = [sha256 ossl (h @ h)]"
| "merkle_level ossl (h # k # hs) = sha256 ossl (h @ k) # merkle_level ossl hs"

lemma length_merkle_level: "length (merkle_level ossl hs) = (length hs + 1) div 2"
  by (induction ossl hs rule: merkle_level.induct) auto

function merkle_loop :: "openssl \<Rightarrow> string list \<Rightarrow> string" where
  "merkle_loop ossl hashes =
     (if 1 < length hashes then merkle_loop ossl (merkle_level ossl hashes) else hd hashes)"
  by pat_completeness auto
termination
  by (relation "measure (\<lambda>(_, hs). length hs)") (auto simp: length_merkle_level)

declare merkle_loop.simps [simp del]

definition computeMerkleRoot :: "openssl \<Rightarrow> Block \<Rightarrow> string" where
  "computeMerkleRoot ossl b =
     (if transactions b = [] then sha256 ossl []
      else merkle_loop ossl (map (merkle_leaf ossl) (transactions b)))"

text \<open>The constructor with parameters; \<open>now\<close> is the clock reading.\<close>

definition new_block ::
  "openssl \<Rightarrow> int \<Rightarrow> u64 \<Rightarrow> string \<Rightarrow> Transaction list \<Rightarrow> u32 \<Rightarrow> Block" where
  "new_block ossl now idx prevHash txs diff =
     (let b = \<lparr>bk_index = idx, bk_timestamp = format_now now, previousHash = prevHash,
               transactions = txs, merkleRoot = [], bk_nonce = 0, difficulty = diff, hash = []\<rparr>
      in b\<lparr>merkleRoot := computeMerkleRoot ossl b\<rparr>)"

definition hash_input :: "Block \<Rightarrow> string" where
  "hash_input b =
     to_string (bk_index b) @ bk_timestamp b @ merkleRoot b @ previousHash b @
     to_string (bk_nonce b) @ to_string (difficulty b)"

definition calculateHash :: "openssl \<Rightarrow> Block \<Rightarrow> string" where
  "calculateHash ossl b = sha256 ossl (hash_input b)"

definition meets_target :: "u32 \<Rightarrow> string \<Rightarrow> bool" where
  "meets_target d h \<longleftrightarrow> take (unat d) h = replicate (unat d) CHR ''0''"

partial_function (option) mine_loop :: "openssl \<Rightarrow> Block \<Rightarrow> Block option" where
  "mine_loop ossl b =
     (if meets_target (difficulty b) (hash b) then Some b
      else (let b' = b\<lparr>bk_nonce := bk_nonce b + 1\<rparr>
            in mine_loop ossl (b'\<lparr>hash := calculateHash ossl b'\<rparr>)))"

definition mineBlock :: "openssl \<Rightarrow> Block \<Rightarrow> Block option" where
  "mineBlock ossl b =
     (let b1 = b\<lparr>merkleRoot := computeMerkleRoot ossl b\<rparr>;
          b2 = b1\<lparr>bk_nonce := 0\<rparr>
      in mine_loop ossl (b2\<lparr>hash := calculateHash ossl b2\<rparr>))"

definition isValid :: "openssl \<Rightarrow> Block \<Rightarrow> bool" where
  "isValid ossl b =
     (if hash b \<noteq> calculateHash ossl b then False
      else if \<not> meets_target (difficulty b) (hash b) then False
      else if merkleRoot b \<noteq> computeMerkleRoot ossl b then False
      else True)"

fun all_verify :: "openssl \<Rightarrow> Transaction list \<Rightarrow> bool" where
  "all_verify ossl [] = True"
| "all_verify ossl (tx # txs) = (if \<not> verify_tx ossl tx then False else all_verify ossl txs)"

definition hasValidTransactions :: "openssl \<Rightarrow> Block \<Rightarrow> bool" where
  "hasValidTransactions ossl b = all_verify ossl (transactions b)"

definition block_toJson :: "Block \<Rightarrow> json" where
  "block_toJson b = jobj
     [(''index'', JUInt (bk_index b)),
      (''timestamp'', JStr (bk_timestamp b)),
      (''previousHash'', JStr (previousHash b)),
      (''merkleRoot'', JStr (merkleRoot b)),
      (''nonce'', JUInt (bk_nonce b)),
      (''difficulty'', JUInt (ucast (difficulty b))),
      (''hash'', JStr (hash b)),
      (''transactions'', JArr (map tx_toJson (transactions b)))]"

definition block_fromJson :: "openssl \<Rightarrow> json \<Rightarrow> Block result" where
  "block_fromJson ossl j =
     ebind (jvalue get_u64 ''index'' 0 j) (\<lambda>v1.
     ebind (jvalue get_str ''timestamp'' [] j) (\<lambda>v2.
     ebind (jvalue get_str ''previousHash'' [] j) (\<lambda>v3.
     ebind (jvalue get_str ''merkleRoot'' [] j) (\<lambda>v4.
     ebind (jvalue get_u64 ''nonce'' 0 j) (\<lambda>v5.
     ebind (jvalue get_u32 ''difficulty'' 1 j) (\<lambda>v6.
     ebind (jvalue get_str ''hash'' [] j) (\<lambda>v7.
     ebind (if jcontains j ''transactions'' \<and> is_array (jfield j ''transactions'')
            then emap (tx_fromJson ossl) (jelems (jfield j ''transactions''))
            else Inr []) (\<lambda>txs.
       Inr \<lparr>bk_index = v1, bk_timestamp = v2, previousHash = v3, transactions = txs,
            merkleRoot = v4, bk_nonce = v5, difficulty = v6, hash = v7\<rparr>))))))))"

definition genesis_timestamp :: string where
  "genesis_timestamp = ''2026-01-01T00:00:00Z''"

definition genesis_coinbase :: "openssl \<Rightarrow> Transaction" where
  "genesis_coinbase ossl =
     computeTxID ossl (empty_tx\<lparr>senderPublicKey := ''COINBASE'', fromAddress := ''COINBASE'',
       toAddress := ''GENESIS'', receiverPublicKey := [], amount := 50,
       payload := ''Genesis Block'', tx_timestamp := genesis_timestamp\<rparr>)"

definition createGenesis :: "openssl \<Rightarrow> u32 \<Rightarrow> Block option" where
  "createGenesis ossl diff =
     (let g = default_block\<lparr>bk_index := 0, previousHash := replicate 64 CHR ''0'',
                 difficulty := diff, bk_timestamp := genesis_timestamp,
                 transactions := [genesis_coinbase ossl]\<rparr>;
          g = g\<lparr>merkleRoot := computeMerkleRoot ossl g\<rparr>
      in mineBlock ossl g)"


section \<open>Frame lemmas\<close>

lemma computeMerkleRoot_frame [simp]:
  "computeMerkleRoot ossl (b\<lparr>merkleRoot := x\<rparr>) = computeMerkleRoot ossl b"
  "computeMerkleRoot ossl (b\<lparr>bk_nonce := n\<rparr>) = computeMerkleRoot ossl b"
  "computeMerkleRoot ossl (b\<lparr>hash := h\<rparr>) = computeMerkleRoot ossl b"
  "computeMerkleRoot ossl (b\<lparr>difficulty := d\<rparr>) = computeMerkleRoot ossl b"
  by (simp_all add: computeMerkleRoot_def)

lemma calculateHash_frame [simp]:
  "calculateHash ossl (b\<lparr>hash := h\<rparr>) = calculateHash ossl b"
  "calculateHash ossl (b\<lparr>transactions := ts\<rparr>) = calculateHash ossl b"
  by (simp_all add: calculateHash_def hash_input_def)

lemma all_verify_iff: "all_verify ossl txs \<longleftrightarrow> (\<forall>tx \<in> set txs. verify_tx ossl tx)"
  by (induction txs) auto

lemma hasValidTransactions_iff:
  "hasValidTransactions ossl b \<longleftrightarrow> (\<forall>tx \<in> set (transactions b). verify_tx ossl tx)"
  by (simp add: hasValidTransactions_def all_verify_iff)

lemma isValid_iff:
  "isValid ossl b \<longleftrightarrow> hash b = calculateHash ossl b \<and> meets_target (difficulty b) (hash b) \<and>
     merkleRoot b = computeMerkleRoot ossl b"
  by (simp add: isValid_def)


section \<open>The proof-of-work search\<close>

text \<open>The block as the search presents it to the hash function with a given nonce.\<close>

definition with_nonce :: "openssl \<Rightarrow> Block \<Rightarrow> u64 \<Rightarrow> Block" where
  "with_nonce ossl b n = (let b' = b\<lparr>bk_nonce := n\<rparr> in b'\<lparr>hash := calculateHash ossl b'\<rparr>)"

definition solves :: "openssl \<Rightarrow> Block \<Rightarrow> u64 \<Rightarrow> bool" where
  "solves ossl b n \<longleftrightarrow> meets_target (difficulty b) (calculateHash ossl (b\<lparr>bk_nonce := n\<rparr>))"

lemma with_nonce_sel [simp]:
  "difficulty (with_nonce ossl b n) = difficulty b"
  "transactions (with_nonce ossl b n) = transactions b"
  "merkleRoot (with_nonce ossl b n) = merkleRoot b"
  "bk_index (with_nonce ossl b n) = bk_index b"
  "previousHash (with_nonce ossl b n) = previousHash b"
  "bk_timestamp (with_nonce ossl b n) = bk_timestamp b"
  "bk_nonce (with_nonce ossl b n) = n"
  "hash (with_nonce ossl b n) = calculateHash ossl (b\<lparr>bk_nonce := n\<rparr>)"
  by (simp_all add: with_nonce_def Let_def)

lemma calculateHash_with_nonce [simp]:
  "calculateHash ossl (with_nonce ossl b n) = hash (with_nonce ossl b n)"
  by (simp add: calculateHash_def hash_input_def)

lemma computeMerkleRoot_with_nonce [simp]:
  "computeMerkleRoot ossl (with_nonce ossl b n) = computeMerkleRoot ossl b"
  by (simp add: computeMerkleRoot_def)

lemma with_nonce_twice [simp]: "with_nonce ossl (with_nonce ossl b m) n = with_nonce ossl b n"
  by (simp add: with_nonce_def Let_def calculateHash_def hash_input_def)

lemma next_nonce:
  "(b\<lparr>bk_nonce := n\<rparr>)\<lparr>hash := calculateHash ossl (b\<lparr>bk_nonce := n\<rparr>)\<rparr> = with_nonce ossl b n"
  by (simp add: with_nonce_def Let_def)

lemma solves_with_nonce [simp]: "solves ossl (with_nonce ossl b m) n = solves ossl b n"
  by (simp add: solves_def calculateHash_def hash_input_def)

lemma mine_loop_unfold:
  "mine_loop ossl b =
     (if meets_target (difficulty b) (hash b) then Some b
      else mine_loop ossl (with_nonce ossl b (bk_nonce b + 1)))"
  by (subst mine_loop.simps) (simp add: Let_def next_nonce)

lemma mine_loop_step:
  "mine_loop ossl (with_nonce ossl b n) =
     (if solves ossl b n then Some (with_nonce ossl b n)
      else mine_loop ossl (with_nonce ossl b (n + 1)))"
  by (subst mine_loop_unfold) (simp add: solves_def)

lemma mine_loop_finds:
  assumes "solves ossl b (of_nat (k + j))" "\<And>i. i < j \<Longrightarrow> \<not> solves ossl b (of_nat (k + i))"
  shows "mine_loop ossl (with_nonce ossl b (of_nat k)) = Some (with_nonce ossl b (of_nat (k + j)))"
  using assms
proof (induction j arbitrary: k)
  case 0
  then show ?case by (simp add: mine_loop_step)
next
  case (Suc j)
  have "\<not> solves ossl b (of_nat k)" using Suc.prems(2)[of 0] by simp
  moreover have "mine_loop ossl (with_nonce ossl b (of_nat (Suc k))) =
      Some (with_nonce ossl b (of_nat (Suc k + j)))"
    using Suc.prems(1) Suc.prems(2)[of "Suc i" for i] by (intro Suc.IH) (auto simp: add_ac)
  ultimately show ?case by (simp add: mine_loop_step add_ac)
qed

lemma with_nonce_self: "hash b = calculateHash ossl b \<Longrightarrow> with_nonce ossl b (bk_nonce b) = b"
  by (simp add: with_nonce_def Let_def)

lemma mine_loop_result:
  assumes "mine_loop ossl b = Some r" "hash b = calculateHash ossl b"
  shows "r = with_nonce ossl b (bk_nonce r) \<and> solves ossl b (bk_nonce r)"
proof (rule mine_loop.raw_induct[where P = "\<lambda>ossl b r. hash b = calculateHash ossl b \<longrightarrow>
      r = with_nonce ossl b (bk_nonce r) \<and> solves ossl b (bk_nonce r)", OF _ assms(1), THEN mp, OF _ assms(2)],
    rule impI)
  fix f :: "openssl \<Rightarrow> Block \<Rightarrow> Block option" and ossl b r
  assume IH: "\<And>ossl b r. f ossl b = Some r \<Longrightarrow> hash b = calculateHash ossl b \<longrightarrow>
      r = with_nonce ossl b (bk_nonce r) \<and> solves ossl b (bk_nonce r)"
    and eq: "(if meets_target (difficulty b) (hash b) then Some b
      else (let b' = b\<lparr>bk_nonce := bk_nonce b + 1\<rparr>
            in f ossl (b'\<lparr>hash := calculateHash ossl b'\<rparr>))) = Some r"
    and h: "hash b = calculateHash ossl b"
  show "r = with_nonce ossl b (bk_nonce r) \<and> solves ossl b (bk_nonce r)"
  proof (cases "meets_target (difficulty b) (hash b)")
    case True
    with eq have "r = b" by simp
    with True h show ?thesis by (simp add: with_nonce_self solves_def)
  next
    case False
    with eq have "f ossl (with_nonce ossl b (bk_nonce b + 1)) = Some r"
      by (simp add: Let_def next_nonce)
    from IH[OF this] show ?thesis by (metis calculateHash_with_nonce solves_with_nonce with_nonce_twice)
  qed
qed

lemma mineBlock_unfold:
  "mineBlock ossl b = mine_loop ossl (with_nonce ossl (b\<lparr>merkleRoot := computeMerkleRoot ossl b\<rparr>) 0)"
  by (simp add: mineBlock_def with_nonce_def Let_def)

lemma mineBlock_result:
  assumes "mineBlock ossl b = Some r"
  shows "\<exists>n. r = with_nonce ossl (b\<lparr>merkleRoot := computeMerkleRoot ossl b\<rparr>) n \<and>
    solves ossl (b\<lparr>merkleRoot := computeMerkleRoot ossl b\<rparr>) n"
  using mine_loop_result[OF assms[unfolded mineBlock_unfold]] by auto

lemma mineBlock_least:
  assumes "solves ossl (b\<lparr>merkleRoot := computeMerkleRoot ossl b\<rparr>) n"
  shows "\<exists>m. unat m \<le> unat n \<and>
    (\<forall>i. unat i < unat m \<longrightarrow> \<not> solves ossl (b\<lparr>merkleRoot := computeMerkleRoot ossl b\<rparr>) i) \<and>
    mineBlock ossl b = Some (with_nonce ossl (b\<lparr>merkleRoot := computeMerkleRoot ossl b\<rparr>) m)"
proof -
  let ?b = "b\<lparr>merkleRoot := computeMerkleRoot ossl b\<rparr>"
  define m where "m = (LEAST k. solves ossl ?b (of_nat k))"
  have ex: "solves ossl ?b (of_nat (unat n))" using assms by simp
  have m: "solves ossl ?b (of_nat m)" "\<And>k. k < m \<Longrightarrow> \<not> solves ossl ?b (of_nat k)"
    unfolding m_def using ex by (rule LeastI, intro not_less_Least)
  have le: "m \<le> unat n" unfolding m_def using ex by (rule Least_le)
  have "unat n < 18446744073709551616" using unsigned_less[of n] by simp
  with le have u: "unat (of_nat m :: u64) = m" by (simp add: unat_of_nat)
  have "\<not> solves ossl ?b i" if "unat i < m" for i
    using m(2)[OF that] by simp
  moreover have "mineBlock ossl b = Some (with_nonce ossl ?b (of_nat m))"
    using mine_loop_finds[of ossl ?b 0 m] m by (simp add: mineBlock_unfold)
  ultimately show ?thesis using le u by (intro exI[of _ "of_nat m"]) simp
qed

lemma mineBlock_valid:
  assumes "mineBlock ossl b = Some r"
  shows "isValid ossl r" "transactions r = transactions b" "bk_index r = bk_index b"
    "previousHash r = previousHash b" "bk_timestamp r = bk_timestamp b" "difficulty r = difficulty b"
  using mineBlock_result[OF assms] by (auto simp: isValid_iff solves_def)

section \<open>The Merkle root\<close>

lemma merkle_level_duplicate:
  "odd (length hs) \<Longrightarrow> merkle_level ossl (hs @ [last hs]) = merkle_level ossl hs"
  by (induction ossl hs rule: merkle_level.induct) (auto simp: Suc_le_eq)

lemma merkle_loop_duplicate:
  assumes "odd (length hs)" "1 < length hs"
  shows "merkle_loop ossl (hs @ [last hs]) = merkle_loop ossl hs"
proof -
  have "merkle_loop ossl (hs @ [last hs]) = merkle_loop ossl (merkle_level ossl (hs @ [last hs]))"
    using assms(2) by (subst merkle_loop.simps) auto
  also have "\<dots> = merkle_loop ossl (merkle_level ossl hs)"
    by (simp only: merkle_level_duplicate[OF assms(1)])
  also have "\<dots> = merkle_loop ossl hs"
    using assms(2) by (simp add: merkle_loop.simps[of ossl hs])
  finally show ?thesis .
qed

lemma computeMerkleRoot_duplicate:
  assumes "odd (length (transactions b))" "1 < length (transactions b)"
  shows "computeMerkleRoot ossl (b\<lparr>transactions := transactions b @ [last (transactions b)]\<rparr>) =
    computeMerkleRoot ossl b"
  using assms merkle_loop_duplicate[of "map (merkle_leaf ossl) (transactions b)" ossl]
  by (auto simp: computeMerkleRoot_def last_map)

text \<open>The two inputs are no collision of the hash function.\<close>

definition no_collision :: "openssl \<Rightarrow> string \<Rightarrow> string \<Rightarrow> bool" where
  "no_collision ossl a b \<longleftrightarrow> (sha256 ossl a = sha256 ossl b \<longrightarrow> a = b)"

lemma no_collision_refl [simp]: "no_collision ossl a a"
  by (simp add: no_collision_def)

text \<open>What the computation of a root hashes, level by level.\<close>

fun level_inputs :: "string list \<Rightarrow> string list" where
  "level_inputs [] = []"
| "level_inputs [h] = [h @ h]"
| "level_inputs (h # k # hs) = (h @ k) # level_inputs hs"

function merkle_inputs :: "openssl \<Rightarrow> string list \<Rightarrow> string list" where
  "merkle_inputs ossl hs =
     (if 1 < length hs then level_inputs hs @ merkle_inputs ossl (merkle_level ossl hs) else [])"
  by pat_completeness auto
termination
  by (relation "measure (\<lambda>(_, hs). length hs)") (auto simp: length_merkle_level)

declare merkle_inputs.simps [simp del]

definition no_collisions :: "openssl \<Rightarrow> string list \<Rightarrow> string list \<Rightarrow> bool" where
  "no_collisions ossl as bs \<longleftrightarrow> (\<forall>(a, b) \<in> set (zip as bs). no_collision ossl a b)"

lemma length_level_inputs: "length (level_inputs hs) = (length hs + 1) div 2"
  by (induction hs rule: level_inputs.induct) auto

lemma merkle_level_length64:
  "digest_ok ossl \<Longrightarrow> x \<in> set (merkle_level ossl hs) \<Longrightarrow> length x = 64"
  by (induction ossl hs rule: merkle_level.induct) (auto simp: length_sha256)

lemma merkle_level_inject:
  assumes "no_collisions ossl (level_inputs xs) (level_inputs ys)" "length xs = length ys"
    and "\<And>x. x \<in> set xs \<union> set ys \<Longrightarrow> length x = 64"
    and "merkle_level ossl xs = merkle_level ossl ys"
  shows "xs = ys"
  using assms
proof (induction ossl xs arbitrary: ys rule: merkle_level.induct)
  case (2 ossl h)
  then obtain k where k: "ys = [k]" by (cases ys) auto
  with 2 have "h @ h = k @ k" "length h = length k" by (auto simp: no_collisions_def no_collision_def)
  with k show ?case by simp
next
  case (3 ossl h k hs)
  then obtain h' k' hs' where ys: "ys = h' # k' # hs'"
    by (cases ys; cases "tl ys") auto
  with 3 have "h @ k = h' @ k'" by (auto simp: no_collisions_def no_collision_def)
  moreover have "length h = length h'" using 3 ys by auto
  moreover have "hs = hs'" using 3 ys by (intro "3.IH") (auto simp: no_collisions_def)
  ultimately show ?case using ys by simp
qed simp

lemma merkle_loop_inject:
  assumes "no_collisions ossl (merkle_inputs ossl xs) (merkle_inputs ossl ys)" "digest_ok ossl"
    and "length xs = length ys" "\<And>x. x \<in> set xs \<union> set ys \<Longrightarrow> length x = 64"
    and "merkle_loop ossl xs = merkle_loop ossl ys"
  shows "xs = ys"
  using assms
proof (induction ossl xs arbitrary: ys rule: merkle_loop.induct)
  case (1 ossl xs)
  show ?case
  proof (cases "1 < length xs")
    case True
    have nc: "no_collisions ossl (level_inputs xs) (level_inputs ys)"
        "no_collisions ossl (merkle_inputs ossl (merkle_level ossl xs)) (merkle_inputs ossl (merkle_level ossl ys))"
      using "1.prems"(1,3) True
      by (auto simp: merkle_inputs.simps[of ossl xs] merkle_inputs.simps[of ossl ys] no_collisions_def
          zip_append length_level_inputs)
    with 1 True have "merkle_loop ossl (merkle_level ossl xs) = merkle_loop ossl (merkle_level ossl ys)"
      by (simp add: merkle_loop.simps[of ossl xs] merkle_loop.simps[of ossl ys])
    with 1 True nc have "merkle_level ossl xs = merkle_level ossl ys"
      by (intro "1.IH") (auto simp: length_merkle_level merkle_level_length64)
    with nc(1) "1.prems"(3,4) show ?thesis by (rule merkle_level_inject)
  next
    case False
    with 1 show ?thesis
      by (cases xs; cases ys) (auto simp: merkle_loop.simps[of ossl "[_]"])
  qed
qed


section \<open>JSON form\<close>

lemma block_fromJson_toJson:
  "block_fromJson ossl (block_toJson b) =
     Inr (b\<lparr>transactions := map (tx_backfill ossl) (transactions b)\<rparr>)"
proof -
  have "emap (tx_fromJson ossl) (map tx_toJson txs) = Inr (map (tx_backfill ossl) txs)" for txs
    by (induction txs) (simp_all add: tx_fromJson_toJson)
  then show ?thesis
    by (cases b) (simp add: block_fromJson_def block_toJson_def is_array_def jelems_def get_u32_widened
        del: get_u32_JUInt)
qed

lemma block_fromJson_toJson_complete:
  assumes "\<forall>tx \<in> set (transactions b). tx_complete tx"
  shows "block_fromJson ossl (block_toJson b) = Inr b"
proof -
  have "map (tx_backfill ossl) (transactions b) = transactions b"
    using assms by (simp add: map_idI tx_backfill_complete)
  then show ?thesis by (simp add: block_fromJson_toJson)
qed

section \<open>Properties\<close>

text \<open>
  C21. The proof-of-work search returns exactly when some 64-bit nonce gives a hash with the
  required number of leading zeros; it then returns the block with the least such nonce, and
  the block is valid and otherwise unchanged. In every other case the call never returns.
\<close>

theorem mineBlock_returns_iff_solvable:
  fixes ossl :: openssl and b :: Block
  defines "b' \<equiv> b\<lparr>merkleRoot := computeMerkleRoot ossl b\<rparr>"
  shows "(mineBlock ossl b \<noteq> None \<longleftrightarrow> (\<exists>n. solves ossl b' n)) \<and>
    (\<forall>r. mineBlock ossl b = Some r \<longrightarrow>
       isValid ossl r \<and> r = with_nonce ossl b' (bk_nonce r) \<and>
       (\<forall>i. unat i < unat (bk_nonce r) \<longrightarrow> \<not> solves ossl b' i))"
proof (intro conjI allI impI)
  show "mineBlock ossl b \<noteq> None \<longleftrightarrow> (\<exists>n. solves ossl b' n)"
    using mineBlock_least[of ossl b] mineBlock_result[of ossl b] unfolding b'_def
    by (cases "mineBlock ossl b") fastforce+
  fix r assume r: "mineBlock ossl b = Some r"
  then obtain n where n: "r = with_nonce ossl b' n" "solves ossl b' n"
    using mineBlock_result unfolding b'_def by blast
  then show "r = with_nonce ossl b' (bk_nonce r)" by simp
  show "isValid ossl r" using r by (rule mineBlock_valid)
  fix i :: u64 assume i: "unat i < unat (bk_nonce r)"
  from n(2) obtain m where "\<forall>i. unat i < unat m \<longrightarrow> \<not> solves ossl b' i"
    "mineBlock ossl b = Some (with_nonce ossl b' m)"
    using mineBlock_least unfolding b'_def by blast
  with r i show "\<not> solves ossl b' i" by auto
qed

lemma demo_sha256_zero: "take 62 (sha256 demo_openssl m) = replicate 62 CHR ''0''"
proof -
  have "concat (map hex_byte (replicate n 0)) = replicate (2 * n) CHR ''0''" for n
    by (induction n) (simp_all add: hex_byte_def hex_digit_def char_of_eq_iff)
  from this[of 31] show ?thesis by (simp add: sha256_def demo_openssl_def)
qed

lemma demo_solves: "unat (difficulty b) \<le> 62 \<Longrightarrow> solves demo_openssl b n"
proof -
  assume d: "unat (difficulty b) \<le> 62"
  have "take (unat (difficulty b)) (take 62 (sha256 demo_openssl m)) = replicate (unat (difficulty b)) CHR ''0''" for m
    unfolding demo_sha256_zero using d by simp
  then show ?thesis using d by (simp add: solves_def meets_target_def calculateHash_def min_def)
qed

theorem mineBlock_returns_iff_solvable_witness:
  "\<exists>r. mineBlock demo_openssl default_block = Some r \<and> isValid demo_openssl r"
proof -
  have "\<exists>n. solves demo_openssl (default_block\<lparr>merkleRoot := computeMerkleRoot demo_openssl default_block\<rparr>) n"
    by (intro exI[of _ 0] demo_solves) (simp add: default_block_def)
  then show ?thesis
    using mineBlock_returns_iff_solvable[of demo_openssl default_block] by blast
qed

text \<open>
  A difficulty above 64 can never be met, because a hash has 64 hexadecimal digits: mining
  such a block does not return.
\<close>

theorem mineBlock_difficulty_above_64:
  assumes "digest_ok ossl" "64 < unat (difficulty b)"
  shows "mineBlock ossl b = None"
proof (rule ccontr)
  assume "mineBlock ossl b \<noteq> None"
  then obtain n where "solves ossl (b\<lparr>merkleRoot := computeMerkleRoot ossl b\<rparr>) n"
    using mineBlock_result by blast
  then have "take (unat (difficulty b)) (calculateHash ossl (b\<lparr>merkleRoot := computeMerkleRoot ossl b, bk_nonce := n\<rparr>))
      = replicate (unat (difficulty b)) CHR ''0''"
    by (simp add: solves_def meets_target_def)
  then have "min 64 (unat (difficulty b)) = unat (difficulty b)"
    using length_sha256[OF assms(1)] by (metis calculateHash_def length_replicate length_take)
  with assms(2) show False by simp
qed

theorem mineBlock_difficulty_above_64_witness:
  "mineBlock demo_openssl (default_block\<lparr>difficulty := 65\<rparr>) = None"
  by (rule mineBlock_difficulty_above_64[OF demo_digest_ok]) simp

text \<open>
  C29. Repeating the last transaction of a block with an odd number (at least three) of
  transactions leaves the Merkle root and therefore the hash unchanged: the extended block
  passes validation under the same hash.
\<close>

theorem duplicated_last_transaction_still_valid:
  assumes "isValid ossl b" "odd (length (transactions b))" "1 < length (transactions b)"
  shows "isValid ossl (b\<lparr>transactions := transactions b @ [last (transactions b)]\<rparr>)"
  using assms computeMerkleRoot_duplicate[OF assms(2,3), of ossl] by (auto simp: isValid_iff)

theorem duplicated_last_transaction_still_valid_witness:
  "\<exists>b. length (transactions b) = 3 \<and> isValid demo_openssl b \<and>
     isValid demo_openssl (b\<lparr>transactions := transactions b @ [last (transactions b)]\<rparr>)"
proof -
  let ?b = "default_block\<lparr>transactions := [empty_tx, empty_tx, empty_tx]\<rparr>"
  obtain r where r: "mineBlock demo_openssl ?b = Some r"
    using mineBlock_least[OF demo_solves, of ?b] by (auto simp: default_block_def)
  have "isValid demo_openssl r" "length (transactions r) = 3"
    using mineBlock_valid[OF r] by simp_all
  then show ?thesis using duplicated_last_transaction_still_valid[of demo_openssl r] by auto
qed



text \<open>
  C25. Writing a block as JSON and reading it back gives the same block, when its transactions
  have nothing for the backward-compatibility defaults to fill in.
\<close>

theorem block_json_roundtrip:
  assumes "\<forall>tx \<in> set (transactions b). tx_complete tx"
  shows "block_fromJson ossl (block_toJson b) = Inr b"
  using assms by (rule block_fromJson_toJson_complete)

theorem block_json_roundtrip_witness:
  "let b = default_block\<lparr>transactions := [genesis_coinbase demo_openssl], bk_nonce := 9\<rparr>
   in block_fromJson demo_openssl (block_toJson b) = Inr b"
  unfolding Let_def
  by (rule block_json_roundtrip)
    (simp add: tx_complete_def genesis_coinbase_def computeTxID_def isCoinbase_def)

text \<open>
  The hashed header does not separate nonce and difficulty: a block with nonce 11 and
  difficulty 2 has the same hash as the block with nonce 1 and difficulty 12.
\<close>

theorem header_nonce_difficulty_ambiguous:
  "calculateHash ossl (b\<lparr>bk_nonce := 11, difficulty := 2\<rparr>) =
   calculateHash ossl (b\<lparr>bk_nonce := 1, difficulty := 12\<rparr>)"
  by (simp add: calculateHash_def hash_input_def to_string_def dec.simps)

end
