(* ===== verification/State_Manager.thy ===== *)
theory State_Manager
  imports Block
begin

text \<open>
  \<^verbatim>\<open>include/state/state_manager.h\<close>, \<^verbatim>\<open>src/state/state_manager.cpp\<close>: balances, nonces, spent
  identifiers and per-address histories derived from the confirmed blocks. The mutex of the
  class serialises its public methods, so each method is one step on the state.
\<close>

section \<open>Data and operations\<close>

record StateManager =
  ownershipMap :: "string \<rightharpoonup> string set"
  spentTxIDs :: "string set"
  balances :: "string \<rightharpoonup> u64"
  lastNonceMap :: "string \<rightharpoonup> u64"
  transactionsByAddress :: "string \<rightharpoonup> Transaction list"

definition clear_state :: StateManager where
  "clear_state =
     \<lparr>ownershipMap = Map.empty, spentTxIDs = {}, balances = Map.empty,
      lastNonceMap = Map.empty, transactionsByAddress = Map.empty\<rparr>"

text \<open>\<^verbatim>\<open>m[k]\<close> creates the entry with a default value if it is missing.\<close>

definition at_default :: "'v \<Rightarrow> (string \<rightharpoonup> 'v) \<Rightarrow> string \<Rightarrow> 'v" where
  "at_default d m k = (case m k of Some v \<Rightarrow> v | None \<Rightarrow> d)"

definition credit_tx :: "Transaction \<Rightarrow> StateManager \<Rightarrow> StateManager" where
  "credit_tx tx s =
     (if toAddress tx \<noteq> [] then
        s\<lparr>balances := (balances s)(toAddress tx \<mapsto> at_default 0 (balances s) (toAddress tx) + amount tx),
          transactionsByAddress := (transactionsByAddress s)
            (toAddress tx \<mapsto> at_default [] (transactionsByAddress s) (toAddress tx) @ [tx])\<rparr>
      else s)"

definition debit_tx :: "Transaction \<Rightarrow> StateManager \<Rightarrow> StateManager" where
  "debit_tx tx s =
     (if isCoinbase tx then s
      else let s1 = s\<lparr>ownershipMap := (ownershipMap s)
                        (senderPublicKey tx \<mapsto>
                           insert (txID tx) (at_default {} (ownershipMap s) (senderPublicKey tx))),
                      spentTxIDs := insert (txID tx) (spentTxIDs s)\<rparr>
           in if fromAddress tx \<noteq> [] then
                s1\<lparr>balances :=
                     (case balances s1 (fromAddress tx) of
                        Some v \<Rightarrow> (balances s1)(fromAddress tx \<mapsto> (if v > amount tx then v - amount tx else 0))
                      | None \<Rightarrow> balances s1),
                   lastNonceMap := (lastNonceMap s1)
                     (fromAddress tx \<mapsto> max (at_default 0 (lastNonceMap s1) (fromAddress tx)) (tx_nonce tx)),
                   transactionsByAddress := (transactionsByAddress s1)
                     (fromAddress tx \<mapsto> at_default [] (transactionsByAddress s1) (fromAddress tx) @ [tx])\<rparr>
              else s1)"

definition apply_tx :: "Transaction \<Rightarrow> StateManager \<Rightarrow> StateManager" where
  "apply_tx tx s = debit_tx tx (credit_tx tx s)"

definition applyBlockState :: "Block \<Rightarrow> StateManager \<Rightarrow> StateManager" where
  "applyBlockState b s = fold apply_tx (transactions b) s"

definition applyBlock :: "Block \<Rightarrow> StateManager \<Rightarrow> StateManager" where
  "applyBlock b s = applyBlockState b s"

definition isDoubleSpend :: "StateManager \<Rightarrow> string \<Rightarrow> bool" where
  "isDoubleSpend s i \<longleftrightarrow> i \<in> spentTxIDs s"

definition rebuildState :: "Block list \<Rightarrow> StateManager" where
  "rebuildState chain = fold applyBlockState chain clear_state"

definition getTransactionCount :: "StateManager \<Rightarrow> string \<Rightarrow> nat" where
  "getTransactionCount s publicKey =
     (case ownershipMap s publicKey of Some ids \<Rightarrow> card ids | None \<Rightarrow> 0)"

definition getAllSpentTxIDs :: "StateManager \<Rightarrow> string set" where
  "getAllSpentTxIDs s = spentTxIDs s"

definition getBalance :: "StateManager \<Rightarrow> string \<Rightarrow> u64" where
  "getBalance s address = (case balances s address of None \<Rightarrow> 0 | Some v \<Rightarrow> v)"

definition getLastNonce :: "StateManager \<Rightarrow> string \<Rightarrow> u64" where
  "getLastNonce s address = (case lastNonceMap s address of None \<Rightarrow> 0 | Some v \<Rightarrow> v)"

definition getTransactionsForAddress :: "StateManager \<Rightarrow> string \<Rightarrow> Transaction list" where
  "getTransactionsForAddress s address =
     (case transactionsByAddress s address of None \<Rightarrow> [] | Some txs \<Rightarrow> txs)"


section \<open>One transaction\<close>

lemma getBalance_credit:
  "getBalance (credit_tx tx s) a =
     (if toAddress tx \<noteq> [] \<and> a = toAddress tx then getBalance s a + amount tx else getBalance s a)"
  by (auto simp: credit_tx_def getBalance_def at_default_def split: option.splits)

lemma getBalance_debit:
  "getBalance (debit_tx tx s) a =
     (if \<not> isCoinbase tx \<and> fromAddress tx \<noteq> [] \<and> a = fromAddress tx
      then (if getBalance s a > amount tx then getBalance s a - amount tx else 0)
      else getBalance s a)"
  by (auto simp: debit_tx_def getBalance_def Let_def split: option.splits)

lemma spent_apply_tx:
  "spentTxIDs (apply_tx tx s) = spentTxIDs s \<union> (if isCoinbase tx then {} else {txID tx})"
  by (auto simp: apply_tx_def credit_tx_def debit_tx_def Let_def)

lemma getLastNonce_apply_tx:
  "getLastNonce (apply_tx tx s) a =
     (if \<not> isCoinbase tx \<and> fromAddress tx \<noteq> [] \<and> a = fromAddress tx
      then max (getLastNonce s a) (tx_nonce tx) else getLastNonce s a)"
  by (auto simp: apply_tx_def credit_tx_def debit_tx_def getLastNonce_def at_default_def Let_def
      split: option.splits)

lemma history_apply_tx:
  "getTransactionsForAddress (apply_tx tx s) a = getTransactionsForAddress s a @
     (if toAddress tx \<noteq> [] \<and> a = toAddress tx then [tx] else []) @
     (if \<not> isCoinbase tx \<and> fromAddress tx \<noteq> [] \<and> a = fromAddress tx then [tx] else [])"
  by (auto simp: apply_tx_def credit_tx_def debit_tx_def getTransactionsForAddress_def at_default_def
      Let_def split: option.splits)


section \<open>The ledger in natural numbers\<close>

text \<open>Holdings, and what one transaction moves into and out of an address.\<close>

definition funds :: "StateManager \<Rightarrow> string \<Rightarrow> nat" where
  "funds s a = unat (getBalance s a)"

definition tx_in :: "Transaction \<Rightarrow> string \<Rightarrow> nat" where
  "tx_in tx a = (if toAddress tx \<noteq> [] \<and> a = toAddress tx then unat (amount tx) else 0)"

definition tx_out :: "Transaction \<Rightarrow> string \<Rightarrow> nat" where
  "tx_out tx a =
     (if \<not> isCoinbase tx \<and> fromAddress tx \<noteq> [] \<and> a = fromAddress tx then unat (amount tx) else 0)"

text \<open>
  A transaction is covered in a state when the credit does not overflow and the sender's
  balance after the credit is at least the amount, so that the debit is not cut off at 0.
\<close>

definition covered :: "Transaction \<Rightarrow> StateManager \<Rightarrow> bool" where
  "covered tx s \<longleftrightarrow> (\<forall>a. funds s a + tx_in tx a < 2 ^ 64 \<and> tx_out tx a \<le> funds s a + tx_in tx a)"

lemma funds_apply_tx:
  assumes "covered tx s"
  shows "funds (apply_tx tx s) a = funds s a + tx_in tx a - tx_out tx a"
proof -
  let ?c = "getBalance (credit_tx tx s) a"
  have le: "funds s a + tx_in tx a < 2 ^ 64" "tx_out tx a \<le> funds s a + tx_in tx a"
    using assms by (simp_all add: covered_def)
  have c: "unat ?c = funds s a + tx_in tx a"
    using le(1) by (auto simp: getBalance_credit funds_def tx_in_def unat_word_ariths)
  show ?thesis
  proof (cases "\<not> isCoinbase tx \<and> fromAddress tx \<noteq> [] \<and> a = fromAddress tx")
    case True
    with le(2) c have "unat (amount tx) \<le> unat ?c" by (simp add: tx_out_def)
    then have "unat (if ?c > amount tx then ?c - amount tx else 0) = unat ?c - unat (amount tx)"
      by (auto simp: word_less_nat_alt unat_sub_if')
    moreover have "getBalance (apply_tx tx s) a = (if ?c > amount tx then ?c - amount tx else 0)"
      using True by (simp add: apply_tx_def getBalance_debit)
    moreover have "tx_out tx a = unat (amount tx)" using True by (simp add: tx_out_def)
    ultimately have "unat (getBalance (apply_tx tx s) a) = unat ?c - tx_out tx a" by (simp only:)
    with c show ?thesis by (simp add: funds_def)
  next
    case False
    with c show ?thesis by (auto simp: funds_def apply_tx_def getBalance_debit tx_out_def)
  qed
qed

fun covered_seq :: "Transaction list \<Rightarrow> StateManager \<Rightarrow> bool" where
  "covered_seq [] s = True"
| "covered_seq (tx # txs) s = (covered tx s \<and> covered_seq txs (apply_tx tx s))"

definition txs_in :: "Transaction list \<Rightarrow> string \<Rightarrow> nat" where
  "txs_in txs a = sum_list (map (\<lambda>tx. tx_in tx a) txs)"

definition txs_out :: "Transaction list \<Rightarrow> string \<Rightarrow> nat" where
  "txs_out txs a = sum_list (map (\<lambda>tx. tx_out tx a) txs)"

lemma covered_seq_append:
  "covered_seq (xs @ ys) s \<longleftrightarrow> covered_seq xs s \<and> covered_seq ys (fold apply_tx xs s)"
  by (induction xs arbitrary: s) auto

lemma txs_in_simps [simp]:
  "txs_in [] a = 0" "txs_in (tx # txs) a = tx_in tx a + txs_in txs a"
  "txs_in (xs @ ys) a = txs_in xs a + txs_in ys a"
  by (simp_all add: txs_in_def)

lemma txs_out_simps [simp]:
  "txs_out [] a = 0" "txs_out (tx # txs) a = tx_out tx a + txs_out txs a"
  "txs_out (xs @ ys) a = txs_out xs a + txs_out ys a"
  by (simp_all add: txs_out_def)

lemma funds_covered_seq:
  "covered_seq txs s \<Longrightarrow> funds (fold apply_tx txs s) a + txs_out txs a = funds s a + txs_in txs a"
proof (induction txs arbitrary: s)
  case (Cons tx txs)
  then have "tx_out tx a \<le> funds s a + tx_in tx a" by (simp add: covered_def)
  moreover have "funds (apply_tx tx s) a = funds s a + tx_in tx a - tx_out tx a"
    using Cons.prems funds_apply_tx by simp
  moreover have "funds (fold apply_tx txs (apply_tx tx s)) a + txs_out txs a =
      funds (apply_tx tx s) a + txs_in txs a"
    using Cons by simp
  ultimately show ?case by simp
qed simp


section \<open>Total supply\<close>

definition total_supply :: "StateManager \<Rightarrow> nat" where
  "total_supply s = (\<Sum>a \<in> dom (balances s). funds s a)"

lemma dom_apply_tx:
  "dom (balances (apply_tx tx s)) = dom (balances s) \<union> (if toAddress tx = [] then {} else {toAddress tx})"
  by (auto simp: apply_tx_def credit_tx_def debit_tx_def Let_def split: option.splits if_splits)

lemma funds_outside: "a \<notin> dom (balances s) \<Longrightarrow> funds s a = 0"
  by (auto simp: funds_def getBalance_def split: option.splits)

lemma supply_superset:
  assumes "finite A" "dom (balances s) \<subseteq> A"
  shows "total_supply s = sum (funds s) A"
  unfolding total_supply_def using assms by (intro sum.mono_neutral_left) (use funds_outside in auto)

lemma funds_le_supply:
  assumes "finite (dom (balances s))"
  shows "funds s a \<le> total_supply s"
proof (cases "a \<in> dom (balances s)")
  case True
  with assms show ?thesis unfolding total_supply_def by (intro member_le_sum) auto
qed (simp add: funds_outside)

definition tx_minted :: "Transaction \<Rightarrow> nat" where
  "tx_minted tx = (if toAddress tx \<noteq> [] then unat (amount tx) else 0)"

definition tx_burned :: "Transaction \<Rightarrow> nat" where
  "tx_burned tx = (if \<not> isCoinbase tx \<and> fromAddress tx \<noteq> [] then unat (amount tx) else 0)"

lemma supply_apply_tx:
  assumes "covered tx s" "finite (dom (balances s))"
  shows "total_supply (apply_tx tx s) + tx_burned tx = total_supply s + tx_minted tx"
proof -
  define A where "A = dom (balances s) \<union> {toAddress tx, fromAddress tx}"
  have fin: "finite A" using assms(2) by (simp add: A_def)
  have "funds (apply_tx tx s) a + tx_out tx a = funds s a + tx_in tx a" for a
    using assms(1) funds_apply_tx[OF assms(1), of a] by (simp add: covered_def)
  then have "sum (funds (apply_tx tx s)) A + sum (tx_out tx) A = sum (funds s) A + sum (tx_in tx) A"
    by (simp flip: sum.distrib)
  moreover have "sum (tx_out tx) A = tx_burned tx"
  proof -
    have "tx_out tx = (\<lambda>a. if a = fromAddress tx then tx_burned tx else 0)"
      by (auto simp: tx_out_def tx_burned_def)
    then show ?thesis using fin by (simp add: A_def)
  qed
  moreover have "sum (tx_in tx) A = tx_minted tx"
  proof -
    have "tx_in tx = (\<lambda>a. if a = toAddress tx then tx_minted tx else 0)"
      by (auto simp: tx_in_def tx_minted_def)
    then show ?thesis using fin by (simp add: A_def)
  qed
  moreover have "total_supply s = sum (funds s) A" "total_supply (apply_tx tx s) = sum (funds (apply_tx tx s)) A"
  proof -
    have "dom (balances s) \<subseteq> A" "dom (balances (apply_tx tx s)) \<subseteq> A"
      unfolding A_def dom_apply_tx by (auto split: if_splits)
    with fin show "total_supply s = sum (funds s) A"
        "total_supply (apply_tx tx s) = sum (funds (apply_tx tx s)) A"
      by (blast intro: supply_superset)+
  qed
  ultimately show ?thesis by simp
qed

lemma finite_dom_fold: "finite (dom (balances s)) \<Longrightarrow> finite (dom (balances (fold apply_tx txs s)))"
  by (induction txs arbitrary: s) (auto simp: dom_apply_tx)

lemma supply_covered_seq:
  assumes "covered_seq txs s" "finite (dom (balances s))"
  shows "total_supply (fold apply_tx txs s) + sum_list (map tx_burned txs) =
    total_supply s + sum_list (map tx_minted txs)"
  using assms
proof (induction txs arbitrary: s)
  case (Cons tx txs)
  have "finite (dom (balances (apply_tx tx s)))" using Cons.prems(2) by (simp add: dom_apply_tx)
  with Cons have "total_supply (fold apply_tx txs (apply_tx tx s)) + sum_list (map tx_burned txs) =
      total_supply (apply_tx tx s) + sum_list (map tx_minted txs)" by simp
  with supply_apply_tx[of tx s] Cons.prems show ?case by simp
qed simp


section \<open>The ledger interface of the chain\<close>

text \<open>
  What the chain relies on: rebuilding from a longer chain is applying the new block to the
  state of the shorter one, and exactly the identifiers of applied blocks are spent.
\<close>

locale ledger =
  fixes init :: 's
    and apply_block :: "'b \<Rightarrow> 's \<Rightarrow> 's"
    and rebuild :: "'b list \<Rightarrow> 's"
    and spent :: "'s \<Rightarrow> string set"
    and ids :: "'b \<Rightarrow> string set"
  assumes rebuild_Nil: "rebuild [] = init"
    and rebuild_snoc: "rebuild (bs @ [b]) = apply_block b (rebuild bs)"
    and spent_init: "spent init = {}"
    and spent_apply: "spent (apply_block b s) = spent s \<union> ids b"
begin

lemma rebuild_append: "rebuild (bs @ cs) = fold apply_block cs (rebuild bs)"
proof (induction cs rule: rev_induct)
  case (snoc c cs)
  then show ?case using rebuild_snoc[of "bs @ cs" c] by simp
qed simp

lemma spent_rebuild: "spent (rebuild bs) = (\<Union>b \<in> set bs. ids b)"
proof (induction bs rule: rev_induct)
  case Nil
  show ?case by (simp add: rebuild_Nil spent_init)
next
  case (snoc b bs)
  then show ?case by (auto simp: rebuild_snoc spent_apply)
qed

lemma spent_mono: "set bs \<subseteq> set cs \<Longrightarrow> spent (rebuild bs) \<subseteq> spent (rebuild cs)"
  by (auto simp: spent_rebuild)

end

definition block_spends :: "Block \<Rightarrow> string set" where
  "block_spends b = txID ` {tx \<in> set (transactions b). \<not> isCoinbase tx}"

lemma spent_fold:
  "spentTxIDs (fold apply_tx txs s) = spentTxIDs s \<union> txID ` {tx \<in> set txs. \<not> isCoinbase tx}"
  by (induction txs arbitrary: s) (auto simp: spent_apply_tx)

lemma spent_applyBlockState: "spentTxIDs (applyBlockState b s) = spentTxIDs s \<union> block_spends b"
  by (simp add: applyBlockState_def spent_fold block_spends_def)

interpretation sm: ledger clear_state applyBlockState rebuildState spentTxIDs block_spends
  by unfold_locales (simp_all add: rebuildState_def spent_applyBlockState, simp add: clear_state_def)

lemma rebuildState_transactions: "rebuildState chain = fold apply_tx (concat (map transactions chain)) clear_state"
proof (induction chain rule: rev_induct)
  case Nil
  then show ?case by (simp add: sm.rebuild_Nil)
next
  case (snoc b chain)
  then show ?case by (simp add: sm.rebuild_snoc applyBlockState_def)
qed

lemma finite_dom_rebuild: "finite (dom (balances (rebuildState chain)))"
  unfolding rebuildState_transactions by (rule finite_dom_fold) (simp add: clear_state_def)


section \<open>Nonces and histories of a whole chain\<close>

definition chain_txs :: "Block list \<Rightarrow> Transaction list" where
  "chain_txs chain = concat (map transactions chain)"

definition spends_from :: "string \<Rightarrow> Transaction \<Rightarrow> bool" where
  "spends_from a tx \<longleftrightarrow> \<not> isCoinbase tx \<and> fromAddress tx \<noteq> [] \<and> fromAddress tx = a"

text \<open>A transfer of an address to itself is recorded twice, once per role.\<close>

definition history_entries :: "string \<Rightarrow> Transaction \<Rightarrow> Transaction list" where
  "history_entries a tx =
     (if toAddress tx \<noteq> [] \<and> toAddress tx = a then [tx] else []) @ (if spends_from a tx then [tx] else [])"

lemma getLastNonce_fold:
  "getLastNonce (fold apply_tx txs s) a =
     fold max (map tx_nonce (filter (spends_from a) txs)) (getLastNonce s a)"
  by (induction txs arbitrary: s) (auto simp: getLastNonce_apply_tx spends_from_def max.commute)

lemma history_fold:
  "getTransactionsForAddress (fold apply_tx txs s) a =
     getTransactionsForAddress s a @ concat (map (history_entries a) txs)"
  by (induction txs arbitrary: s) (auto simp: history_apply_tx history_entries_def spends_from_def)

lemma empty_state_reads [simp]:
  "getLastNonce clear_state a = 0" "getTransactionsForAddress clear_state a = []"
  "getBalance clear_state a = 0" "spentTxIDs clear_state = {}"
  by (simp_all add: clear_state_def getLastNonce_def getTransactionsForAddress_def getBalance_def)

lemma getLastNonce_rebuild:
  "getLastNonce (rebuildState chain) a =
     fold max (map tx_nonce (filter (spends_from a) (chain_txs chain))) 0"
  by (simp add: rebuildState_transactions getLastNonce_fold chain_txs_def)

lemma fold_max_ge: "x \<in> insert z (set xs) \<Longrightarrow> (x :: u64) \<le> fold max xs z"
  by (simp add: Max.set_eq_fold[symmetric])

lemma isDoubleSpend_rebuild:
  "isDoubleSpend (rebuildState chain) i \<longleftrightarrow>
     (\<exists>tx \<in> set (chain_txs chain). \<not> isCoinbase tx \<and> txID tx = i)"
  by (auto simp: isDoubleSpend_def rebuildState_transactions spent_fold chain_txs_def)


section \<open>Properties\<close>

text \<open>
  C13. The state the node keeps is exactly determined by the confirmed transactions: after
  \<^verbatim>\<open>rebuildState\<close>, an identifier counts as spent iff some non-coinbase transaction of the
  chain has it, the last nonce of an address is the largest nonce among the transactions it
  sent (0 if none), and its history lists, in chain order, the transactions that pay it or
  are sent by it; and rebuilding a chain extended by one block equals applying that block to
  the state of the shorter chain.
\<close>

theorem rebuildState_characterised:
  "(isDoubleSpend (rebuildState chain) i \<longleftrightarrow>
     (\<exists>tx \<in> set (chain_txs chain). \<not> isCoinbase tx \<and> txID tx = i)) \<and>
   getLastNonce (rebuildState chain) a =
     Max (insert 0 (tx_nonce ` {tx \<in> set (chain_txs chain). spends_from a tx})) \<and>
   getTransactionsForAddress (rebuildState chain) a =
     concat (map (history_entries a) (chain_txs chain)) \<and>
   rebuildState (chain @ [b]) = applyBlock b (rebuildState chain)"
proof (intro conjI)
  show "getLastNonce (rebuildState chain) a =
      Max (insert 0 (tx_nonce ` {tx \<in> set (chain_txs chain). spends_from a tx}))"
    by (simp add: getLastNonce_rebuild Max.set_eq_fold[symmetric])
  show "getTransactionsForAddress (rebuildState chain) a = concat (map (history_entries a) (chain_txs chain))"
    by (simp add: rebuildState_transactions history_fold chain_txs_def)
qed (simp_all add: isDoubleSpend_rebuild sm.rebuild_snoc applyBlock_def)

text \<open>
  C14. If every transaction of a chain is covered when it is applied (the sender holds the
  amount and the receiver's 64-bit balance does not overflow), the rebuilt balance of each
  address is what the chain paid it minus what it spent, and the sum of all balances plus
  everything debited equals everything credited, coinbase rewards included.
\<close>

theorem balances_conserved:
  assumes "covered_seq (chain_txs chain) clear_state"
  shows "unat (getBalance (rebuildState chain) a) + txs_out (chain_txs chain) a =
      txs_in (chain_txs chain) a \<and>
    total_supply (rebuildState chain) + sum_list (map tx_burned (chain_txs chain)) =
      sum_list (map tx_minted (chain_txs chain))"
proof
  have zero: "funds clear_state a = 0" "total_supply clear_state = 0" for a
    by (simp add: funds_def) (simp add: total_supply_def clear_state_def)
  show "unat (getBalance (rebuildState chain) a) + txs_out (chain_txs chain) a = txs_in (chain_txs chain) a"
    using funds_covered_seq[OF assms, of a]
    by (simp add: zero rebuildState_transactions chain_txs_def[symmetric]) (simp add: funds_def)
  show "total_supply (rebuildState chain) + sum_list (map tx_burned (chain_txs chain)) =
      sum_list (map tx_minted (chain_txs chain))"
  proof -
    have "finite (dom (balances clear_state))" by (simp add: clear_state_def)
    from supply_covered_seq[OF assms this] show ?thesis
      by (simp add: zero rebuildState_transactions chain_txs_def[symmetric])
  qed
qed

text \<open>A chain of one block that pays 50 to an address, which then pays 20 on.\<close>

definition demo_pay_chain :: "Block list" where
  "demo_pay_chain = [default_block\<lparr>transactions :=
     [empty_tx\<lparr>senderPublicKey := ''COINBASE'', toAddress := ''a'', amount := 50\<rparr>,
      empty_tx\<lparr>senderPublicKey := ''k'', fromAddress := ''a'', toAddress := ''b'', amount := 20\<rparr>]\<rparr>]"

lemma demo_pay_chain_covered: "covered_seq (chain_txs demo_pay_chain) clear_state"
proof -
  have *: "covered tx s" if "\<And>a. funds s a + tx_in tx a < 18446744073709551616"
    "\<And>a. tx_out tx a \<le> funds s a + tx_in tx a" for tx s
    using that by (simp add: covered_def)
  let ?c = "empty_tx\<lparr>senderPublicKey := ''COINBASE'', toAddress := ''a'', amount := 50\<rparr>"
  have c: "covered ?c clear_state"
    by (rule *) (simp_all add: funds_def tx_in_def tx_out_def isCoinbase_def empty_tx_def)
  then have "funds (apply_tx ?c clear_state) a = (if a = ''a'' then 50 else 0)" for a
    by (simp add: funds_apply_tx tx_in_def tx_out_def isCoinbase_def empty_tx_def)
      (simp add: funds_def)
  then have "covered (empty_tx\<lparr>senderPublicKey := ''k'', fromAddress := ''a'', toAddress := ''b'',
      amount := 20\<rparr>) (apply_tx ?c clear_state)"
    by (intro *) (simp_all add: tx_in_def tx_out_def isCoinbase_def empty_tx_def)
  with c show ?thesis by (simp add: demo_pay_chain_def chain_txs_def)
qed

theorem balances_conserved_witness:
  "unat (getBalance (rebuildState demo_pay_chain) ''a'') + 20 = 50 \<and>
   total_supply (rebuildState demo_pay_chain) + 20 = 70"
  using balances_conserved[OF demo_pay_chain_covered, of "''a''"]
  by (simp add: demo_pay_chain_def chain_txs_def tx_in_def tx_out_def tx_burned_def tx_minted_def
      isCoinbase_def empty_tx_def default_block_def)

text \<open>
  A transaction that spends more than its sender holds is not refused when its block is
  applied: the sender's balance becomes 0, while a different receiver is still credited with
  the full amount, so the overdraft appears as new money.
\<close>

theorem overdraft_creates_supply:
  assumes "\<not> isCoinbase tx" "fromAddress tx \<noteq> []" "toAddress tx \<noteq> []"
    and "fromAddress tx \<noteq> toAddress tx"
    and "unat (getBalance s (fromAddress tx)) < unat (amount tx)"
  shows "getBalance (applyBlock (default_block\<lparr>transactions := [tx]\<rparr>) s) (fromAddress tx) = 0 \<and>
    getBalance (applyBlock (default_block\<lparr>transactions := [tx]\<rparr>) s) (toAddress tx) =
      getBalance s (toAddress tx) + amount tx"
  using assms
  by (auto simp: applyBlock_def applyBlockState_def apply_tx_def getBalance_debit getBalance_credit
      word_less_nat_alt)


theorem overdraft_creates_supply_witness:
  "let tx = empty_tx\<lparr>senderPublicKey := ''k'', fromAddress := ''a'', toAddress := ''b'', amount := 20\<rparr>
   in getBalance (applyBlock (default_block\<lparr>transactions := [tx]\<rparr>) clear_state) ''b'' = 20"
  using overdraft_creates_supply[of "empty_tx\<lparr>senderPublicKey := ''k'', fromAddress := ''a'',
      toAddress := ''b'', amount := 20\<rparr>" clear_state]
  by (simp add: isCoinbase_def empty_tx_def)

end
