(* ===== verification/Floats.thy ===== *)
theory Floats
  imports Prelude "HOL-Library.Log_Nat"
begin

text \<open>
  Double precision numbers: rounding to nearest, used by the difficulty adjuster and, with the
  bounded exponents of the format, by the number reader of the JSON library.
\<close>

section \<open>Rounding\<close>

text \<open>
  A finite double is the rational number it stands for. \<open>fl\<close> rounds to the nearest number
  with a 53-bit significand, ties to even, as the arithmetic operations and the conversions
  from integers do while neither overflow nor underflow is reached.
\<close>

definition exponent2 :: "rat \<Rightarrow> int" where
  "exponent2 x =
     (if 1 \<le> x then int (floorlog 2 (nat \<lfloor>x\<rfloor>)) - 1
      else - int (floorlog 2 (nat (\<lceil>1 / x\<rceil> - 1))))"

definition round_even :: "rat \<Rightarrow> int" where
  "round_even x =
     (let f = \<lfloor>x\<rfloor>; r = x - of_int f
      in if r < 1 / 2 then f else if 1 / 2 < r then f + 1 else if even f then f else f + 1)"

definition fl :: "rat \<Rightarrow> rat" where
  "fl x =
     (if x = 0 then 0
      else let e = exponent2 \<bar>x\<bar>
           in of_int (round_even (x * 2 powi (52 - e))) * 2 powi (e - 52))"

text \<open>
  The nearest double of a decimal number, as \<^verbatim>\<open>strtod\<close> returns it: below the smallest normal number
  the spacing stays at \<^term>\<open>(2 :: rat) powi (- 1074)\<close>, beyond the largest finite number the result is
  infinite (\<^const>\<open>None\<close>). The sign of a zero is not kept.
\<close>

definition nearest_double :: "rat \<Rightarrow> rat option" where
  "nearest_double x =
     (if x = 0 then Some 0
      else let e = max (exponent2 \<bar>x\<bar>) (- 1022);
               r = of_int (round_even (x * 2 powi (52 - e))) * 2 powi (e - 52)
           in if 2 powi 1024 \<le> \<bar>r\<bar> then None else Some r)"

section \<open>Rounding is monotone and exact on small integers\<close>

lemma exponent2_bounds:
  assumes "0 < x"
  shows "2 powi exponent2 x \<le> x \<and> x < 2 powi (exponent2 x + 1)"
proof (cases "1 \<le> x")
  case True
  define n where "n = nat \<lfloor>x\<rfloor>"
  define k where "k = floorlog 2 n"
  have n: "0 < n" "of_nat n \<le> x" "x < of_nat n + 1"
    using True by (simp_all add: n_def le_floor_iff of_nat_nat) linarith
  have b: "2 ^ (k - 1) \<le> n" "n < 2 ^ k"
    using floorlog_bounds[of n 2] n(1) by (simp_all add: k_def)
  have kp: "0 < k" using b n(1) by (cases k) auto
  have e: "exponent2 x = int (k - 1)" "exponent2 x + 1 = int k"
    using True kp by (simp_all add: exponent2_def n_def k_def)
  have "(2 :: rat) ^ (k - 1) \<le> of_nat n" using b(1) by (metis of_nat_le_iff of_nat_numeral of_nat_power)
  moreover have "of_nat n + (1 :: rat) \<le> 2 ^ k"
  proof -
    have "of_nat (Suc n) \<le> (of_nat (2 ^ k) :: rat)" using b(2) by (simp only: of_nat_le_iff Suc_le_eq)
    then show ?thesis by simp
  qed
  ultimately show ?thesis using n unfolding e(2) unfolding e(1) power_int_of_nat by linarith
next
  case False
  define c where "c = \<lceil>1 / x\<rceil>"
  define n where "n = nat (c - 1)"
  define k where "k = floorlog 2 n"
  have x: "1 < 1 / x" using False assms by simp
  then have c: "1 < c" "1 / x \<le> of_int c" "of_int c < 1 / x + 1"
    by (simp_all add: c_def) (linarith+)
  have n: "0 < n" "of_nat n = (of_int c - 1 :: rat)" using c(1) by (simp_all add: n_def of_nat_nat)
  have b: "2 ^ (k - 1) \<le> n" "n < 2 ^ k"
    using floorlog_bounds[of n 2] n(1) by (simp_all add: k_def)
  have kp: "0 < k" using b n(1) by (cases k) auto
  have e: "exponent2 x = - int k" "exponent2 x + 1 = - int (k - 1)"
    using False kp by (simp_all add: exponent2_def n_def k_def c_def)
  have "of_nat (Suc n) \<le> (of_nat (2 ^ k) :: rat)" using b(2) by (simp only: of_nat_le_iff Suc_le_eq)
  then have "of_nat n + 1 \<le> (2 :: rat) ^ k" by simp
  then have "1 / x \<le> 2 ^ k" using c(2) unfolding n(2) by linarith
  moreover have "(2 :: rat) ^ (k - 1) \<le> of_nat n" using b(1) by (metis of_nat_le_iff of_nat_numeral of_nat_power)
  then have "2 ^ (k - 1) < 1 / x" using c n by simp
  ultimately show ?thesis
    using assms unfolding e(2) unfolding e(1) power_int_minus power_int_of_nat by (simp add: field_simps)
qed

lemma round_even_of_int [simp]: "round_even (of_int i) = i"
  by (simp add: round_even_def)

lemma round_even_mono: "x \<le> y \<Longrightarrow> round_even x \<le> round_even y"
proof -
  assume le: "x \<le> y"
  then have f: "\<lfloor>x\<rfloor> \<le> \<lfloor>y\<rfloor>" by (rule floor_mono)
  show ?thesis
  proof (cases "\<lfloor>x\<rfloor> = \<lfloor>y\<rfloor>")
    case True
    with le show ?thesis by (auto simp: round_even_def Let_def)
  next
    case False
    with f show ?thesis by (auto simp: round_even_def Let_def)
  qed
qed

lemma fl_pos: "0 < x \<Longrightarrow>
    fl x = of_int (round_even (x * 2 powi (52 - exponent2 x))) * 2 powi (exponent2 x - 52)"
  by (simp add: fl_def Let_def)

lemma scaled_bounds:
  assumes "0 < x"
  shows "of_int (2 ^ 52) \<le> x * 2 powi (52 - exponent2 x)" "x * 2 powi (52 - exponent2 x) \<le> of_int (2 ^ 53)"
proof -
  have p: "(2 :: rat) powi (52 - exponent2 x) > 0" by simp
  have "2 powi exponent2 x * 2 powi (52 - exponent2 x) = (2 :: rat) ^ 52"
    by (simp flip: power_int_add)
  moreover have "2 powi (exponent2 x + 1) * 2 powi (52 - exponent2 x) = (2 :: rat) ^ 53"
    by (simp flip: power_int_add)
  ultimately show "of_int (2 ^ 52) \<le> x * 2 powi (52 - exponent2 x)"
      "x * 2 powi (52 - exponent2 x) \<le> of_int (2 ^ 53)"
    using exponent2_bounds[OF assms] p
    by (metis mult_right_mono less_imp_le of_int_numeral of_int_power)+
qed

lemma fl_bounds:
  assumes "0 < x"
  shows "2 powi exponent2 x \<le> fl x" "fl x \<le> 2 powi (exponent2 x + 1)"
proof -
  let ?r = "round_even (x * 2 powi (52 - exponent2 x))"
  have r: "2 ^ 52 \<le> ?r" "?r \<le> 2 ^ 53"
    using scaled_bounds[OF assms, THEN round_even_mono] by (simp_all only: round_even_of_int)
  have p: "(2 :: rat) powi (exponent2 x - 52) \<ge> 0" by simp
  have "2 powi exponent2 x = of_int (2 ^ 52) * (2 :: rat) powi (exponent2 x - 52)"
    using power_int_add[of "2 :: rat" 52 "exponent2 x - 52"] by simp
  moreover have "2 powi (exponent2 x + 1) = of_int (2 ^ 53) * (2 :: rat) powi (exponent2 x - 52)"
    using power_int_add[of "2 :: rat" 53 "exponent2 x - 52"] by (simp add: add.commute)
  ultimately show "2 powi exponent2 x \<le> fl x" "fl x \<le> 2 powi (exponent2 x + 1)"
    unfolding fl_pos[OF assms] using r p by (metis mult_right_mono of_int_le_iff)+
qed

lemma fl_nonneg: "0 \<le> x \<Longrightarrow> 0 \<le> fl x"
proof (cases "x = 0")
  case False
  assume "0 \<le> x"
  with False have "0 < x" by simp
  with fl_bounds(1) have "2 powi exponent2 x \<le> fl x" .
  moreover have "(0 :: rat) \<le> 2 powi exponent2 x" by simp
  ultimately show ?thesis by linarith
qed (simp add: fl_def)

lemma fl_mono:
  assumes "0 \<le> x" "x \<le> y"
  shows "fl x \<le> fl y"
proof (cases "x = 0")
  case False
  with assms have x: "0 < x" and y: "0 < y" by simp_all
  have "exponent2 x \<le> exponent2 y"
  proof (rule ccontr)
    assume "\<not> exponent2 x \<le> exponent2 y"
    then have "(2 :: rat) powi (exponent2 y + 1) \<le> 2 powi exponent2 x"
      by (intro power_int_increasing) auto
    with exponent2_bounds[OF x] exponent2_bounds[OF y] assms(2) show False by linarith
  qed
  then consider "exponent2 x = exponent2 y" | "exponent2 x + 1 \<le> exponent2 y" by linarith
  then show ?thesis
  proof cases
    case 1
    have "x * 2 powi (52 - exponent2 y) \<le> y * 2 powi (52 - exponent2 y)"
      using assms(2) by (intro mult_right_mono) auto
    then show ?thesis
      unfolding fl_pos[OF x] fl_pos[OF y] 1
      by (intro mult_right_mono) (auto intro: round_even_mono)
  next
    case 2
    then have "(2 :: rat) powi (exponent2 x + 1) \<le> 2 powi exponent2 y"
      by (intro power_int_increasing) auto
    with fl_bounds(2)[OF x] fl_bounds(1)[OF y] show ?thesis by linarith
  qed
qed (use assms fl_nonneg in \<open>simp add: fl_def\<close>)

lemma fl_nat:
  assumes "n < 2 ^ 53"
  shows "fl (of_nat n) = of_nat n"
proof (cases "n = 0")
  case False
  let ?e = "exponent2 (of_nat n)"
  have x: "0 < (of_nat n :: rat)" using False by simp
  have "(2 :: rat) powi ?e < 2 powi 53"
  proof -
    have "(of_nat n :: rat) < of_nat (2 ^ 53)" using assms by (simp only: of_nat_less_iff)
    then have "(of_nat n :: rat) < 2 powi 53" by simp
    with exponent2_bounds[OF x] show ?thesis by linarith
  qed
  then have e: "?e \<le> 52"
    using power_int_increasing[of 53 ?e "2 :: rat"] by linarith
  then have k: "52 - ?e = int (nat (52 - ?e))" by simp
  have "of_nat n * (2 :: rat) powi (52 - ?e) = of_int (int n * 2 ^ nat (52 - ?e))"
    by (subst k, subst power_int_of_nat) simp
  moreover have "(2 :: rat) powi (52 - ?e) * 2 powi (?e - 52) = 1"
    by (simp flip: power_int_add)
  ultimately show ?thesis
    unfolding fl_pos[OF x] by (metis mult.assoc mult.right_neutral round_even_of_int)
qed (simp add: fl_def)

end
