(* ===== verification/Consensus.thy ===== *)
theory Consensus
  imports State_Manager Floats
begin

text \<open>
  \<^verbatim>\<open>include/consensus/\<close> and \<^verbatim>\<open>src/consensus/difficulty_adjuster.cpp\<close>: the difficulty adjuster, the
  proof-of-work engine and the proof-of-stake skeleton behind the interface
  \<^verbatim>\<open>IConsensusEngine\<close>. The virtual methods are the fields of a record, and the laws the chain
  relies on are the locale \<open>engine_laws\<close>, interpreted for both engines. Clock readings are
  nanoseconds since the epoch.
\<close>

section \<open>Double precision arithmetic\<close>

text \<open>The arithmetic of \<open>Floats\<close>; the exponents of the numbers computed here stay within
  \<^term>\<open>(-70 :: int)\<close> and \<^term>\<open>(100 :: int)\<close>, so neither overflow nor underflow is reached.\<close>

text \<open>\<^verbatim>\<open>std::round\<close>: halfway cases away from zero.\<close>

definition round_away :: "rat \<Rightarrow> int" where
  "round_away x = (if 0 \<le> x then \<lfloor>x + 1 / 2\<rfloor> else - \<lfloor>- x + 1 / 2\<rfloor>)"

definition double_to_u32 :: "rat \<Rightarrow> u32 result" where
  "double_to_u32 x = (if -1 < x \<and> x < 2 ^ 32 then Inr (word_of_int (trunc_rat x)) else Inl UndefinedCast)"


section \<open>The difficulty adjuster\<close>

record DifficultyAdjuster =
  targetBlockTimeSec :: u32
  windowSize :: u32
  maxAdjustmentFactor :: rat
  minDifficulty :: u32
  maxDifficulty :: u32

definition default_adjuster :: DifficultyAdjuster where
  "default_adjuster =
     \<lparr>targetBlockTimeSec = 10, windowSize = 10, maxAdjustmentFactor = 4, minDifficulty = 1,
      maxDifficulty = 8\<rparr>"

definition parseTimestamp :: "string \<Rightarrow> int" where
  "parseTimestamp isoTimestamp = (case get_time isoTimestamp of None \<Rightarrow> 0 | Some t \<Rightarrow> timegm t)"

definition shouldRetarget :: "DifficultyAdjuster \<Rightarrow> nat \<Rightarrow> bool result" where
  "shouldRetarget adj chainLength =
     (if chainLength \<le> 1 then Inr False
      else if windowSize adj = 0 then Inl DivisionByZero
      else Inr ((chainLength - 1) mod unat (windowSize adj) = 0))"

definition retarget_value :: "DifficultyAdjuster \<Rightarrow> int \<Rightarrow> u32 \<Rightarrow> u32 result" where
  "retarget_value adj actualTimeSpan currentDifficulty =
     (let expectedTimeSpan = s64 (uint (windowSize adj) * uint (targetBlockTimeSec adj));
          ratio = fl (fl (of_int expectedTimeSpan) / fl (of_int actualTimeSpan));
          clampedRatio = max (fl (1 / maxAdjustmentFactor adj)) (min (maxAdjustmentFactor adj) ratio);
          newDiffExact = fl (of_int (uint currentDifficulty) * clampedRatio)
      in ebind (double_to_u32 (of_int (round_away newDiffExact))) (\<lambda>newDifficulty.
           Inr (max (minDifficulty adj) (min (maxDifficulty adj) newDifficulty))))"

definition calculateNextDifficulty :: "DifficultyAdjuster \<Rightarrow> Block list \<Rightarrow> u32 \<Rightarrow> u32 result" where
  "calculateNextDifficulty adj chain currentDifficulty =
     (if length chain < unat (windowSize adj + 1) then Inr currentDifficulty
      else ebind (shouldRetarget adj (length chain)) (\<lambda>retarget.
        if \<not> retarget then Inr currentDifficulty
        else let latestIdx = length chain - 1;
                 oldestIdx = length chain - 1 - unat (windowSize adj);
                 latestTime = parseTimestamp (bk_timestamp (chain ! latestIdx));
                 oldestTime = parseTimestamp (bk_timestamp (chain ! oldestIdx));
                 actualTimeSpan = latestTime - oldestTime
             in if actualTimeSpan \<le> 0 then Inr currentDifficulty
                else retarget_value adj actualTimeSpan currentDifficulty))"

definition validateBlockTimestamp :: "int \<Rightarrow> Block \<Rightarrow> Block \<Rightarrow> bool" where
  "validateBlockTimestamp now block previousBlock =
     (let blockTime = parseTimestamp (bk_timestamp block);
          prevTime = parseTimestamp (bk_timestamp previousBlock)
      in if blockTime < prevTime then False
         else let nowEpoch = tdiv now ns_per_s
              in if blockTime > nowEpoch + 120 then False else True)"


section \<open>The engines\<close>

text \<open>
  \<^verbatim>\<open>validateBlock\<close> reads the clock; \<^verbatim>\<open>sealBlock\<close> may search forever (\<^const>\<open>None\<close>).
\<close>

record IConsensusEngine =
  ce_name :: string
  validateBlock :: "int \<Rightarrow> Block \<Rightarrow> Block \<Rightarrow> bool"
  sealBlock :: "Block \<Rightarrow> string \<Rightarrow> Block option"
  shouldAcceptChain :: "Block list \<Rightarrow> Block list \<Rightarrow> bool"
  nextDifficulty :: "Block list \<Rightarrow> u32 \<Rightarrow> u32 result"

definition pow_validateBlock :: "openssl \<Rightarrow> int \<Rightarrow> Block \<Rightarrow> Block \<Rightarrow> bool" where
  "pow_validateBlock ossl now block previousBlock =
     (if difficulty block < 1 \<or> difficulty block > 64 then False
      else if hash block \<noteq> calculateHash ossl block then False
      else if \<not> meets_target (difficulty block) (hash block) then False
      else if previousHash block \<noteq> hash previousBlock then False
      else if merkleRoot block \<noteq> computeMerkleRoot ossl block then False
      else if \<not> validateBlockTimestamp now block previousBlock then False
      else if \<not> hasValidTransactions ossl block then False
      else True)"

definition pow_sealBlock :: "openssl \<Rightarrow> Block \<Rightarrow> string \<Rightarrow> Block option" where
  "pow_sealBlock ossl block context = mineBlock ossl block"

definition longer_chain :: "Block list \<Rightarrow> Block list \<Rightarrow> bool" where
  "longer_chain currentChain candidateChain \<longleftrightarrow> length candidateChain > length currentChain"

definition PoWEngine :: "openssl \<Rightarrow> DifficultyAdjuster \<Rightarrow> IConsensusEngine" where
  "PoWEngine ossl adjuster =
     \<lparr>ce_name = ''Proof-of-Work'', validateBlock = pow_validateBlock ossl,
      sealBlock = pow_sealBlock ossl, shouldAcceptChain = longer_chain,
      nextDifficulty = calculateNextDifficulty adjuster\<rparr>"

definition pos_validateBlock :: "openssl \<Rightarrow> int \<Rightarrow> Block \<Rightarrow> Block \<Rightarrow> bool" where
  "pos_validateBlock ossl now block previousBlock =
     (if previousHash block \<noteq> hash previousBlock then False
      else if merkleRoot block \<noteq> computeMerkleRoot ossl block then False
      else True)"

definition pos_sealBlock :: "openssl \<Rightarrow> Block \<Rightarrow> string \<Rightarrow> Block option" where
  "pos_sealBlock ossl block validatorKey =
     (let b1 = block\<lparr>merkleRoot := computeMerkleRoot ossl block\<rparr>;
          b2 = b1\<lparr>bk_nonce := 0\<rparr>
      in Some (b2\<lparr>hash := calculateHash ossl b2\<rparr>))"

definition pos_nextDifficulty :: "Block list \<Rightarrow> u32 \<Rightarrow> u32 result" where
  "pos_nextDifficulty chain currentDifficulty = Inr 0"

definition PoSEngine :: "openssl \<Rightarrow> IConsensusEngine" where
  "PoSEngine ossl =
     \<lparr>ce_name = ''Proof-of-Stake (skeleton)'', validateBlock = pos_validateBlock ossl,
      sealBlock = pos_sealBlock ossl, shouldAcceptChain = longer_chain,
      nextDifficulty = pos_nextDifficulty\<rparr>"



section \<open>What the chain relies on from an engine\<close>

lemma pow_validateBlock_iff:
  "pow_validateBlock ossl now b p \<longleftrightarrow>
     1 \<le> difficulty b \<and> difficulty b \<le> 64 \<and> isValid ossl b \<and> previousHash b = hash p \<and>
     validateBlockTimestamp now b p \<and> hasValidTransactions ossl b"
  by (auto simp: pow_validateBlock_def isValid_iff not_less[symmetric])

lemma validateBlockTimestamp_iff:
  "validateBlockTimestamp now b p \<longleftrightarrow>
     parseTimestamp (bk_timestamp p) \<le> parseTimestamp (bk_timestamp b) \<and>
     parseTimestamp (bk_timestamp b) \<le> tdiv now ns_per_s + 120"
  by (auto simp: validateBlockTimestamp_def Let_def)

lemma tdiv_mono: "a \<le> b \<Longrightarrow> 0 < k \<Longrightarrow> tdiv a k \<le> tdiv b k"
proof -
  assume ab: "a \<le> b" and k: "0 < k"
  have 1: "a div k \<le> b div k" using ab k by (rule zdiv_mono1)
  have 2: "- b div k \<le> - a div k" using ab k by (intro zdiv_mono1) simp_all
  have 3: "0 \<le> - a div k" if "a < 0" using that k by (simp add: pos_imp_zdiv_nonneg_iff)
  have 4: "0 \<le> b div k" if "\<not> b < 0" using that k by (simp add: pos_imp_zdiv_nonneg_iff)
  show ?thesis
  proof (cases "a < 0")
    case True
    then have "\<not> b < 0 \<Longrightarrow> - (- a div k) \<le> b div k" using 3 4 by linarith
    with True 2 show ?thesis unfolding tdiv_def by (cases "b < 0") simp_all
  next
    case False
    with ab have "\<not> b < 0" by simp
    with False 1 show ?thesis by (simp add: tdiv_def)
  qed
qed

locale engine_laws =
  fixes ossl :: openssl and E :: IConsensusEngine
  assumes seal_frame: "sealBlock E b ctx = Some r \<Longrightarrow>
      bk_index r = bk_index b \<and> previousHash r = previousHash b \<and> transactions r = transactions b \<and>
      bk_timestamp r = bk_timestamp b \<and> difficulty r = difficulty b"
    and seal_valid: "nextDifficulty E chain d = Inr d' \<Longrightarrow> difficulty b = d' \<Longrightarrow>
      sealBlock E b ctx = Some r \<Longrightarrow> isValid ossl r"
    and accept_longer: "shouldAcceptChain E cur cand \<Longrightarrow> length cur < length cand"
    and validate_link: "validateBlock E now b p \<Longrightarrow> previousHash b = hash p"
    and validate_later: "validateBlock E now b p \<Longrightarrow> now \<le> now' \<Longrightarrow> validateBlock E now' b p"

lemma pow_engine_laws: "engine_laws ossl (PoWEngine ossl adj)"
proof (unfold_locales, goal_cases)
  case (5 now b p now')
  then show ?case
    using tdiv_mono[of now now' ns_per_s]
    by (auto simp: PoWEngine_def pow_validateBlock_iff validateBlockTimestamp_iff)
qed (auto simp: PoWEngine_def pow_sealBlock_def longer_chain_def pow_validateBlock_iff
    dest: mineBlock_valid)

lemma pos_engine_laws: "engine_laws ossl (PoSEngine ossl)"
  by unfold_locales
    (auto simp: PoSEngine_def pos_sealBlock_def pos_nextDifficulty_def longer_chain_def
      pos_validateBlock_def Let_def isValid_iff meets_target_def split: if_splits)

interpretation pow: engine_laws ossl "PoWEngine ossl adj" for ossl adj
  by (rule pow_engine_laws)

interpretation pos: engine_laws ossl "PoSEngine ossl" for ossl
  by (rule pos_engine_laws)


section \<open>Retargeting\<close>

lemma trunc_rat_of_int [simp]: "trunc_rat (of_int i) = i"
  by (simp add: trunc_rat_def)

lemma round_away_mono: "0 \<le> x \<Longrightarrow> x \<le> y \<Longrightarrow> round_away x \<le> round_away y"
  by (simp add: round_away_def floor_mono)

lemma round_away_of_nat [simp]: "round_away (of_nat n) = int n"
proof -
  have "\<lfloor>of_nat n + 1 / 2 :: rat\<rfloor> = int n" by (rule floor_unique) simp_all
  then show ?thesis by (simp add: round_away_def)
qed

lemma fl_quarter: "fl (1 / 4) = 1 / 4"
proof -
  have "floorlog 2 3 = 2" by (simp add: compute_floorlog)
  then have "exponent2 (1 / 4) = - 2" by (simp add: exponent2_def)
  then have "fl (1 / 4) = of_int (round_even (1 / 4 * 2 powi 54)) * 2 powi (- 54)"
    by (simp add: fl_pos)
  moreover have "(1 / 4 * 2 powi 54 :: rat) = of_int (2 ^ 52)" by simp
  ultimately show ?thesis by (simp only: round_even_of_int) (simp add: power_int_minus)
qed


lemma scaled_rounding:
  assumes "0 \<le> c" "of_nat lo \<le> of_nat n * c" "of_nat n * c \<le> of_nat hi" "hi < 2 ^ 53"
  shows "int lo \<le> round_away (fl (of_nat n * c)) \<and> round_away (fl (of_nat n * c)) \<le> int hi"
proof -
  have nn: "0 \<le> of_nat n * c" using assms(1) by simp
  have "(of_nat lo :: rat) \<le> of_nat hi" using assms(2,3) by linarith
  with assms(4) have "lo < 2 ^ 53" by simp
  then have "of_nat lo \<le> fl (of_nat n * c)"
    using fl_mono[OF _ assms(2)] fl_nat[of lo] by simp
  moreover have "fl (of_nat n * c) \<le> of_nat hi"
    using fl_mono[OF nn assms(3)] fl_nat[OF assms(4)] by simp
  ultimately show ?thesis
    using round_away_mono[of "of_nat lo" "fl (of_nat n * c)"]
      round_away_mono[of "fl (of_nat n * c)" "of_nat hi"] by simp
qed

lemma double_to_u32_of_int:
  "0 \<le> i \<Longrightarrow> i < 2 ^ 32 \<Longrightarrow> double_to_u32 (of_int i) = Inr (word_of_int i)"
proof -
  assume "0 \<le> i" "i < 2 ^ 32"
  then have "(of_int i :: rat) < of_int (2 ^ 32)" "- 1 < (of_int i :: rat)"
    by (simp_all only: of_int_less_iff)
  then show ?thesis by (simp add: double_to_u32_def)
qed

text \<open>
  One retarget step with the factor 4: the conversion is defined, and before the final clamp
  the value lies between a quarter of and four times the current difficulty, not above it when
  the window took at least the expected time and not below it when it took at most that.
\<close>

lemma retarget_value_bounds:
  assumes "maxAdjustmentFactor adj = 4" "unat cur < 2 ^ 30" "0 < elapsed"
    and E: "E = s64 (uint (windowSize adj) * uint (targetBlockTimeSec adj))" "0 \<le> E"
  shows "\<exists>i. unat cur div 4 \<le> i \<and> i \<le> 4 * unat cur \<and>
    (E \<le> elapsed \<longrightarrow> i \<le> unat cur) \<and> (elapsed \<le> E \<longrightarrow> unat cur \<le> i) \<and>
    retarget_value adj elapsed cur = Inr (max (minDifficulty adj) (min (maxDifficulty adj) (of_nat i)))"
proof -
  define n where "n = unat cur"
  define ratio where "ratio = fl (fl (of_int E) / fl (of_int elapsed))"
  define c where "c = max (1 / 4) (min 4 ratio)"
  define d where "d = round_away (fl (of_nat n * c))"
  have elapsed: "1 \<le> fl (of_int elapsed)"
    using fl_mono[of 1 "of_int elapsed"] fl_nat[of 1] assms(3) by simp
  have slow: "ratio \<le> 1" if "E \<le> elapsed"
  proof -
    have "fl (of_int E) \<le> fl (of_int elapsed)" using that E(2) by (intro fl_mono) simp_all
    then have "fl (of_int E) / fl (of_int elapsed) \<le> 1" using elapsed by simp
    then have "ratio \<le> fl 1" unfolding ratio_def
      using E(2) elapsed by (intro fl_mono) (auto intro!: divide_nonneg_pos fl_nonneg)
    then show ?thesis using fl_nat[of 1] by simp
  qed
  have fast: "1 \<le> ratio" if "elapsed \<le> E"
  proof -
    have "fl (of_int elapsed) \<le> fl (of_int E)" using that assms(3) by (intro fl_mono) simp_all
    then have "1 \<le> fl (of_int E) / fl (of_int elapsed)" using elapsed by simp
    then have "fl 1 \<le> ratio" unfolding ratio_def by (intro fl_mono) simp_all
    then show ?thesis using fl_nat[of 1] by simp
  qed
  have c: "1 / 4 \<le> c" "c \<le> 4" by (simp_all add: c_def)
  have cs: "E \<le> elapsed \<Longrightarrow> c \<le> 1" "elapsed \<le> E \<Longrightarrow> 1 \<le> c" using slow fast by (simp_all add: c_def)
  have n53: "4 * n < 2 ^ 53" using assms(2) by (simp add: n_def)
  have lo: "of_nat (n div 4) \<le> of_nat n * c"
  proof -
    have "4 * (n div 4) \<le> n" by simp
    then have "of_nat (4 * (n div 4)) \<le> (of_nat n :: rat)" by (simp only: of_nat_le_iff)
    then have "of_nat (n div 4) \<le> (of_nat n :: rat) * (1 / 4)" by simp
    also have "\<dots> \<le> of_nat n * c" using c by (intro mult_left_mono) auto
    finally show ?thesis .
  qed
  have hi: "of_nat n * c \<le> of_nat (4 * n)" using c(2) mult_left_mono[of c 4 "of_nat n"] by simp
  have d: "int (n div 4) \<le> d" "d \<le> int (4 * n)"
    using scaled_rounding[OF _ lo hi n53] c(1) by (simp_all add: d_def)
  have "d \<le> int n" if "E \<le> elapsed"
    using scaled_rounding[OF _ lo, of n] cs(1)[OF that] c(1) n53 mult_left_mono[of c 1 "of_nat n"]
    by (simp add: d_def)
  moreover have "int n \<le> d" if "elapsed \<le> E"
    using scaled_rounding[OF _ _ hi n53, of n] cs(2)[OF that] mult_left_mono[of 1 c "of_nat n"]
    by (simp add: d_def)
  moreover have "retarget_value adj elapsed cur =
      Inr (max (minDifficulty adj) (min (maxDifficulty adj) (of_nat (nat d))))"
  proof -
    have "4 * n < 2 ^ 32" using assms(2) by (simp add: n_def)
    then have "int (4 * n) < int (2 ^ 32)" by (simp only: of_nat_less_iff)
    then have "0 \<le> d" "d < 2 ^ 32" using d by simp_all
    moreover have "max (fl (1 / 4)) (min 4 ratio) = c" by (simp add: c_def fl_quarter)
    moreover have "of_int (uint cur) = (of_nat n :: rat)" by (simp add: n_def)
    ultimately show ?thesis
      unfolding retarget_value_def assms(1) E(1)[symmetric] Let_def ratio_def[symmetric]
      by (simp only: d_def[symmetric] double_to_u32_of_int ebind.simps) simp
  qed
  ultimately show ?thesis using d by (intro exI[of _ "nat d"]) (simp add: nat_le_iff le_nat_iff n_def)
qed


lemma shouldRetarget_nonzero:
  "windowSize adj \<noteq> 0 \<Longrightarrow>
     shouldRetarget adj len = Inr (1 < len \<and> (len - 1) mod unat (windowSize adj) = 0)"
  by (simp add: shouldRetarget_def)

definition expected_span :: "DifficultyAdjuster \<Rightarrow> int" where
  "expected_span adj = s64 (uint (windowSize adj) * uint (targetBlockTimeSec adj))"

definition window_span :: "DifficultyAdjuster \<Rightarrow> Block list \<Rightarrow> int" where
  "window_span adj chain =
     parseTimestamp (bk_timestamp (chain ! (length chain - 1))) -
     parseTimestamp (bk_timestamp (chain ! (length chain - 1 - unat (windowSize adj))))"

lemma calculateNextDifficulty_cases:
  assumes "windowSize adj \<noteq> 0"
  shows "calculateNextDifficulty adj chain cur = Inr cur \<or>
    (0 < window_span adj chain \<and>
     calculateNextDifficulty adj chain cur = retarget_value adj (window_span adj chain) cur)"
  using assms
  by (auto simp: calculateNextDifficulty_def shouldRetarget_nonzero window_span_def Let_def)

lemma expected_span_nonneg:
  "uint (windowSize adj) * uint (targetBlockTimeSec adj) < 2 ^ 63 \<Longrightarrow> 0 \<le> expected_span adj"
proof -
  assume "uint (windowSize adj) * uint (targetBlockTimeSec adj) < 2 ^ 63"
  then have "uint (windowSize adj) * uint (targetBlockTimeSec adj) < 9223372036854775808" by simp
  moreover have "0 \<le> uint (windowSize adj) * uint (targetBlockTimeSec adj)"
    by (intro mult_nonneg_nonneg) simp_all
  ultimately show ?thesis unfolding expected_span_def by (subst s64_id) linarith+
qed


section \<open>Properties\<close>



text \<open>
  A block that the proof-of-work engine seals passes the same engine's validation, at any
  later time too, if its difficulty is between 1 and 64, it links to the previous block, its
  transactions verify, its timestamp is not before the previous block's and is at most two
  minutes ahead of the clock.
\<close>

theorem pow_sealed_block_validates:
  assumes "sealBlock (PoWEngine ossl adj) b ctx = Some r"
    and "1 \<le> difficulty b" "difficulty b \<le> 64" "previousHash b = hash p" "hasValidTransactions ossl b"
    and "parseTimestamp (bk_timestamp p) \<le> parseTimestamp (bk_timestamp b)"
    and "parseTimestamp (bk_timestamp b) \<le> tdiv now ns_per_s + 120" "now \<le> now'"
  shows "validateBlock (PoWEngine ossl adj) now' r p"
proof -
  have r: "mineBlock ossl b = Some r" using assms(1) by (simp add: PoWEngine_def pow_sealBlock_def)
  note f = mineBlock_valid[OF r]
  have "tdiv now ns_per_s \<le> tdiv now' ns_per_s" using assms(8) by (simp add: tdiv_mono)
  with f assms show ?thesis
    by (simp add: PoWEngine_def pow_validateBlock_iff validateBlockTimestamp_iff hasValidTransactions_iff)
qed


lemma demo_mines:
  assumes "unat (difficulty b) \<le> 62"
  obtains r where "mineBlock demo_openssl b = Some r"
  using mineBlock_least[OF demo_solves, of b] assms by auto

lemma parse_currentTimestamp:
  assumes "0 \<le> now" "now < 2 ^ 63"
  shows "parseTimestamp (format_now now) = now div ns_per_s"
  using format_now_parsed[of now] assms by (auto simp: parseTimestamp_def)

lemma parseTimestamp_empty [simp]: "parseTimestamp [] = 0"
proof -
  have "take_digits n [] = ([], [])" for n by (cases n) simp_all
  then show ?thesis by (simp add: parseTimestamp_def get_time_def read_field_def)
qed

theorem pow_sealed_block_validates_witness:
  "\<exists>r. sealBlock (PoWEngine demo_openssl default_adjuster) default_block [] = Some r \<and>
     validateBlock (PoWEngine demo_openssl default_adjuster) 0 r default_block"
proof -
  obtain r where r: "mineBlock demo_openssl default_block = Some r"
    by (rule demo_mines[of default_block]) (simp add: default_block_def)
  then show ?thesis
    using pow_sealed_block_validates[of demo_openssl default_adjuster default_block "[]" r default_block 0 0]
    by (simp add: PoWEngine_def pow_sealBlock_def default_block_def hasValidTransactions_def tdiv_def)
qed

end
