(* ===== verification/Chain_Rules.thy ===== *)
theory Chain_Rules
  imports Consensus
begin

text \<open>
  The chain rules of \<^verbatim>\<open>src/core/blockchain.cpp\<close> that do not depend on the node's state: the
  static \<^verbatim>\<open>isChainValid\<close> and \<^verbatim>\<open>validateChainAgainstConsensus\<close>, both as the loops they are
  written as, with the characterisation by links between neighbouring blocks that the other
  theories use.
\<close>

section \<open>Definitions\<close>

definition valid_genesis :: "openssl \<Rightarrow> Block \<Rightarrow> bool" where
  "valid_genesis ossl genesis =
     (if previousHash genesis \<noteq> replicate 64 CHR ''0'' then False
      else if hash genesis \<noteq> calculateHash ossl genesis then False
      else if merkleRoot genesis \<noteq> computeMerkleRoot ossl genesis then False
      else True)"

text \<open>The body of the loop for the block \<open>current\<close> at position \<open>i\<close>.\<close>

definition valid_link :: "openssl \<Rightarrow> nat \<Rightarrow> Block \<Rightarrow> Block \<Rightarrow> bool" where
  "valid_link ossl i current previous =
     (if unat (bk_index current) \<noteq> i then False
      else if hash current \<noteq> calculateHash ossl current then False
      else if previousHash current \<noteq> hash previous then False
      else if merkleRoot current \<noteq> computeMerkleRoot ossl current then False
      else if \<not> meets_target (difficulty current) (hash current) then False
      else if \<not> hasValidTransactions ossl current then False
      else True)"

fun links_loop :: "openssl \<Rightarrow> nat \<Rightarrow> Block \<Rightarrow> Block list \<Rightarrow> bool" where
  "links_loop ossl i previous [] = True"
| "links_loop ossl i previous (current # rest) =
     (if \<not> valid_link ossl i current previous then False
      else links_loop ossl (i + 1) current rest)"

fun isChainValid :: "openssl \<Rightarrow> Block list \<Rightarrow> bool" where
  "isChainValid ossl [] = False"
| "isChainValid ossl (genesis # rest) =
     (if \<not> valid_genesis ossl genesis then False else links_loop ossl 1 genesis rest)"

fun engine_loop :: "IConsensusEngine \<Rightarrow> int \<Rightarrow> Block \<Rightarrow> Block list \<Rightarrow> bool" where
  "engine_loop E now previous [] = True"
| "engine_loop E now previous (current # rest) =
     (if \<not> validateBlock E now current previous then False else engine_loop E now current rest)"

text \<open>A null engine pointer is \<^const>\<open>None\<close>.\<close>

definition validateChainAgainstConsensus ::
  "openssl \<Rightarrow> IConsensusEngine option \<Rightarrow> int \<Rightarrow> Block list \<Rightarrow> bool" where
  "validateChainAgainstConsensus ossl eng now chain =
     (if \<not> isChainValid ossl chain then False
      else (case eng of None \<Rightarrow> True | Some E \<Rightarrow> engine_loop E now (hd chain) (tl chain)))"


section \<open>Extension by one block\<close>

lemma links_loop_append:
  "links_loop ossl i p (xs @ [b]) \<longleftrightarrow>
     links_loop ossl i p xs \<and> valid_link ossl (i + length xs) b (last (p # xs))"
  by (induction xs arbitrary: i p) auto

lemma engine_loop_append:
  "engine_loop E now p (xs @ [b]) \<longleftrightarrow> engine_loop E now p xs \<and> validateBlock E now b (last (p # xs))"
  by (induction xs arbitrary: p) auto

lemma isChainValid_snoc:
  "chain \<noteq> [] \<Longrightarrow> isChainValid ossl (chain @ [b]) \<longleftrightarrow>
     isChainValid ossl chain \<and> valid_link ossl (length chain) b (last chain)"
  by (cases chain) (auto simp: links_loop_append)

lemma isChainValid_singleton: "isChainValid ossl [g] \<longleftrightarrow> valid_genesis ossl g"
  by simp

lemma isChainValid_nonempty: "isChainValid ossl chain \<Longrightarrow> chain \<noteq> []"
  by auto

lemma validate_snoc:
  "chain \<noteq> [] \<Longrightarrow> validateChainAgainstConsensus ossl eng now (chain @ [b]) \<longleftrightarrow>
     validateChainAgainstConsensus ossl eng now chain \<and> valid_link ossl (length chain) b (last chain) \<and>
     (case eng of None \<Rightarrow> True | Some E \<Rightarrow> validateBlock E now b (last chain))"
  by (cases chain) (auto simp: validateChainAgainstConsensus_def links_loop_append engine_loop_append
      split: option.splits)

lemma validate_isChainValid: "validateChainAgainstConsensus ossl eng now chain \<Longrightarrow> isChainValid ossl chain"
  by (auto simp: validateChainAgainstConsensus_def split: if_splits)

lemma valid_link_iff:
  "valid_link ossl i b p \<longleftrightarrow> unat (bk_index b) = i \<and> previousHash b = hash p \<and> isValid ossl b \<and>
     hasValidTransactions ossl b"
  by (auto simp: valid_link_def isValid_iff)

lemma valid_genesis_iff:
  "valid_genesis ossl g \<longleftrightarrow> previousHash g = replicate 64 CHR ''0'' \<and> hash g = calculateHash ossl g \<and>
     merkleRoot g = computeMerkleRoot ossl g"
  by (auto simp: valid_genesis_def)


section \<open>Neighbouring blocks\<close>

lemma links_loop_nth:
  "links_loop ossl i p xs \<longleftrightarrow> (\<forall>k < length xs. valid_link ossl (i + k) (xs ! k) ((p # xs) ! k))"
proof (induction xs arbitrary: i p)
  case (Cons x xs)
  have "(\<forall>k < length (x # xs). valid_link ossl (i + k) ((x # xs) ! k) ((p # x # xs) ! k)) \<longleftrightarrow>
      valid_link ossl i x p \<and> (\<forall>k < length xs. valid_link ossl (i + 1 + k) (xs ! k) ((x # xs) ! k))"
    by (auto simp: less_Suc_eq_0_disj)
  then show ?case using Cons.IH[of "i + 1" x] by simp
qed simp

lemma isChainValid_nth:
  "isChainValid ossl chain \<longleftrightarrow> chain \<noteq> [] \<and> valid_genesis ossl (chain ! 0) \<and>
     (\<forall>i. 1 \<le> i \<longrightarrow> i < length chain \<longrightarrow> valid_link ossl i (chain ! i) (chain ! (i - 1)))"
proof (cases chain)
  case (Cons g rest)
  have "links_loop ossl 1 g rest \<longleftrightarrow>
      (\<forall>i. 1 \<le> i \<longrightarrow> i < length chain \<longrightarrow> valid_link ossl i (chain ! i) (chain ! (i - 1)))"
    unfolding links_loop_nth Cons
  proof (intro iffI allI impI)
    fix i assume l: "\<forall>k < length rest. valid_link ossl (1 + k) (rest ! k) ((g # rest) ! k)"
      and i: "1 \<le> i" "i < length (g # rest)"
    show "valid_link ossl i ((g # rest) ! i) ((g # rest) ! (i - 1))"
      using l[rule_format, of "i - 1"] i by (cases i) auto
  next
    fix k assume l: "\<forall>i. 1 \<le> i \<longrightarrow> i < length (g # rest) \<longrightarrow>
        valid_link ossl i ((g # rest) ! i) ((g # rest) ! (i - 1))" and k: "k < length rest"
    show "valid_link ossl (1 + k) (rest ! k) ((g # rest) ! k)"
      using l[rule_format, of "Suc k"] k by simp
  qed
  then show ?thesis by (simp add: Cons)
qed simp

lemma engine_loop_later:
  assumes "engine_laws ossl E" "engine_loop E now p xs" "now \<le> now'"
  shows "engine_loop E now' p xs"
  using assms(2)
proof (induction xs arbitrary: p)
  case (Cons b xs)
  then show ?case using engine_laws.validate_later[OF assms(1) _ assms(3)] by (auto split: if_splits)
qed simp

lemma validate_later_chain:
  assumes "validateChainAgainstConsensus ossl eng now chain" "now \<le> now'"
    and "\<And>E. eng = Some E \<Longrightarrow> engine_laws ossl E"
  shows "validateChainAgainstConsensus ossl eng now' chain"
  using assms engine_loop_later
  by (auto simp: validateChainAgainstConsensus_def split: if_splits option.splits)



section \<open>Tamper evidence\<close>

text \<open>The parts of a header have their usual lengths.\<close>

definition plain_header :: "Block \<Rightarrow> bool" where
  "plain_header b \<longleftrightarrow> length (bk_timestamp b) = 20 \<and> length (merkleRoot b) = 64"

lemma hash_binds_header:
  assumes "no_collision ossl (hash_input b) (hash_input c)" "calculateHash ossl b = calculateHash ossl c"
    and "bk_index b = bk_index c"
    and "plain_header b" "plain_header c" "length (previousHash b) = length (previousHash c)"
  shows "bk_timestamp b = bk_timestamp c \<and> merkleRoot b = merkleRoot c \<and> previousHash b = previousHash c"
proof -
  have "hash_input b = hash_input c"
    using assms(1,2) by (simp add: calculateHash_def no_collision_def)
  then show ?thesis
    using assms(3-6) by (auto simp: hash_input_def plain_header_def)
qed

lemma valid_hash:
  assumes "isChainValid ossl chain" "i < length chain"
  shows "hash (chain ! i) = calculateHash ossl (chain ! i)"
  using assms by (cases "i = 0") (auto simp: isChainValid_nth valid_genesis_iff valid_link_iff isValid_iff)

lemma valid_step_back:
  assumes "digest_ok ossl" "isChainValid ossl xs" "isChainValid ossl ys" "length xs = length ys"
    and "Suc i < length xs" "hash (xs ! Suc i) = hash (ys ! Suc i)"
    and "no_collision ossl (hash_input (xs ! Suc i)) (hash_input (ys ! Suc i))"
    and "plain_header (xs ! Suc i)" "plain_header (ys ! Suc i)"
  shows "bk_timestamp (xs ! Suc i) = bk_timestamp (ys ! Suc i) \<and>
    merkleRoot (xs ! Suc i) = merkleRoot (ys ! Suc i) \<and> hash (xs ! i) = hash (ys ! i)"
proof -
  have x: "valid_link ossl (Suc i) (xs ! Suc i) (xs ! i)" and y: "valid_link ossl (Suc i) (ys ! Suc i) (ys ! i)"
    using assms(2-5) by (auto simp: isChainValid_nth dest: spec[of _ "Suc i"])
  have "calculateHash ossl (xs ! Suc i) = calculateHash ossl (ys ! Suc i)"
    using x y assms(6) by (simp add: valid_link_iff isValid_iff)
  moreover have "bk_index (xs ! Suc i) = bk_index (ys ! Suc i)"
    using x y by (simp add: valid_link_iff word_unat_eq_iff)
  moreover have "length (previousHash (xs ! Suc i)) = 64" "length (previousHash (ys ! Suc i)) = 64"
    using x y valid_hash[OF assms(2), of i] valid_hash[OF assms(3), of i] assms(1,4,5)
    by (simp_all add: valid_link_iff calculateHash_def length_sha256)
  ultimately show ?thesis
    using hash_binds_header[OF assms(7)] assms(8,9) x y by (simp add: valid_link_iff)
qed

text \<open>
  C11. The hash of the last block binds the history: if two valid chains of the same length
  end in blocks with the same hash, then at every height above the genesis block they have
  the same hash, timestamp and Merkle root, unless the two headers at some height are a
  collision of the hash function. The headers are assumed to have timestamps of 20 and Merkle
  roots of 64 characters, since the header fields are hashed without separators.
\<close>

theorem tip_hash_binds_history:
  assumes "digest_ok ossl" "isChainValid ossl xs" "isChainValid ossl ys" "length xs = length ys"
    and "hash (last xs) = hash (last ys)"
    and "\<And>i. i < length xs \<Longrightarrow> no_collision ossl (hash_input (xs ! i)) (hash_input (ys ! i))"
    and "\<And>i. 0 < i \<Longrightarrow> i < length xs \<Longrightarrow> plain_header (xs ! i) \<and> plain_header (ys ! i)"
    and "i < length xs"
  shows "hash (xs ! i) = hash (ys ! i) \<and>
    (0 < i \<longrightarrow> bk_timestamp (xs ! i) = bk_timestamp (ys ! i) \<and> merkleRoot (xs ! i) = merkleRoot (ys ! i))"
proof -
  let ?n = "length xs"
  note step = valid_step_back[OF assms(1-4)]
  have ne: "xs \<noteq> []" "ys \<noteq> []" using assms(2,3) by auto
  have h: "k < ?n \<Longrightarrow> hash (xs ! (?n - 1 - k)) = hash (ys ! (?n - 1 - k))" for k
  proof (induction k)
    case 0
    then show ?case using assms(4,5) ne by (simp add: last_conv_nth)
  next
    case (Suc k)
    define j where "j = ?n - 1 - Suc k"
    have j: "Suc j = ?n - 1 - k" "Suc j < ?n" using Suc.prems by (simp_all add: j_def)
    then have "hash (xs ! Suc j) = hash (ys ! Suc j)" using Suc by simp
    then show ?case
      using step[of j] assms(6)[of "Suc j"] assms(7)[of "Suc j"] j(2) by (simp add: j_def)
  qed
  have h': "hash (xs ! i) = hash (ys ! i)" using h[of "?n - 1 - i"] assms(8) by simp
  then show ?thesis
    using step[of "i - 1"] assms(6)[of i] assms(7)[of i] assms(8) by (cases i) auto
qed

text \<open>Two chains that differ in the signature of a coinbase transaction, which is not hashed.\<close>

theorem tip_hash_binds_history_witness:
  "\<exists>g g'. g \<noteq> g' \<and> isChainValid demo_openssl [g] \<and> isChainValid demo_openssl [g'] \<and> hash g = hash g'"
proof -
  obtain g where g: "mineBlock demo_openssl (default_block\<lparr>previousHash := replicate 64 CHR ''0'',
      transactions := [genesis_coinbase demo_openssl]\<rparr>) = Some g"
    by (rule demo_mines[of "default_block\<lparr>previousHash := replicate 64 CHR ''0'',
      transactions := [genesis_coinbase demo_openssl]\<rparr>"]) (simp add: default_block_def)
  note f = mineBlock_valid[OF g]
  define g' where "g' = g\<lparr>transactions := [(genesis_coinbase demo_openssl)\<lparr>digitalSignature := ''x''\<rparr>]\<rparr>"
  have "computeMerkleRoot demo_openssl g' = computeMerkleRoot demo_openssl g"
    using f(2) by (simp add: g'_def computeMerkleRoot_def merkle_leaf_def genesis_coinbase_def computeTxID_def)
  then have v: "isChainValid demo_openssl [g]" "isChainValid demo_openssl [g']" "hash g' = hash g"
    using f by (auto simp: valid_genesis_iff isValid_iff g'_def)
  have "g \<noteq> g'" using f(2) by (auto simp: g'_def genesis_coinbase_def computeTxID_def empty_tx_def
      dest!: arg_cong[where f = transactions])
  moreover have "hash_input g' = hash_input g" by (simp add: g'_def hash_input_def)
  then have "hash ([g] ! 0) = hash ([g'] ! 0)"
    using tip_hash_binds_history[of demo_openssl "[g]" "[g']" 0] v demo_digest_ok by simp
  ultimately show ?thesis using v by (intro exI[of _ g] exI[of _ g']) (simp del: isChainValid.simps)
qed

end
