(* ===== verification/Storage.thy ===== *)
theory Storage
  imports Chain_Rules
begin

text \<open>
  \<^verbatim>\<open>include/storage/leveldb_manager.h\<close>, \<^verbatim>\<open>src/storage/leveldb_manager.cpp\<close>: the chain and state
  files. The file system is the map from the paths of regular files to their contents. Every
  library call that can fail is a value of \<open>io_call\<close>; an \<open>io_env\<close> says which of them fail
  during one operation and how much of a failed write reaches the disk. Operations that write
  are described by the list of file systems they pass through, so that a crash is a cut of
  that list.
\<close>

section \<open>The file system\<close>

type_synonym fsys = "string \<rightharpoonup> string"

datatype io_call =
    CreateDirectories
  | OpenTmp | WriteTmp | ExistsTarget | RemoveBak | RenameToBak | InstallTmp | ExistsBak
  | RestoreBak | RemoveOldBak
  | ExistsLeftover | ExistsCanonical | RemoveLeftover | RenameLeftover
  | OpenRead | FileSize

record io_env =
  fails :: "io_call \<Rightarrow> bool"
  written :: nat

definition no_faults :: io_env where
  "no_faults = \<lparr>fails = (\<lambda>_. False), written = 0\<rparr>"

text \<open>\<^verbatim>\<open>fs::rename\<close> replaces an existing target.\<close>

definition fs_rename :: "string \<Rightarrow> string \<Rightarrow> fsys \<Rightarrow> fsys" where
  "fs_rename a b f = (f(b := f a))(a := None)"

definition fs_remove :: "string \<Rightarrow> fsys \<Rightarrow> fsys" where
  "fs_remove a f = f(a := None)"

record LevelDBManager =
  dataDir :: string
  chainFilePath :: string
  stateFilePath :: string

definition new_manager :: "string \<Rightarrow> LevelDBManager" where
  "new_manager dir =
     \<lparr>dataDir = dir, chainFilePath = dir @ ''/chain.json'', stateFilePath = dir @ ''/state.json''\<rparr>"


section \<open>Private helpers\<close>

text \<open>
  The last part of \<^verbatim>\<open>atomicWrite\<close>: rename the temporary file to the target, restoring the
  backup if that fails. \<^verbatim>\<open>fs::exists(bakPath)\<close> may throw, which the handler answers by removing
  the temporary file.
\<close>

definition install :: "io_env \<Rightarrow> string \<Rightarrow> fsys \<Rightarrow> fsys list \<times> bool" where
  "install env filePath f =
     (let tmpPath = filePath @ ''.tmp''; bakPath = filePath @ ''.bak''
      in if fails env InstallTmp then
           (if fails env ExistsBak then ([fs_remove tmpPath f], False)
            else if f bakPath \<noteq> None \<and> \<not> fails env RestoreBak
                 then ([fs_rename bakPath filePath f], False)
                 else ([], False))
         else let f1 = fs_rename tmpPath filePath f
              in if fails env RemoveOldBak then ([f1], True)
                 else ([f1, fs_remove bakPath f1], True))"

text \<open>The contents of the temporary file while it is being written.\<close>

definition partial_writes :: "string \<Rightarrow> string \<Rightarrow> nat \<Rightarrow> fsys \<Rightarrow> fsys list" where
  "partial_writes tmpPath content n f = map (\<lambda>k. f(tmpPath \<mapsto> take k content)) [0..<n + 1]"

definition atomicWrite_run :: "io_env \<Rightarrow> string \<Rightarrow> string \<Rightarrow> fsys \<Rightarrow> fsys list \<times> bool" where
  "atomicWrite_run env filePath content f =
     (let tmpPath = filePath @ ''.tmp''; bakPath = filePath @ ''.bak''
      in if fails env OpenTmp then ([], False)
         else if fails env WriteTmp
              then (partial_writes tmpPath content (min (written env) (length content)) f, False)
         else let ws = partial_writes tmpPath content (length content) f;
                  f1 = f(tmpPath \<mapsto> content)
              in if \<not> fails env ExistsTarget \<and> f1 filePath \<noteq> None
                 then let f2 = (if fails env RemoveBak then f1 else fs_remove bakPath f1)
                      in if fails env RenameToBak then (ws @ [f2], False)
                         else let f3 = fs_rename filePath bakPath f2; r = install env filePath f3
                              in (ws @ [f2, f3] @ fst r, snd r)
                 else let r = install env filePath f1 in (ws @ fst r, snd r))"

definition atomicWrite :: "io_env \<Rightarrow> string \<Rightarrow> string \<Rightarrow> fsys \<Rightarrow> fsys \<times> bool" where
  "atomicWrite env filePath content f =
     (let r = atomicWrite_run env filePath content f in (last (f # fst r), snd r))"

definition recover_one :: "io_env \<Rightarrow> string \<Rightarrow> fsys \<Rightarrow> fsys" where
  "recover_one env filePath f =
     (let tmpPath = filePath @ ''.tmp''
      in if f tmpPath = None \<or> fails env ExistsLeftover then f
         else if f filePath \<noteq> None \<and> \<not> fails env ExistsCanonical
              then (if fails env RemoveLeftover then f else fs_remove tmpPath f)
         else if fails env RenameLeftover then f else fs_rename tmpPath filePath f)"

definition recoverTempFiles :: "io_env \<Rightarrow> LevelDBManager \<Rightarrow> fsys \<Rightarrow> fsys" where
  "recoverTempFiles env m f = fold (recover_one env) [chainFilePath m, stateFilePath m] f"

definition readFile :: "io_env \<Rightarrow> string \<Rightarrow> fsys \<Rightarrow> string" where
  "readFile env filePath f =
     (case f filePath of None \<Rightarrow> [] | Some content \<Rightarrow> if fails env OpenRead then [] else content)"

definition ensureDirectory :: "io_env \<Rightarrow> string \<Rightarrow> unit result" where
  "ensureDirectory env dir =
     (if fails env CreateDirectories then Inl (RuntimeError ''filesystem error'') else Inr ())"

definition open_manager :: "io_env \<Rightarrow> string \<Rightarrow> fsys \<Rightarrow> (LevelDBManager \<times> fsys) result" where
  "open_manager env dir f =
     (let m = new_manager dir
      in ebind (ensureDirectory env (dataDir m)) (\<lambda>_. Inr (m, recoverTempFiles env m f)))"


section \<open>Chain and state files\<close>

definition loadChain :: "json_text \<Rightarrow> openssl \<Rightarrow> io_env \<Rightarrow> LevelDBManager \<Rightarrow> fsys \<Rightarrow> Block list" where
  "loadChain jt ossl env m f =
     (let raw = readFile env (chainFilePath m) f
      in if raw = [] then []
         else case parse jt raw of
                Inl e \<Rightarrow> []
              | Inr j \<Rightarrow> if \<not> is_array j then []
                          else (case emap (block_fromJson ossl) (jelems j) of
                                  Inl e \<Rightarrow> [] | Inr chain \<Rightarrow> chain))"

definition saveChain :: "json_text \<Rightarrow> io_env \<Rightarrow> LevelDBManager \<Rightarrow> Block list \<Rightarrow> fsys \<Rightarrow> (fsys \<times> bool) result" where
  "saveChain jt env m chain f =
     ebind (dump jt 2 (JArr (map block_toJson chain))) (\<lambda>content.
       Inr (atomicWrite env (chainFilePath m) content f))"

definition appendBlock ::
  "json_text \<Rightarrow> openssl \<Rightarrow> io_env \<Rightarrow> LevelDBManager \<Rightarrow> Block \<Rightarrow> fsys \<Rightarrow> (fsys \<times> bool) result" where
  "appendBlock jt ossl env m block f =
     (let raw = readFile env (chainFilePath m) f;
          write = (\<lambda>xs. ebind (dump jt 2 (JArr (xs @ [block_toJson block]))) (\<lambda>content.
                    Inr (atomicWrite env (chainFilePath m) content f)));
          extend = (\<lambda>xs.
            if xs \<noteq> [] then
              ebind (block_fromJson ossl (last xs)) (\<lambda>tip.
                if bk_index block \<noteq> bk_index tip + 1 \<or> previousHash block \<noteq> hash tip
                then Inr (f, False) else write xs)
            else write xs)
      in if raw \<noteq> [] then
           (case parse jt raw of
              Inl e \<Rightarrow> Inr (f, False)
            | Inr j \<Rightarrow> if \<not> is_array j then Inr (f, False) else extend (jelems j))
         else extend [])"

definition saveState :: "json_text \<Rightarrow> io_env \<Rightarrow> LevelDBManager \<Rightarrow> StateManager \<Rightarrow> fsys \<Rightarrow> (fsys \<times> bool) result" where
  "saveState jt env m s f =
     ebind (dump jt 2 (jobj [(''spentTxIDs'', JArr (map JStr (sorted_list_of_set (getAllSpentTxIDs s))))]))
       (\<lambda>content. Inr (atomicWrite env (stateFilePath m) content f))"

definition loadState :: "json_text \<Rightarrow> io_env \<Rightarrow> LevelDBManager \<Rightarrow> fsys \<Rightarrow> bool" where
  "loadState jt env m f =
     (let raw = readFile env (stateFilePath m) f
      in if raw = [] then False
         else case parse jt raw of
                Inl e \<Rightarrow> False
              | Inr j \<Rightarrow> if \<not> jcontains j ''spentTxIDs'' then False else True)"

definition validateChainIntegrity :: "openssl \<Rightarrow> Block list \<Rightarrow> bool" where
  "validateChainIntegrity ossl chain = isChainValid ossl chain"

definition hasPersistedChain :: "io_env \<Rightarrow> LevelDBManager \<Rightarrow> fsys \<Rightarrow> bool" where
  "hasPersistedChain env m f =
     (case f (chainFilePath m) of
        None \<Rightarrow> False
      | Some content \<Rightarrow> if fails env FileSize then False else length content > 2)"



section \<open>Crashes\<close>

text \<open>The states in which the recovery at the next start finds the old or the new content.\<close>

definition recoverable :: "string \<Rightarrow> string \<Rightarrow> string \<Rightarrow> fsys \<Rightarrow> bool" where
  "recoverable p old new g \<longleftrightarrow>
     g p = Some old \<or> g p = Some new \<or> (g p = None \<and> g (p @ ''.tmp'') = Some new)"

lemma recover_one_recoverable:
  "recoverable p old new g \<Longrightarrow> recover_one no_faults p g p \<in> {Some old, Some new}"
  by (auto simp: recoverable_def recover_one_def no_faults_def fs_remove_def fs_rename_def Let_def)

lemma recover_one_other:
  "q \<noteq> p \<Longrightarrow> q \<noteq> p @ ''.tmp'' \<Longrightarrow> recover_one env p f q = f q"
  by (auto simp: recover_one_def fs_remove_def fs_rename_def Let_def)

lemma install_recoverable:
  assumes "\<not> fails env ExistsBak" "f (p @ ''.tmp'') = Some new"
    and "f p = None \<and> f (p @ ''.bak'') = Some old \<or> f p = Some old \<and> f (p @ ''.bak'') \<in> {None, Some old}
      \<or> f p = Some old \<and> \<not> fails env InstallTmp"
    and "g \<in> set (fst (install env p f))"
  shows "recoverable p old new g"
  using assms
  by (auto simp: install_def recoverable_def fs_remove_def fs_rename_def Let_def split: if_splits)

lemma partial_writes_recoverable:
  assumes "f p = Some old" "g \<in> set (partial_writes (p @ ''.tmp'') content n f)"
  shows "recoverable p old new g"
  using assms by (auto simp: partial_writes_def recoverable_def)

text \<open>
  If the check whether the target exists fails, the target is replaced without a backup, and a
  failing installation then restores a stale backup; otherwise every state is recoverable.
\<close>

lemma atomicWrite_run_recoverable:
  assumes "\<not> fails env ExistsBak" "\<not> fails env ExistsTarget" "f p = Some old"
    and "g \<in> set (f # fst (atomicWrite_run env p new f))"
  shows "recoverable p old new g"
proof -
  let ?tmp = "p @ ''.tmp''" and ?bak = "p @ ''.bak''"
  define f1 where "f1 = f(?tmp \<mapsto> new)"
  define f2 where "f2 = (if fails env RemoveBak then f1 else fs_remove ?bak f1)"
  define f3 where "f3 = fs_rename p ?bak f2"
  have f1p: "f1 p \<noteq> None" using assms(3) by (simp add: f1_def)
  have f2: "f2 p = Some old" "f2 ?tmp = Some new"
    using assms(3) by (simp_all add: f2_def f1_def fs_remove_def)
  have f3: "f3 p = None" "f3 ?bak = Some old" "f3 ?tmp = Some new"
    using f2 by (simp_all add: f3_def fs_rename_def)
  have "set (f # fst (atomicWrite_run env p new f)) \<subseteq>
      insert f (insert f2 (insert f3 (set (partial_writes ?tmp new (length new) f) \<union>
        set (partial_writes ?tmp new (min (written env) (length new)) f) \<union>
        set (fst (install env p f3)))))"
    using assms(2) f1p by (auto simp: atomicWrite_run_def Let_def f1_def f2_def f3_def)
  moreover have "recoverable p old new f" "recoverable p old new f2" "recoverable p old new f3"
    using assms(3) f2 f3 by (simp_all add: recoverable_def)
  moreover have "recoverable p old new g" if "g \<in> set (fst (install env p f3))" for g
    using install_recoverable[of env f3 p new old g] assms(1) f3 that by simp
  ultimately show ?thesis
    using assms(4) partial_writes_recoverable[where p = p and f = f, OF assms(3)] by blast
qed

lemma recover_chain:
  "recoverTempFiles env (new_manager dir) g (chainFilePath (new_manager dir)) =
     recover_one env (chainFilePath (new_manager dir)) g (chainFilePath (new_manager dir))"
  by (simp add: recoverTempFiles_def recover_one_other new_manager_def)


section \<open>Writing without faults\<close>

lemma no_faults_fails [simp]: "\<not> fails no_faults c"
  by (simp add: no_faults_def)

lemma install_ok:
  "f (p @ ''.tmp'') = Some new \<Longrightarrow> last (x # fst (install no_faults p f)) p = Some new \<and> snd (install no_faults p f)"
  by (simp add: install_def fs_remove_def fs_rename_def Let_def)

lemma last_install:
  "last (xs @ fst (install no_faults p f)) = last (x # fst (install no_faults p f))"
  by (simp add: install_def Let_def)

lemma atomicWrite_ok:
  "fst (atomicWrite no_faults p new f) p = Some new \<and> snd (atomicWrite no_faults p new f)"
proof -
  let ?f1 = "f(p @ ''.tmp'' \<mapsto> new)"
  have *: "last (f # xs @ fst (install no_faults p g)) p = Some new \<and> snd (install no_faults p g)"
    if "g (p @ ''.tmp'') = Some new" for g xs
    using install_ok[where f = g and p = p and x = f, OF that] last_install[of "f # xs" p g f] by simp
  show ?thesis
    using *[of ?f1 "partial_writes (p @ ''.tmp'') new (length new) f"]
      *[of "fs_rename p (p @ ''.bak'') (fs_remove (p @ ''.bak'') ?f1)" "partial_writes (p @ ''.tmp'') new (length new) f @
        [fs_remove (p @ ''.bak'') ?f1, fs_rename p (p @ ''.bak'') (fs_remove (p @ ''.bak'') ?f1)]"]
    by (auto simp: atomicWrite_def atomicWrite_run_def Let_def fs_rename_def fs_remove_def)
qed



section \<open>The chain file\<close>

text \<open>Blocks whose JSON form is read back unchanged: ASCII strings, nothing to fill in.\<close>

definition plain_tx :: "Transaction \<Rightarrow> bool" where
  "plain_tx tx \<longleftrightarrow> tx_complete tx \<and>
     (\<forall>f \<in> {txID, senderPublicKey, receiverPublicKey, fromAddress, toAddress, payload, tx_timestamp,
       digitalSignature}. ascii (f tx))"

definition plain_block :: "Block \<Rightarrow> bool" where
  "plain_block b \<longleftrightarrow> ascii (bk_timestamp b) \<and> ascii (previousHash b) \<and> ascii (merkleRoot b) \<and>
     ascii (hash b) \<and> (\<forall>tx \<in> set (transactions b). plain_tx tx)"

lemma ascii_key: "ascii ''index''" "ascii ''timestamp''" "ascii ''previousHash''" "ascii ''merkleRoot''"
  "ascii ''nonce''" "ascii ''difficulty''" "ascii ''hash''" "ascii ''transactions''"
  "ascii ''txID''" "ascii ''senderPublicKey''" "ascii ''receiverPublicKey''" "ascii ''fromAddress''"
  "ascii ''toAddress''" "ascii ''amount''" "ascii ''payload''" "ascii ''digitalSignature''"
  "ascii ''spentTxIDs''"
  by (simp_all add: ascii_def)

lemma plain_tx_json: "plain_tx tx \<Longrightarrow> json_plain (tx_toJson tx)"
  unfolding tx_toJson_def by (rule json_plain_jobj) (simp add: plain_tx_def ascii_key)

lemma plain_block_json: "plain_block b \<Longrightarrow> json_plain (block_toJson b)"
  unfolding block_toJson_def by (rule json_plain_jobj) (simp add: plain_block_def ascii_key plain_tx_json)

lemma plain_block_roundtrip: "plain_block b \<Longrightarrow> block_fromJson ossl (block_toJson b) = Inr b"
  by (rule block_fromJson_toJson_complete) (simp add: plain_block_def plain_tx_def)

lemma plain_chain_roundtrip:
  "\<forall>b \<in> set chain. plain_block b \<Longrightarrow> emap (block_fromJson ossl) (map block_toJson chain) = Inr chain"
  by (induction chain) (simp_all add: plain_block_roundtrip)

text \<open>The chain file holds exactly this chain.\<close>

definition persists :: "json_text \<Rightarrow> openssl \<Rightarrow> LevelDBManager \<Rightarrow> Block list \<Rightarrow> fsys \<Rightarrow> bool" where
  "persists jt ossl m chain f \<longleftrightarrow>
     (\<exists>s. f (chainFilePath m) = Some s \<and> s \<noteq> [] \<and> parse jt s = Inr (JArr (map block_toJson chain)) \<and>
       (chain \<noteq> [] \<longrightarrow> 2 < length s))"

lemma write_chain_file:
  assumes "json_text_ok jt" "\<forall>b \<in> set chain. plain_block b"
  shows "\<exists>s. dump jt 2 (JArr (map block_toJson chain)) = Inr s \<and> snd (atomicWrite no_faults (chainFilePath m) s f) \<and>
    persists jt ossl m chain (fst (atomicWrite no_faults (chainFilePath m) s f))"
proof -
  have "json_plain (JArr (map block_toJson chain))" using assms(2) by (simp add: plain_block_json)
  with assms(1) have "\<exists>s. dump jt 2 (JArr (map block_toJson chain)) = Inr s \<and>
      parse jt s = Inr (JArr (map block_toJson chain)) \<and> s \<noteq> [] \<and>
      (is_array (JArr (map block_toJson chain)) \<and> JArr (map block_toJson chain) \<noteq> JArr [] \<longrightarrow> 2 < length s)"
    unfolding json_text_ok_def by blast
  then obtain s where "dump jt 2 (JArr (map block_toJson chain)) = Inr s"
      "parse jt s = Inr (JArr (map block_toJson chain))" "s \<noteq> []" "chain \<noteq> [] \<longrightarrow> 2 < length s"
    by (auto simp: is_array_def)
  then show ?thesis using atomicWrite_ok[of "chainFilePath m" s f] by (auto simp: persists_def)
qed

lemma load_persisted:
  assumes "persists jt ossl m chain f" "\<forall>b \<in> set chain. plain_block b"
  shows "loadChain jt ossl no_faults m f = chain" "chain \<noteq> [] \<Longrightarrow> hasPersistedChain no_faults m f"
  using assms
  by (auto simp: persists_def loadChain_def readFile_def is_array_def jelems_def plain_chain_roundtrip
      hasPersistedChain_def)

lemma saveChain_persists:
  assumes "json_text_ok jt" "\<forall>b \<in> set chain. plain_block b"
  shows "\<exists>f'. saveChain jt no_faults m chain f = Inr (f', True) \<and> persists jt ossl m chain f'"
proof -
  obtain s where s: "dump jt 2 (JArr (map block_toJson chain)) = Inr s"
      "snd (atomicWrite no_faults (chainFilePath m) s f)"
      "persists jt ossl m chain (fst (atomicWrite no_faults (chainFilePath m) s f))"
    using write_chain_file[OF assms] by blast
  have "saveChain jt no_faults m chain f = Inr (fst (atomicWrite no_faults (chainFilePath m) s f), True)"
    using s(1,2) by (simp add: saveChain_def prod_eq_iff)
  with s(3) show ?thesis by blast
qed

definition extends_tip :: "Block list \<Rightarrow> Block \<Rightarrow> bool" where
  "extends_tip chain b \<longleftrightarrow>
     chain = [] \<or> bk_index b = bk_index (last chain) + 1 \<and> previousHash b = hash (last chain)"

lemma appendBlock_persists:
  assumes "json_text_ok jt" "\<forall>x \<in> set (chain @ [b]). plain_block x" "persists jt ossl m chain f"
  shows "\<exists>f'. appendBlock jt ossl no_faults m b f = Inr (f', extends_tip chain b) \<and>
    persists jt ossl m (if extends_tip chain b then chain @ [b] else chain) f'"
proof -
  obtain s where s: "f (chainFilePath m) = Some s" "s \<noteq> []" "parse jt s = Inr (JArr (map block_toJson chain))"
    using assms(3) by (auto simp: persists_def)
  have tip: "chain \<noteq> [] \<Longrightarrow> block_fromJson ossl (last (map block_toJson chain)) = Inr (last chain)"
    using assms(2) by (simp add: last_map plain_block_roundtrip)
  obtain t where t: "dump jt 2 (JArr (map block_toJson (chain @ [b]))) = Inr t"
      "snd (atomicWrite no_faults (chainFilePath m) t f)"
      "persists jt ossl m (chain @ [b]) (fst (atomicWrite no_faults (chainFilePath m) t f))"
    using write_chain_file[OF assms(1,2), of m f ossl] by blast
  have w: "atomicWrite no_faults (chainFilePath m) t f = (fst (atomicWrite no_faults (chainFilePath m) t f), True)"
    using t(2) by (simp add: prod_eq_iff)
  have "appendBlock jt ossl no_faults m b f =
      (if extends_tip chain b then Inr (atomicWrite no_faults (chainFilePath m) t f) else Inr (f, False))"
    using s t(1) tip by (auto simp: appendBlock_def readFile_def is_array_def jelems_def extends_tip_def Let_def)
  then show ?thesis using t(3) assms(3) by (subst (asm) w) auto
qed



section \<open>The store interface of the chain\<close>

text \<open>What the chain relies on: a saved chain is read back, and appending extends it.\<close>

locale chain_store =
  fixes plain :: "'b \<Rightarrow> bool"
    and ext :: "'b list \<Rightarrow> 'b \<Rightarrow> bool"
    and holds :: "'b list \<Rightarrow> 'f \<Rightarrow> bool"
    and save :: "'b list \<Rightarrow> 'f \<Rightarrow> ('f \<times> bool) result"
    and append1 :: "'b \<Rightarrow> 'f \<Rightarrow> ('f \<times> bool) result"
    and load :: "'f \<Rightarrow> 'b list"
  assumes save_holds: "\<forall>b \<in> set bs. plain b \<Longrightarrow> \<exists>f'. save bs f = Inr (f', True) \<and> holds bs f'"
    and append_holds: "\<forall>b \<in> set (bs @ [b]). plain b \<Longrightarrow> holds bs f \<Longrightarrow> ext bs b \<Longrightarrow>
      \<exists>f'. append1 b f = Inr (f', True) \<and> holds (bs @ [b]) f'"
    and load_holds: "\<forall>b \<in> set bs. plain b \<Longrightarrow> holds bs f \<Longrightarrow> load f = bs"
begin

lemma save_load:
  assumes "\<forall>b \<in> set bs. plain b" "save bs f = Inr (f', ok)"
  shows "ok \<and> holds bs f' \<and> load f' = bs"
  using save_holds[OF assms(1), of f] load_holds[OF assms(1)] assms(2) by auto

lemma append_load:
  assumes "\<forall>b \<in> set (bs @ [b]). plain b" "holds bs f" "ext bs b" "append1 b f = Inr (f', ok)"
  shows "ok \<and> holds (bs @ [b]) f' \<and> load f' = bs @ [b]"
  using append_holds[OF assms(1-3)] load_holds[OF assms(1)] assms(4) by auto

end

definition demo_manager :: LevelDBManager where
  "demo_manager = new_manager ''data''"

lemma disk_chain_store:
  assumes "json_text_ok jt"
  shows "chain_store plain_block extends_tip (persists jt ossl m) (saveChain jt no_faults m)
    (appendBlock jt ossl no_faults m) (loadChain jt ossl no_faults m)"
proof (unfold_locales, goal_cases)
  case (2 bs b f)
  then show ?case using appendBlock_persists[OF assms, of bs b ossl m f] by simp
qed (use saveChain_persists[OF assms] load_persisted in auto)

interpretation disk: chain_store plain_block extends_tip "persists demo_json ossl m"
  "saveChain demo_json no_faults m" "appendBlock demo_json ossl no_faults m"
  "loadChain demo_json ossl no_faults m" for ossl m
  by (rule disk_chain_store[OF demo_json_ok])


section \<open>Properties\<close>

text \<open>
  C7. Replacing a chain file is crash safe: if the file existed, then after a crash at any
  point of \<^verbatim>\<open>atomicWrite\<close>, also one in which calls failed, the recovery at the next start leaves
  the old or the new content in place, never a partial one. The two existence checks are
  assumed not to fail.
\<close>

theorem atomicWrite_crash_safe:
  assumes "\<not> fails env ExistsBak" "\<not> fails env ExistsTarget"
    and "f (chainFilePath (new_manager dir)) = Some old"
    and "g \<in> set (f # fst (atomicWrite_run env (chainFilePath (new_manager dir)) new f))"
  shows "recoverTempFiles no_faults (new_manager dir) g (chainFilePath (new_manager dir)) \<in> {Some old, Some new}"
  using recover_one_recoverable[OF atomicWrite_run_recoverable[OF assms]] by (simp only: recover_chain)

theorem atomicWrite_crash_safe_witness:
  "let f = [''d/chain.json'' \<mapsto> ''old'']; g = f(''d/chain.json.tmp'' \<mapsto> ''ne'')
   in recoverTempFiles no_faults (new_manager ''d'') g ''d/chain.json'' \<in> {Some ''old'', Some ''new''}"
proof -
  let ?f = "[''d/chain.json'' \<mapsto> ''old'']"
  have "?f(''d/chain.json.tmp'' \<mapsto> ''ne'') \<in>
      set (?f # fst (atomicWrite_run no_faults (chainFilePath (new_manager ''d'')) ''new'' ?f))"
    by (auto simp: atomicWrite_run_def partial_writes_def new_manager_def Let_def image_iff
        intro!: bexI[of _ 2])
  then show ?thesis
    using atomicWrite_crash_safe[of no_faults ?f "''d''" "''old''" "?f(''d/chain.json.tmp'' \<mapsto> ''ne'')" "''new''"]
    by (simp add: new_manager_def)
qed

text \<open>
  The very first write of a file is not crash safe: if neither the file nor a backup
  exists, a crash while the temporary file is being written leaves any prefix of the content,
  and the recovery installs that prefix as the file.
\<close>

theorem first_write_crash_installs_prefix:
  assumes "f (chainFilePath (new_manager dir)) = None" "k \<le> length new"
  shows "\<exists>g \<in> set (fst (atomicWrite_run no_faults (chainFilePath (new_manager dir)) new f)).
    recoverTempFiles no_faults (new_manager dir) g (chainFilePath (new_manager dir)) = Some (take k new)"
proof
  let ?p = "chainFilePath (new_manager dir)"
  let ?g = "f(?p @ ''.tmp'' \<mapsto> take k new)"
  have "?g \<in> set (partial_writes (?p @ ''.tmp'') new (length new) f)"
    using assms(2) by (auto simp: partial_writes_def image_iff intro!: bexI[of _ k])
  then show "?g \<in> set (fst (atomicWrite_run no_faults ?p new f))"
    by (auto simp: atomicWrite_run_def Let_def)
  show "recoverTempFiles no_faults (new_manager dir) ?g ?p = Some (take k new)"
    unfolding recover_chain using assms(1) by (simp add: recover_one_def fs_rename_def Let_def)
qed

theorem first_write_crash_installs_prefix_witness:
  "\<exists>g \<in> set (fst (atomicWrite_run no_faults (chainFilePath (new_manager ''d'')) ''[1]'' Map.empty)).
     recoverTempFiles no_faults (new_manager ''d'') g (chainFilePath (new_manager ''d'')) = Some ''[1''"
  using first_write_crash_installs_prefix[of Map.empty "''d''" 2 "''[1]''"] by simp



end
