(* ===== verification/Blockchain.thy ===== *)
theory Blockchain
  imports Storage
begin

text \<open>
  \<^verbatim>\<open>include/core/blockchain.h\<close>, \<^verbatim>\<open>src/core/blockchain.cpp\<close>: the node's chain, mempool and derived
  state, with the consensus engine and the storage layer behind their interfaces. Every public
  method holds the mutex for its whole run, so each is one step. The clock and the faults of
  the file system are arguments; the calls of the registered callbacks are returned as a list
  of events.
\<close>

section \<open>Data\<close>

datatype chain_event =
    BlockAdded Block
  | BlockAccepted Block
  | TransactionAdded Transaction

text \<open>The three \<^verbatim>\<open>std::function\<close> members are represented by whether they are set.\<close>

record Blockchain =
  bc_difficulty :: u32
  chain :: "Block list"
  mempool :: "Transaction list"
  stateManager :: StateManager
  consensusEngine :: "IConsensusEngine option"
  storage :: "LevelDBManager option"
  onBlockAdded :: bool
  onBlockAccepted :: bool
  onTransactionAdded :: bool
  chainUpdateVersion :: u64

definition kBlockReward :: u64 where
  "kBlockReward = 50"

definition MAX_TXS_PER_BLOCK :: nat where
  "MAX_TXS_PER_BLOCK = 100"

definition bc_applyBlockState :: "Block \<Rightarrow> Blockchain \<Rightarrow> Blockchain" where
  "bc_applyBlockState block bc =
     bc\<lparr>stateManager := applyBlockState block (stateManager bc),
        chainUpdateVersion := chainUpdateVersion bc + 1\<rparr>"

fun isInMempool :: "string \<Rightarrow> Transaction list \<Rightarrow> bool" where
  "isInMempool i [] = False"
| "isInMempool i (tx # txs) = (if txID tx = i then True else isInMempool i txs)"


section \<open>Construction\<close>

definition empty_blockchain ::
  "u32 \<Rightarrow> IConsensusEngine option \<Rightarrow> LevelDBManager option \<Rightarrow> Blockchain" where
  "empty_blockchain diff eng sto =
     \<lparr>bc_difficulty = diff, chain = [], mempool = [], stateManager = clear_state,
      consensusEngine = eng, storage = sto, onBlockAdded = False, onBlockAccepted = False,
      onTransactionAdded = False, chainUpdateVersion = 0\<rparr>"

text \<open>
  The constructor: load a valid persisted chain, otherwise mine and save a genesis block.
  \<^const>\<open>None\<close> means that mining does not return.
\<close>

definition new_blockchain ::
  "json_text \<Rightarrow> openssl \<Rightarrow> io_env \<Rightarrow> int \<Rightarrow> u32 \<Rightarrow> IConsensusEngine option \<Rightarrow>
   LevelDBManager option \<Rightarrow> fsys \<Rightarrow> (Blockchain \<times> fsys) result option" where
  "new_blockchain jt ossl env now diff eng sto f =
     (let bc = empty_blockchain diff eng sto;
          fresh = (case createGenesis ossl diff of
              None \<Rightarrow> None
            | Some genesis \<Rightarrow>
                let bc1 = bc\<lparr>chain := chain bc @ [genesis]\<rparr>;
                    bc2 = (bc_applyBlockState genesis bc1)\<lparr>chainUpdateVersion := 1\<rparr>
                in Some (case sto of
                     None \<Rightarrow> Inr (bc2, f)
                   | Some m \<Rightarrow> ebind (saveChain jt env m (chain bc2) f) (\<lambda>r. Inr (bc2, fst r))))
      in case sto of
           None \<Rightarrow> fresh
         | Some m \<Rightarrow>
             if hasPersistedChain env m f then
               (let loaded = loadChain jt ossl env m f
                in if loaded \<noteq> [] \<and> validateChainAgainstConsensus ossl eng now loaded
                   then Some (Inr (bc\<lparr>chain := loaded, stateManager := rebuildState loaded,
                                      chainUpdateVersion := 1\<rparr>, f))
                   else fresh)
             else fresh)"


section \<open>Submitting a transaction\<close>

definition pending_outgoing :: "string \<Rightarrow> Transaction list \<Rightarrow> u64" where
  "pending_outgoing a txs = fold (\<lambda>p acc. if fromAddress p = a then acc + amount p else acc) txs 0"

definition pending_incoming :: "string \<Rightarrow> Transaction list \<Rightarrow> u64" where
  "pending_incoming a txs = fold (\<lambda>p acc. if toAddress p = a then acc + amount p else acc) txs 0"

definition highest_seen_nonce :: "string \<Rightarrow> u64 \<Rightarrow> Transaction list \<Rightarrow> u64" where
  "highest_seen_nonce a n txs = fold (\<lambda>p acc. if fromAddress p = a then max acc (tx_nonce p) else acc) txs n"

definition addTransaction ::
  "openssl \<Rightarrow> int \<Rightarrow> Transaction \<Rightarrow> Blockchain \<Rightarrow> Blockchain \<times> bool \<times> chain_event list" where
  "addTransaction ossl now tx bc =
     (if isCoinbase tx then (bc, False, [])
      else if \<not> verify_tx ossl tx then (bc, False, [])
      else if amount tx = 0 then (bc, False, [])
      else let expectedFrom = ''PCN_'' @ take 40 (sha256 ossl (senderPublicKey tx))
      in if fromAddress tx \<noteq> expectedFrom then (bc, False, [])
      else let confirmedBalance = getBalance (stateManager bc) (fromAddress tx);
               pendingOutgoing = pending_outgoing (fromAddress tx) (mempool bc);
               pendingIncoming = pending_incoming (fromAddress tx) (mempool bc);
               availableBalance = confirmedBalance + pendingIncoming
      in if availableBalance < pendingOutgoing \<or> availableBalance - pendingOutgoing < amount tx
         then (bc, False, [])
      else let highestSeenNonce =
                 highest_seen_nonce (fromAddress tx) (getLastNonce (stateManager bc) (fromAddress tx)) (mempool bc);
               expectedNextNonce = highestSeenNonce + 1
      in if tx_nonce tx \<noteq> expectedNextNonce then (bc, False, [])
      else if isExpired now 300 tx then (bc, False, [])
      else if isDoubleSpend (stateManager bc) (txID tx) then (bc, False, [])
      else if isInMempool (txID tx) (mempool bc) then (bc, False, [])
      else (bc\<lparr>mempool := mempool bc @ [tx], chainUpdateVersion := chainUpdateVersion bc + 1\<rparr>, True,
            if onTransactionAdded bc then [TransactionAdded tx] else []))"


section \<open>Mining\<close>

definition mining_coinbase :: "openssl \<Rightarrow> int \<Rightarrow> string \<Rightarrow> Transaction" where
  "mining_coinbase ossl now minerAddress =
     computeTxID ossl (empty_tx\<lparr>senderPublicKey := ''COINBASE'', receiverPublicKey := [],
       fromAddress := ''COINBASE'', toAddress := minerAddress, amount := kBlockReward,
       payload := ''Mining Reward'', tx_timestamp := currentTimestamp now\<rparr>)"

definition seal :: "openssl \<Rightarrow> IConsensusEngine option \<Rightarrow> string \<Rightarrow> Block \<Rightarrow> Block option" where
  "seal ossl eng minerAddress b =
     (case eng of Some E \<Rightarrow> sealBlock E b minerAddress | None \<Rightarrow> mineBlock ossl b)"

definition next_block_difficulty :: "Blockchain \<Rightarrow> u32 result" where
  "next_block_difficulty bc =
     (case consensusEngine bc of
        None \<Rightarrow> Inr (bc_difficulty bc)
      | Some E \<Rightarrow> nextDifficulty E (chain bc) (bc_difficulty bc))"

text \<open>
  The clock is read for the coinbase and again for the block. The result is \<^const>\<open>None\<close> when the
  search for a block does not return; otherwise the new state, the new file system, the block
  or the exception that leaves the method, and the callbacks made.
\<close>

definition minePendingTransactions ::
  "json_text \<Rightarrow> openssl \<Rightarrow> io_env \<Rightarrow> int \<Rightarrow> int \<Rightarrow> string \<Rightarrow> Blockchain \<Rightarrow> fsys \<Rightarrow>
   (Blockchain \<times> fsys \<times> Block result \<times> chain_event list) option" where
  "minePendingTransactions jt ossl env now1 now2 minerAddress bc f =
     (case next_block_difficulty bc of
        Inl e \<Rightarrow> Some (bc, f, Inl e, [])
      | Inr blockDifficulty \<Rightarrow>
          let bc1 = bc\<lparr>bc_difficulty := blockDifficulty\<rparr>;
              coinbase = mining_coinbase ossl now1 minerAddress;
              txCount = min (length (mempool bc1)) MAX_TXS_PER_BLOCK;
              blockTxs = coinbase # take txCount (mempool bc1);
              newBlock = new_block ossl now2 (of_nat (length (chain bc1))) (hash (last (chain bc1)))
                           blockTxs blockDifficulty
          in case seal ossl (consensusEngine bc1) minerAddress newBlock of
               None \<Rightarrow> None
             | Some b \<Rightarrow>
                 let bc2 = bc_applyBlockState b (bc1\<lparr>chain := chain bc1 @ [b]\<rparr>);
                     bc3 = bc2\<lparr>mempool := (if txCount \<ge> length (mempool bc2) then []
                                          else drop txCount (mempool bc2))\<rparr>;
                     events = (if onBlockAdded bc3 then [BlockAdded b] else []) @
                              (if onBlockAccepted bc3 then [BlockAccepted b] else [])
                 in Some (case storage bc3 of
                      None \<Rightarrow> (bc3, f, Inr b, events)
                    | Some m \<Rightarrow> (case appendBlock jt ossl env m b f of
                          Inl e \<Rightarrow> (bc3, f, Inl e, [])
                        | Inr r \<Rightarrow> (bc3, fst r, Inr b, events))))"


section \<open>Blocks and chains from peers\<close>

definition bc_isChainValid :: "openssl \<Rightarrow> int \<Rightarrow> Blockchain \<Rightarrow> bool" where
  "bc_isChainValid ossl now bc = validateChainAgainstConsensus ossl (consensusEngine bc) now (chain bc)"

definition confirmed_in :: "Block \<Rightarrow> Transaction \<Rightarrow> bool" where
  "confirmed_in block pending \<longleftrightarrow> list_ex (\<lambda>confirmed. txID confirmed = txID pending) (transactions block)"

definition acceptBlock ::
  "json_text \<Rightarrow> openssl \<Rightarrow> io_env \<Rightarrow> int \<Rightarrow> Block \<Rightarrow> Blockchain \<Rightarrow> fsys \<Rightarrow>
   Blockchain \<times> fsys \<times> bool result \<times> chain_event list" where
  "acceptBlock jt ossl env now block bc f =
     (if chain bc = [] then (bc, f, Inr False, [])
      else if bk_index block \<noteq> of_nat (length (chain bc)) \<or> previousHash block \<noteq> hash (last (chain bc))
      then (bc, f, Inr False, [])
      else let candidate = chain bc @ [block]
      in if \<not> validateChainAgainstConsensus ossl (consensusEngine bc) now candidate
         then (bc, f, Inr False, [])
      else let bc1 = bc_applyBlockState block (bc\<lparr>chain := chain bc @ [block]\<rparr>);
               bc2 = bc1\<lparr>mempool := filter (\<lambda>pending. \<not> confirmed_in block pending) (mempool bc1)\<rparr>;
               events = (if onBlockAccepted bc2 then [BlockAccepted block] else [])
      in case storage bc2 of
           None \<Rightarrow> (bc2, f, Inr True, events)
         | Some m \<Rightarrow> (case appendBlock jt ossl env m block f of
               Inl e \<Rightarrow> (bc2, f, Inl e, [])
             | Inr r \<Rightarrow> (bc2, fst r, Inr True, events)))"

definition replaceChain ::
  "json_text \<Rightarrow> openssl \<Rightarrow> io_env \<Rightarrow> int \<Rightarrow> Block list \<Rightarrow> Blockchain \<Rightarrow> fsys \<Rightarrow>
   Blockchain \<times> fsys \<times> bool result \<times> chain_event list" where
  "replaceChain jt ossl env now newChain bc f =
     (if (case consensusEngine bc of
            Some E \<Rightarrow> \<not> shouldAcceptChain E (chain bc) newChain
          | None \<Rightarrow> length newChain \<le> length (chain bc))
      then (bc, f, Inr False, [])
      else if \<not> validateChainAgainstConsensus ossl (consensusEngine bc) now newChain
      then (bc, f, Inr False, [])
      else let bc1 = bc\<lparr>chain := newChain\<rparr>;
               bc2 = bc1\<lparr>stateManager := rebuildState (chain bc1),
                         chainUpdateVersion := chainUpdateVersion bc1 + 1\<rparr>;
               spent = getAllSpentTxIDs (stateManager bc2);
               bc3 = bc2\<lparr>mempool := filter (\<lambda>tx. txID tx \<notin> spent) (mempool bc2)\<rparr>;
               events = (if onBlockAccepted bc3 \<and> chain bc3 \<noteq> [] then [BlockAccepted (last (chain bc3))] else [])
      in case storage bc3 of
           None \<Rightarrow> (bc3, f, Inr True, events)
         | Some m \<Rightarrow> (case saveChain jt env m (chain bc3) f of
               Inl e \<Rightarrow> (bc3, f, Inl e, [])
             | Inr r \<Rightarrow> (bc3, fst r, Inr True, events)))"


section \<open>Persistence, getters, JSON\<close>

definition persistChain :: "json_text \<Rightarrow> io_env \<Rightarrow> Blockchain \<Rightarrow> fsys \<Rightarrow> fsys result" where
  "persistChain jt env bc f =
     (case storage bc of
        None \<Rightarrow> Inr f
      | Some m \<Rightarrow> ebind (saveChain jt env m (chain bc) f) (\<lambda>r1.
                  ebind (saveState jt env m (stateManager bc) (fst r1)) (\<lambda>r2. Inr (fst r2))))"

definition persistBlock :: "json_text \<Rightarrow> openssl \<Rightarrow> io_env \<Rightarrow> Block \<Rightarrow> Blockchain \<Rightarrow> fsys \<Rightarrow> fsys result" where
  "persistBlock jt ossl env block bc f =
     (case storage bc of
        None \<Rightarrow> Inr f
      | Some m \<Rightarrow> ebind (appendBlock jt ossl env m block f) (\<lambda>r. Inr (fst r)))"

definition getLatestBlock :: "Blockchain \<Rightarrow> Block" where
  "getLatestBlock bc = last (chain bc)"

definition getChainLength :: "Blockchain \<Rightarrow> nat" where
  "getChainLength bc = length (chain bc)"

definition getBalanceForAddress :: "Blockchain \<Rightarrow> string \<Rightarrow> u64" where
  "getBalanceForAddress bc address = getBalance (stateManager bc) address"

definition getLastNonceForAddress :: "Blockchain \<Rightarrow> string \<Rightarrow> u64" where
  "getLastNonceForAddress bc address = getLastNonce (stateManager bc) address"

definition bc_getTransactionsForAddress :: "Blockchain \<Rightarrow> string \<Rightarrow> Transaction list" where
  "bc_getTransactionsForAddress bc address = getTransactionsForAddress (stateManager bc) address"

definition chainToJson :: "Blockchain \<Rightarrow> json" where
  "chainToJson bc = JArr (map block_toJson (chain bc))"

definition chainFromJson ::
  "json_text \<Rightarrow> openssl \<Rightarrow> io_env \<Rightarrow> int \<Rightarrow> json \<Rightarrow> Blockchain \<Rightarrow> fsys \<Rightarrow>
   Blockchain \<times> fsys \<times> bool result \<times> chain_event list" where
  "chainFromJson jt ossl env now j bc f =
     (case emap (block_fromJson ossl) (jelems j) of
        Inl e \<Rightarrow> (bc, f, Inl e, [])
      | Inr newChain \<Rightarrow> replaceChain jt ossl env now newChain bc f)"


definition setOnBlockAdded :: "bool \<Rightarrow> Blockchain \<Rightarrow> Blockchain" where
  "setOnBlockAdded callback bc = bc\<lparr>onBlockAdded := callback\<rparr>"

definition setOnBlockAccepted :: "bool \<Rightarrow> Blockchain \<Rightarrow> Blockchain" where
  "setOnBlockAccepted callback bc = bc\<lparr>onBlockAccepted := callback\<rparr>"

definition setOnTransactionAdded :: "bool \<Rightarrow> Blockchain \<Rightarrow> Blockchain" where
  "setOnTransactionAdded callback bc = bc\<lparr>onTransactionAdded := callback\<rparr>"


section \<open>What each operation does\<close>

lemma isInMempool_iff: "isInMempool i txs \<longleftrightarrow> i \<in> txID ` set txs"
  by (induction txs) auto

text \<open>The conditions under which a transaction is admitted, in one place.\<close>

definition admissible :: "openssl \<Rightarrow> int \<Rightarrow> Transaction \<Rightarrow> Blockchain \<Rightarrow> bool" where
  "admissible ossl now tx bc \<longleftrightarrow>
     \<not> isCoinbase tx \<and> verify_tx ossl tx \<and> amount tx \<noteq> 0 \<and>
     fromAddress tx = deriveAddressV2 ossl (senderPublicKey tx) \<and>
     (let have_now = getBalance (stateManager bc) (fromAddress tx) + pending_incoming (fromAddress tx) (mempool bc);
          out = pending_outgoing (fromAddress tx) (mempool bc)
      in out \<le> have_now \<and> amount tx \<le> have_now - out) \<and>
     tx_nonce tx = highest_seen_nonce (fromAddress tx)
       (getLastNonce (stateManager bc) (fromAddress tx)) (mempool bc) + 1 \<and>
     \<not> isExpired now 300 tx \<and> txID tx \<notin> spentTxIDs (stateManager bc) \<and> txID tx \<notin> txID ` set (mempool bc)"

lemma addTransaction_eq:
  "addTransaction ossl now tx bc =
     (if admissible ossl now tx bc
      then (bc\<lparr>mempool := mempool bc @ [tx], chainUpdateVersion := chainUpdateVersion bc + 1\<rparr>, True,
            if onTransactionAdded bc then [TransactionAdded tx] else [])
      else (bc, False, []))"
  by (simp add: addTransaction_def admissible_def isInMempool_iff isDoubleSpend_def deriveAddressV2_def
      Let_def not_less[symmetric])

lemma mine_result:
  assumes "minePendingTransactions jt ossl env now1 now2 a bc f = Some (bc', f', r, ev)"
  shows "(\<exists>e. bc' = bc \<and> f' = f \<and> r = Inl e \<and> ev = []) \<or>
    (\<exists>d b. next_block_difficulty bc = Inr d \<and>
      seal ossl (consensusEngine bc) a
        (new_block ossl now2 (of_nat (length (chain bc))) (hash (last (chain bc)))
          (mining_coinbase ossl now1 a # take MAX_TXS_PER_BLOCK (mempool bc)) d) = Some b \<and>
      bc' = bc\<lparr>bc_difficulty := d, chain := chain bc @ [b], mempool := drop MAX_TXS_PER_BLOCK (mempool bc),
               stateManager := applyBlockState b (stateManager bc),
               chainUpdateVersion := chainUpdateVersion bc + 1\<rparr> \<and>
      (r = Inr b \<or> (\<exists>m e. storage bc = Some m \<and> appendBlock jt ossl env m b f = Inl e \<and> r = Inl e)) \<and>
      f' = (case storage bc of None \<Rightarrow> f | Some m \<Rightarrow>
             (case appendBlock jt ossl env m b f of Inl e \<Rightarrow> f | Inr s \<Rightarrow> fst s)))"
proof (cases "next_block_difficulty bc")
  case (Inr d)
  have t: "take (min (length (mempool bc)) n) (mempool bc) = take n (mempool bc)" for n
    by (simp add: min_def)
  have dr: "(if length (mempool bc) \<le> min (length (mempool bc)) n then [] else drop (min (length (mempool bc)) n) (mempool bc))
      = drop n (mempool bc)" for n
    by (simp add: min_def)
  show ?thesis
    using assms Inr t[of MAX_TXS_PER_BLOCK] dr[of MAX_TXS_PER_BLOCK]
    by (auto simp: minePendingTransactions_def Let_def bc_applyBlockState_def
        split: option.splits sum.splits)
qed (use assms in \<open>auto simp: minePendingTransactions_def\<close>)

lemma mine_cases:
  assumes "minePendingTransactions jt ossl env now1 now2 a bc f = Some (bc', f', r, ev)"
  obtains (unchanged) "bc' = bc" "f' = f"
  | (mined) d b where "next_block_difficulty bc = Inr d"
      "seal ossl (consensusEngine bc) a
        (new_block ossl now2 (of_nat (length (chain bc))) (hash (last (chain bc)))
          (mining_coinbase ossl now1 a # take MAX_TXS_PER_BLOCK (mempool bc)) d) = Some b"
      "bc' = bc\<lparr>bc_difficulty := d, chain := chain bc @ [b], mempool := drop MAX_TXS_PER_BLOCK (mempool bc),
               stateManager := applyBlockState b (stateManager bc),
               chainUpdateVersion := chainUpdateVersion bc + 1\<rparr>"
      "f' = (case storage bc of None \<Rightarrow> f | Some m \<Rightarrow>
             (case appendBlock jt ossl env m b f of Inl e \<Rightarrow> f | Inr s \<Rightarrow> fst s))"
  using mine_result[OF assms] that by metis

lemma acceptBlock_result:
  assumes "acceptBlock jt ossl env now b bc f = (bc', f', r, ev)"
  shows "(bc' = bc \<and> f' = f \<and> r = Inr False \<and> ev = []) \<or>
    (chain bc \<noteq> [] \<and> bk_index b = of_nat (length (chain bc)) \<and> previousHash b = hash (last (chain bc)) \<and>
     validateChainAgainstConsensus ossl (consensusEngine bc) now (chain bc @ [b]) \<and>
     bc' = bc\<lparr>chain := chain bc @ [b], mempool := filter (\<lambda>p. txID p \<notin> txID ` set (transactions b)) (mempool bc),
              stateManager := applyBlockState b (stateManager bc),
              chainUpdateVersion := chainUpdateVersion bc + 1\<rparr> \<and>
     (r = Inr True \<or> (\<exists>m e. storage bc = Some m \<and> appendBlock jt ossl env m b f = Inl e \<and> r = Inl e)) \<and>
     f' = (case storage bc of None \<Rightarrow> f | Some m \<Rightarrow>
             (case appendBlock jt ossl env m b f of Inl e \<Rightarrow> f | Inr s \<Rightarrow> fst s)))"
proof -
  have c: "confirmed_in b p \<longleftrightarrow> txID p \<in> txID ` set (transactions b)" for p
    by (auto simp: confirmed_in_def list_ex_iff image_iff dest: sym)
  show ?thesis
    using assms
    by (auto simp: acceptBlock_def Let_def bc_applyBlockState_def c split: if_splits option.splits sum.splits)
qed

lemma replaceChain_result:
  assumes "replaceChain jt ossl env now new bc f = (bc', f', r, ev)"
  shows "(bc' = bc \<and> f' = f \<and> r = Inr False \<and> ev = []) \<or>
    ((case consensusEngine bc of Some E \<Rightarrow> shouldAcceptChain E (chain bc) new
        | None \<Rightarrow> length (chain bc) < length new) \<and>
     validateChainAgainstConsensus ossl (consensusEngine bc) now new \<and>
     bc' = bc\<lparr>chain := new, mempool := filter (\<lambda>tx. txID tx \<notin> spentTxIDs (rebuildState new)) (mempool bc),
              stateManager := rebuildState new, chainUpdateVersion := chainUpdateVersion bc + 1\<rparr> \<and>
     (r = Inr True \<or> (\<exists>m e. storage bc = Some m \<and> saveChain jt env m new f = Inl e \<and> r = Inl e)) \<and>
     f' = (case storage bc of None \<Rightarrow> f | Some m \<Rightarrow>
             (case saveChain jt env m new f of Inl e \<Rightarrow> f | Inr s \<Rightarrow> fst s)))"
  using assms
  by (auto simp: replaceChain_def Let_def getAllSpentTxIDs_def not_less not_le
      split: if_splits option.splits sum.splits)



section \<open>Runs of the node and their invariant\<close>

definition mempool_tx_ok :: "openssl \<Rightarrow> Transaction \<Rightarrow> bool" where
  "mempool_tx_ok ossl tx \<longleftrightarrow> \<not> isCoinbase tx \<and> verify_tx ossl tx \<and> amount tx \<noteq> 0 \<and>
     fromAddress tx = deriveAddressV2 ossl (senderPublicKey tx)"

definition chain_inv :: "openssl \<Rightarrow> Blockchain \<Rightarrow> bool" where
  "chain_inv ossl bc \<longleftrightarrow>
     isChainValid ossl (chain bc) \<and> stateManager bc = rebuildState (chain bc) \<and>
     (\<forall>tx \<in> set (mempool bc). mempool_tx_ok ossl tx) \<and> distinct (map txID (mempool bc)) \<and>
     (\<forall>tx \<in> set (mempool bc). txID tx \<notin> spentTxIDs (stateManager bc))"

definition engine_ok :: "openssl \<Rightarrow> Blockchain \<Rightarrow> bool" where
  "engine_ok ossl bc \<longleftrightarrow> (\<forall>E. consensusEngine bc = Some E \<longrightarrow> engine_laws ossl E)"

text \<open>
  One call of a public method that changes the state, with any clock reading, any faults of
  the file system and any arguments. A chain has fewer than \<open>2^64\<close> blocks when one is mined.
\<close>

inductive chain_step ::
  "json_text \<Rightarrow> openssl \<Rightarrow> Blockchain \<times> fsys \<Rightarrow> Blockchain \<times> fsys \<Rightarrow> bool" for jt ossl where
  submit: "addTransaction ossl now tx bc = (bc', r, ev) \<Longrightarrow> chain_step jt ossl (bc, f) (bc', f)"
| mine: "minePendingTransactions jt ossl env now1 now2 a bc f = Some (bc', f', r, ev) \<Longrightarrow>
    length (chain bc) < 2 ^ 64 \<Longrightarrow> chain_step jt ossl (bc, f) (bc', f')"
| accept: "acceptBlock jt ossl env now b bc f = (bc', f', r, ev) \<Longrightarrow> chain_step jt ossl (bc, f) (bc', f')"
| replace: "replaceChain jt ossl env now new bc f = (bc', f', r, ev) \<Longrightarrow> chain_step jt ossl (bc, f) (bc', f')"
| load_json: "chainFromJson jt ossl env now j bc f = (bc', f', r, ev) \<Longrightarrow> chain_step jt ossl (bc, f) (bc', f')"
| persist: "persistChain jt env bc f = Inr f' \<Longrightarrow> chain_step jt ossl (bc, f) (bc, f')"

inductive_cases chain_stepE: "chain_step jt ossl (bc, f) s'"

inductive chain_reachable ::
  "json_text \<Rightarrow> openssl \<Rightarrow> Blockchain \<times> fsys \<Rightarrow> Blockchain \<times> fsys \<Rightarrow> bool" for jt ossl where
  refl: "chain_reachable jt ossl s s"
| step: "chain_reachable jt ossl s s' \<Longrightarrow> chain_step jt ossl s' s'' \<Longrightarrow> chain_reachable jt ossl s s''"

text \<open>The block that mining appends is a valid link.\<close>

lemma new_block_sel [simp]:
  "bk_index (new_block ossl now i h txs d) = i" "previousHash (new_block ossl now i h txs d) = h"
  "transactions (new_block ossl now i h txs d) = txs" "difficulty (new_block ossl now i h txs d) = d"
  "bk_timestamp (new_block ossl now i h txs d) = format_now now"
  by (simp_all add: new_block_def Let_def)

lemma seal_facts:
  assumes "engine_ok ossl bc" "next_block_difficulty bc = Inr d"
    and "seal ossl (consensusEngine bc) a b = Some r" "difficulty b = d"
  shows "isValid ossl r \<and> transactions r = transactions b \<and> bk_index r = bk_index b \<and>
    previousHash r = previousHash b \<and> bk_timestamp r = bk_timestamp b \<and> difficulty r = d"
proof (cases "consensusEngine bc")
  case None
  with assms show ?thesis by (auto simp: seal_def dest: mineBlock_valid)
next
  case (Some E)
  then have E: "engine_laws ossl E" "sealBlock E b a = Some r"
      "nextDifficulty E (chain bc) (bc_difficulty bc) = Inr d"
    using assms by (simp_all add: engine_ok_def seal_def next_block_difficulty_def)
  show ?thesis
    using engine_laws.seal_frame[OF E(1,2)] engine_laws.seal_valid[OF E(1,3) assms(4) E(2)] assms(4) by simp
qed

lemma mining_coinbase_coinbase [simp]: "isCoinbase (mining_coinbase ossl now a)"
  by (simp add: mining_coinbase_def computeTxID_def isCoinbase_def)

lemma mined_link:
  assumes "engine_ok ossl bc" "next_block_difficulty bc = Inr d" "length (chain bc) < 2 ^ 64"
    and "seal ossl (consensusEngine bc) a
      (new_block ossl now2 (of_nat (length (chain bc))) (hash (last (chain bc)))
        (mining_coinbase ossl now1 a # txs) d) = Some b"
    and "\<forall>tx \<in> set txs. verify_tx ossl tx"
  shows "valid_link ossl (length (chain bc)) b (last (chain bc)) \<and>
    transactions b = mining_coinbase ossl now1 a # txs \<and> bk_timestamp b = format_now now2"
  using seal_facts[OF assms(1,2,4)] assms(3,5)
  by (simp add: valid_link_iff hasValidTransactions_iff unat_of_nat take_bit_nat_eq_self)

lemma spent_applyBlockState_new:
  "spentTxIDs (applyBlockState b s) \<subseteq> spentTxIDs s \<union> txID ` set (transactions b)"
  by (auto simp: spent_applyBlockState block_spends_def)

lemma rebuild_snoc_state:
  "s = rebuildState c \<Longrightarrow> applyBlockState b s = rebuildState (c @ [b])"
  by (simp add: sm.rebuild_snoc)


section \<open>Every operation keeps the invariant\<close>

lemma addTransaction_inv [inv_intros]:
  assumes "chain_inv ossl bc" "addTransaction ossl now tx bc = (bc', r, ev)"
  shows "chain_inv ossl bc'"
  using assms
  by (auto simp: addTransaction_eq admissible_def chain_inv_def mempool_tx_ok_def split: if_splits)

lemma mine_inv [inv_intros]:
  assumes "chain_inv ossl bc" "engine_ok ossl bc" "length (chain bc) < 2 ^ 64"
    and "minePendingTransactions jt ossl env now1 now2 a bc f = Some (bc', f', r, ev)"
  shows "chain_inv ossl bc'"
  using assms(4)
proof (cases rule: mine_cases)
  let ?txs = "take MAX_TXS_PER_BLOCK (mempool bc)"
  case (mined d b)
  note d = mined(1) and s = mined(2) and bc' = mined(3)
  have v: "\<forall>tx \<in> set ?txs. verify_tx ossl tx"
    using assms(1) by (auto simp: chain_inv_def mempool_tx_ok_def dest: in_set_takeD)
  note b = mined_link[OF assms(2) d assms(3) s v]
  have m: "set (drop MAX_TXS_PER_BLOCK (mempool bc)) \<subseteq> set (mempool bc)" by (rule set_drop_subset)
  have di: "distinct (map txID ?txs @ map txID (drop MAX_TXS_PER_BLOCK (mempool bc)))"
    using assms(1) by (simp add: chain_inv_def flip: map_append)
  have sp: "spentTxIDs (applyBlockState b (stateManager bc)) = spentTxIDs (stateManager bc) \<union> block_spends b"
    by (rule spent_applyBlockState)
  have bs: "block_spends b \<subseteq> txID ` set ?txs" using b by (auto simp: block_spends_def)
  have "chain bc \<noteq> []" using assms(1) by (auto simp: chain_inv_def)
  then show ?thesis
    using assms(1) b m di sp bs rebuild_snoc_state[of "stateManager bc" "chain bc" b]
    by (auto simp: bc' chain_inv_def isChainValid_snoc)
qed (use assms in auto)

lemma acceptBlock_inv [inv_intros]:
  assumes "chain_inv ossl bc" "acceptBlock jt ossl env now b bc f = (bc', f', r, ev)"
  shows "chain_inv ossl bc'"
  using acceptBlock_result[OF assms(2)] assms(1) spent_applyBlockState_new[of b "stateManager bc"]
    rebuild_snoc_state[of "stateManager bc" "chain bc" b]
  by (auto simp: chain_inv_def distinct_map_filter dest: validate_isChainValid)

lemma replaceChain_inv [inv_intros]:
  assumes "chain_inv ossl bc" "replaceChain jt ossl env now new bc f = (bc', f', r, ev)"
  shows "chain_inv ossl bc'"
  using replaceChain_result[OF assms(2)] assms(1)
  by (auto simp: chain_inv_def distinct_map_filter dest: validate_isChainValid)

lemma chainFromJson_inv [inv_intros]:
  assumes "chain_inv ossl bc" "chainFromJson jt ossl env now j bc f = (bc', f', r, ev)"
  shows "chain_inv ossl bc'"
  using assms replaceChain_inv by (auto simp: chainFromJson_def split: sum.splits)


lemma step_frame:
  assumes "chain_step jt ossl (bc, f) (bc', f')"
  shows "consensusEngine bc' = consensusEngine bc" "storage bc' = storage bc"
    "engine_ok ossl bc \<Longrightarrow> length (chain bc) \<le> length (chain bc')"
proof -
  have accept: "consensusEngine bc' = consensusEngine bc \<and> storage bc' = storage bc \<and>
      (engine_ok ossl bc \<longrightarrow> length (chain bc) \<le> length (chain bc'))"
    if "replaceChain jt ossl env now new bc f = (bc', f', r, ev)" for env now new r ev
    using replaceChain_result[OF that]
    by (auto simp: engine_ok_def split: option.splits dest: engine_laws.accept_longer)
  have mined: "consensusEngine bc' = consensusEngine bc \<and> storage bc' = storage bc \<and>
      length (chain bc) \<le> length (chain bc')"
    if "minePendingTransactions jt ossl env now1 now2 a bc f = Some (bc', f', r, ev)" for env now1 now2 a r ev
    using that by (cases rule: mine_cases) auto
  have "consensusEngine bc' = consensusEngine bc \<and> storage bc' = storage bc \<and>
      (engine_ok ossl bc \<longrightarrow> length (chain bc) \<le> length (chain bc'))"
    using assms
    by (cases rule: chain_stepE)
      (auto simp: addTransaction_eq accept chainFromJson_def split: if_splits sum.splits
        dest!: acceptBlock_result mined)
  then show "consensusEngine bc' = consensusEngine bc" "storage bc' = storage bc"
    "engine_ok ossl bc \<Longrightarrow> length (chain bc) \<le> length (chain bc')" by simp_all
qed

lemma step_inv:
  assumes "chain_step jt ossl (bc, f) (bc', f')" "chain_inv ossl bc" "engine_ok ossl bc"
  shows "chain_inv ossl bc' \<and> engine_ok ossl bc'"
proof
  show "engine_ok ossl bc'" using step_frame(1)[OF assms(1)] assms(3) by (simp add: engine_ok_def)
  show "chain_inv ossl bc'"
    using assms(1)
    by (cases rule: chain_stepE) (use assms(2,3) in \<open>auto intro: inv_intros\<close>)
qed

lemma reachable_inv:
  assumes "chain_reachable jt ossl s s'" "chain_inv ossl (fst s)" "engine_ok ossl (fst s)"
  shows "chain_inv ossl (fst s') \<and> engine_ok ossl (fst s') \<and>
    length (chain (fst s)) \<le> length (chain (fst s')) \<and>
    consensusEngine (fst s') = consensusEngine (fst s) \<and> storage (fst s') = storage (fst s)"
  using assms
proof (induction rule: chain_reachable.induct)
  case (step s s' s'')
  obtain bc' f' bc'' f'' where s: "s' = (bc', f')" "s'' = (bc'', f'')" by (cases s'; cases s'')
  have "chain_inv ossl bc'" "engine_ok ossl bc'" using step s by simp_all
  with step s show ?case using step_inv[of jt ossl bc' f' bc'' f''] step_frame[of jt ossl bc' f' bc'' f''] by auto
qed simp

section \<open>The constructor\<close>

lemma genesis_valid:
  assumes "createGenesis ossl d = Some g"
  shows "valid_genesis ossl g \<and> bk_index g = 0 \<and> transactions g = [genesis_coinbase ossl] \<and> difficulty g = d"
  using mineBlock_valid[OF assms[unfolded createGenesis_def Let_def]]
  by (simp add: valid_genesis_iff isValid_iff default_block_def)

lemma fresh_inv:
  assumes "createGenesis ossl d = Some g"
  shows "chain_inv ossl ((bc_applyBlockState g (empty_blockchain d' eng sto\<lparr>chain := [g]\<rparr>))\<lparr>chainUpdateVersion := v\<rparr>)"
  using genesis_valid[OF assms]
  by (simp add: chain_inv_def bc_applyBlockState_def empty_blockchain_def rebuildState_def)

text \<open>What the constructor leaves behind: a persisted valid chain, or a fresh genesis block.\<close>

lemma new_blockchain_cases:
  assumes "new_blockchain jt ossl env now d eng sto f = Some (Inr (bc, f'))"
  obtains (loaded) m where "sto = Some m" "f' = f" "chain bc = loadChain jt ossl env m f"
      "validateChainAgainstConsensus ossl eng now (chain bc)"
      "bc = empty_blockchain d eng sto\<lparr>chain := chain bc, stateManager := rebuildState (chain bc),
         chainUpdateVersion := 1\<rparr>"
  | (fresh) g where "createGenesis ossl d = Some g"
      "bc = (bc_applyBlockState g (empty_blockchain d eng sto\<lparr>chain := [g]\<rparr>))\<lparr>chainUpdateVersion := 1\<rparr>"
      "case sto of None \<Rightarrow> f' = f | Some m \<Rightarrow> \<exists>ok. saveChain jt env m [g] f = Inr (f', ok)"
  using assms that
  by (auto simp: new_blockchain_def Let_def empty_blockchain_def bc_applyBlockState_def
      split: option.splits if_splits)

lemma new_blockchain_inv:
  assumes "new_blockchain jt ossl env now d eng sto f = Some (Inr (bc, f'))"
  shows "chain_inv ossl bc \<and> consensusEngine bc = eng \<and> storage bc = sto \<and> mempool bc = []"
  using assms
proof (cases rule: new_blockchain_cases)
  case (loaded m)
  have "isChainValid ossl (chain bc)" using loaded(4) by (rule validate_isChainValid)
  then show ?thesis by (subst (1 2 3 4) loaded(5)) (simp add: chain_inv_def empty_blockchain_def)
next
  case (fresh g)
  show ?thesis
    using fresh_inv[OF fresh(1)] unfolding fresh(2) by (simp add: empty_blockchain_def bc_applyBlockState_def)
qed



section \<open>A node for the examples\<close>

text \<open>The node's engines: none, proof of work with any adjuster, or the proof-of-stake skeleton.\<close>

definition program_engine :: "openssl \<Rightarrow> IConsensusEngine option \<Rightarrow> bool" where
  "program_engine ossl eng \<longleftrightarrow>
     eng = None \<or> (\<exists>adj. eng = Some (PoWEngine ossl adj)) \<or> eng = Some (PoSEngine ossl)"

lemma program_engine_ok: "program_engine ossl (consensusEngine bc) \<Longrightarrow> engine_ok ossl bc"
  using pow_engine_laws pos_engine_laws by (auto simp: program_engine_def engine_ok_def)

lemma program_engine_longer:
  "program_engine ossl eng \<Longrightarrow>
   (case eng of Some E \<Rightarrow> \<not> shouldAcceptChain E c new | None \<Rightarrow> length new \<le> length c) \<longleftrightarrow>
     \<not> length c < length new"
  by (auto simp: program_engine_def PoWEngine_def PoSEngine_def longer_chain_def)

lemma demo_new_blockchain:
  obtains g bc where "createGenesis demo_openssl 1 = Some g"
    "new_blockchain demo_json demo_openssl no_faults now 1 eng None Map.empty = Some (Inr (bc, Map.empty))"
    "chain bc = [g]" "mempool bc = []" "consensusEngine bc = eng" "storage bc = None"
    "stateManager bc = rebuildState [g]" "bc_difficulty bc = 1"
proof -
  let ?b = "default_block\<lparr>bk_index := 0, previousHash := replicate 64 CHR ''0'', difficulty := 1,
     bk_timestamp := genesis_timestamp, transactions := [genesis_coinbase demo_openssl]\<rparr>"
  let ?c = "?b\<lparr>merkleRoot := computeMerkleRoot demo_openssl ?b\<rparr>"
  obtain g where "mineBlock demo_openssl ?c = Some g"
    by (rule demo_mines[of ?c]) simp
  then have g: "createGenesis demo_openssl 1 = Some g" by (simp add: createGenesis_def Let_def)
  define bc where
    "bc = (bc_applyBlockState g (empty_blockchain 1 eng None\<lparr>chain := [g]\<rparr>))\<lparr>chainUpdateVersion := 1\<rparr>"
  have f: "chain bc = [g]" "mempool bc = []" "consensusEngine bc = eng" "storage bc = None"
      "stateManager bc = rebuildState [g]" "bc_difficulty bc = 1"
    by (simp_all add: bc_def empty_blockchain_def bc_applyBlockState_def rebuildState_def)
  have n: "new_blockchain demo_json demo_openssl no_faults now 1 eng None Map.empty = Some (Inr (bc, Map.empty))"
    by (simp add: new_blockchain_def g Let_def bc_def) (simp add: empty_blockchain_def)
  show ?thesis using that[OF g n f] .
qed

lemma node_reachable_inv:
  assumes "new_blockchain jt ossl env now d eng sto f = Some (Inr s0)" "program_engine ossl eng"
    and "chain_reachable jt ossl s0 (bc, f')"
  shows "chain_inv ossl bc" "engine_ok ossl bc" "length (chain (fst s0)) \<le> length (chain bc)"
    "consensusEngine bc = eng" "storage bc = sto"
proof -
  obtain bc0 f0 where s0: "s0 = (bc0, f0)" by (cases s0)
  have i: "chain_inv ossl bc0" "consensusEngine bc0 = eng" "storage bc0 = sto"
    using new_blockchain_inv[of jt ossl env now d eng sto f bc0 f0] assms(1) by (simp_all add: s0)
  have "engine_ok ossl bc0" using assms(2) i(2) by (intro program_engine_ok) simp
  then show "chain_inv ossl bc" "engine_ok ossl bc" "length (chain (fst s0)) \<le> length (chain bc)"
    "consensusEngine bc = eng" "storage bc = sto"
    using reachable_inv[OF assms(3)] i unfolding s0 fst_conv by blast+
qed


text \<open>A run: genesis, one block mined for an address, one transfer from it submitted.\<close>

definition demo_transfer :: Transaction where
  "demo_transfer = demo_tx ''bob'' 5 1 ''hi'' (currentTimestamp 0)"

lemma demo_transfer_sel [simp]:
  "\<not> isCoinbase demo_transfer" "fromAddress demo_transfer = demo_from" "toAddress demo_transfer = ''bob''"
  "amount demo_transfer = 5" "tx_nonce demo_transfer = 1" "senderPublicKey demo_transfer = ''22''"
  "verify_tx demo_openssl demo_transfer"
  by (simp_all add: demo_transfer_def verify_demo_tx)

lemma demo_transfer_fresh: "\<not> isExpired 0 300 demo_transfer"
proof -
  obtain g where g: "get_time (format_now 0) = Some g" "timegm g = 0"
    using format_now_parsed[of 0] by auto
  have "tx_timestamp demo_transfer = format_now 0" by (simp add: demo_transfer_def currentTimestamp_def)
  with g show ?thesis by (subst isExpired_in_range[of _ g]) (simp_all add: tdiv_def)
qed

lemma genesis_coinbase_sel [simp]:
  "isCoinbase (genesis_coinbase ossl)" "toAddress (genesis_coinbase ossl) = ''GENESIS''"
  "amount (genesis_coinbase ossl) = 50"
  by (simp_all add: genesis_coinbase_def computeTxID_def isCoinbase_def)

lemma mining_coinbase_sel [simp]:
  "toAddress (mining_coinbase ossl now a) = a" "amount (mining_coinbase ossl now a) = 50"
  by (simp_all add: mining_coinbase_def computeTxID_def kBlockReward_def)

lemma demo_mined:
  assumes "createGenesis demo_openssl 1 = Some g" "chain bc = [g]" "mempool bc = []"
    "consensusEngine bc = None \<or> consensusEngine bc = Some (PoWEngine demo_openssl default_adjuster)"
    "storage bc = None" "stateManager bc = rebuildState [g]" "bc_difficulty bc = 1"
  obtains b bc1 where
    "minePendingTransactions demo_json demo_openssl no_faults 0 0 demo_from bc f = Some (bc1, f, Inr b,
       (if onBlockAdded bc then [BlockAdded b] else []) @ (if onBlockAccepted bc then [BlockAccepted b] else []))"
    "chain bc1 = [g, b]" "mempool bc1 = []" "stateManager bc1 = rebuildState [g, b]"
    "transactions b = [mining_coinbase demo_openssl 0 demo_from]"
    "consensusEngine bc1 = consensusEngine bc" "storage bc1 = None" "bc_difficulty bc1 = 1"
proof -
  let ?n = "new_block demo_openssl 0 1 (hash g) [mining_coinbase demo_openssl 0 demo_from] 1"
  obtain b where b: "mineBlock demo_openssl ?n = Some b" by (rule demo_mines[of ?n]) simp
  have t: "transactions b = [mining_coinbase demo_openssl 0 demo_from]" using mineBlock_valid[OF b] by simp
  define bc1 where "bc1 = bc\<lparr>chain := [g, b], stateManager := rebuildState [g, b],
    chainUpdateVersion := chainUpdateVersion bc + 1\<rparr>"
  have st: "applyBlockState b (rebuildState [g]) = rebuildState [g, b]" by (simp add: rebuildState_def)
  have e: "bc\<lparr>bc_difficulty := 1, chain := [g, b], stateManager := rebuildState [g, b],
      chainUpdateVersion := chainUpdateVersion bc + 1, mempool := []\<rparr> = bc1"
    using assms by (simp add: bc1_def)
  have eng: "next_block_difficulty bc = Inr 1"
      "seal demo_openssl (consensusEngine bc) demo_from c = mineBlock demo_openssl c" for c
    using assms(2,4,7)
    by (auto simp: next_block_difficulty_def seal_def PoWEngine_def pow_sealBlock_def
        calculateNextDifficulty_def default_adjuster_def)
  have ev: "onBlockAdded bc1 = onBlockAdded bc" "onBlockAccepted bc1 = onBlockAccepted bc"
    by (simp_all add: bc1_def)
  have "minePendingTransactions demo_json demo_openssl no_faults 0 0 demo_from bc f = Some (bc1, f, Inr b,
       (if onBlockAdded bc then [BlockAdded b] else []) @ (if onBlockAccepted bc then [BlockAccepted b] else []))"
    using b assms(2-7) e ev
    by (simp add: minePendingTransactions_def eng bc_applyBlockState_def st Let_def)
  then show ?thesis using that[of bc1 b] t assms(3,5,7) by (simp add: bc1_def)
qed

lemma demo_admissible:
  assumes "createGenesis demo_openssl 1 = Some g" "transactions b = [mining_coinbase demo_openssl 0 demo_from]"
    and "mempool bc = []" "stateManager bc = rebuildState [g, b]"
  shows "admissible demo_openssl 0 demo_transfer bc"
proof -
  have tx: "transactions g = [genesis_coinbase demo_openssl]" using genesis_valid[OF assms(1)] by simp
  have ne: "demo_from \<noteq> []" "demo_from \<noteq> ''GENESIS''" by (simp_all add: demo_from_def deriveAddressV2_def)
  have st: "rebuildState [g, b] = apply_tx (mining_coinbase demo_openssl 0 demo_from)
      (apply_tx (genesis_coinbase demo_openssl) clear_state)"
    by (simp add: rebuildState_def applyBlockState_def tx assms(2))
  have "getBalance (rebuildState [g, b]) demo_from = 50"
    using ne by (simp add: st apply_tx_def getBalance_debit getBalance_credit)
  moreover have "getLastNonce (rebuildState [g, b]) demo_from = 0"
    by (simp add: st getLastNonce_apply_tx)
  moreover have "spentTxIDs (rebuildState [g, b]) = {}" by (simp add: st spent_apply_tx)
  ultimately show ?thesis
    using assms(3,4) demo_transfer_fresh
    by (simp add: admissible_def pending_incoming_def pending_outgoing_def highest_seen_nonce_def demo_from_def)
qed

text \<open>The whole run, from the constructor.\<close>

lemma demo_trace:
  obtains bc0 bc1 bc g b ev1 ev2 where
    "createGenesis demo_openssl 1 = Some g"
    "new_blockchain demo_json demo_openssl no_faults 0 1 None None Map.empty = Some (Inr (bc0, Map.empty))"
    "minePendingTransactions demo_json demo_openssl no_faults 0 0 demo_from bc0 Map.empty =
       Some (bc1, Map.empty, Inr b, ev1)"
    "addTransaction demo_openssl 0 demo_transfer bc1 = (bc, True, ev2)"
    "chain bc0 = [g]" "transactions b = [mining_coinbase demo_openssl 0 demo_from]"
    "chain bc = [g, b]" "mempool bc = [demo_transfer]" "stateManager bc = rebuildState [g, b]"
    "consensusEngine bc = None" "storage bc = None" "bc_difficulty bc = 1"
proof -
  obtain g bc0 where n: "createGenesis demo_openssl 1 = Some g"
      "new_blockchain demo_json demo_openssl no_faults 0 1 None None Map.empty = Some (Inr (bc0, Map.empty))"
      "chain bc0 = [g]" "mempool bc0 = []" "consensusEngine bc0 = None" "storage bc0 = None"
      "stateManager bc0 = rebuildState [g]" "bc_difficulty bc0 = 1"
    by (rule demo_new_blockchain[of 0 None])
  obtain b bc1 ev where m: "minePendingTransactions demo_json demo_openssl no_faults 0 0 demo_from bc0 Map.empty =
        Some (bc1, Map.empty, Inr b, ev)"
      "chain bc1 = [g, b]" "mempool bc1 = []" "stateManager bc1 = rebuildState [g, b]"
      "transactions b = [mining_coinbase demo_openssl 0 demo_from]"
      "consensusEngine bc1 = consensusEngine bc0" "storage bc1 = None" "bc_difficulty bc1 = 1"
    using demo_mined[OF n(1,3,4) _ n(6-8)] n(5) by blast
  define bc2 where "bc2 = bc1\<lparr>mempool := [demo_transfer], chainUpdateVersion := chainUpdateVersion bc1 + 1\<rparr>"
  have a: "addTransaction demo_openssl 0 demo_transfer bc1 =
      (bc2, True, if onTransactionAdded bc1 then [TransactionAdded demo_transfer] else [])"
    using demo_admissible[OF n(1) m(5,3,4)] m(3) by (simp add: addTransaction_eq bc2_def)
  show ?thesis using that[OF n(1,2) m(1) a n(3) m(5)] m n(5) by (simp add: bc2_def)
qed

lemma demo_run:
  obtains s0 bc g b where
    "new_blockchain demo_json demo_openssl no_faults 0 1 None None Map.empty = Some (Inr s0)"
    "chain_reachable demo_json demo_openssl s0 (bc, Map.empty)"
    "mempool bc = [demo_transfer]" "chain bc = [g, b]"
proof (rule demo_trace)
  fix bc0 bc1 bc :: Blockchain and g b ev1 ev2
  assume n: "new_blockchain demo_json demo_openssl no_faults 0 1 None None Map.empty = Some (Inr (bc0, Map.empty))"
    and m: "minePendingTransactions demo_json demo_openssl no_faults 0 0 demo_from bc0 Map.empty =
       Some (bc1, Map.empty, Inr b, ev1)"
    and a: "addTransaction demo_openssl 0 demo_transfer bc1 = (bc, True, ev2)"
    and c: "chain bc0 = [g]" "chain bc = [g, b]" "mempool bc = [demo_transfer]"
  have s1: "chain_step demo_json demo_openssl (bc0, Map.empty) (bc1, Map.empty)"
    by (rule chain_step.mine[OF m]) (simp add: c(1))
  have s2: "chain_step demo_json demo_openssl (bc1, Map.empty) (bc, Map.empty)"
    by (rule chain_step.submit[OF a])
  have "chain_reachable demo_json demo_openssl (bc0, Map.empty) (bc, Map.empty)"
    using chain_reachable.step[OF chain_reachable.step[OF chain_reachable.refl s1] s2] .
  then show ?thesis using that[OF n _ c(3,2)] by blast
qed


section \<open>Properties\<close>

text \<open>
  At every moment of a node's life, after any sequence of submitted transactions, mined
  blocks, received blocks and chains, JSON loads and saves, with any clock and any file-system
  faults: the chain is valid, the derived state is exactly the one rebuilt from the chain,
  every mempool transaction verifies, is no coinbase and has the sender's derived address, the
  mempool has no identifier twice and none that the chain has spent; and the chain never gets
  shorter.
\<close>

theorem node_invariant:
  assumes "new_blockchain jt ossl env now d eng sto f = Some (Inr s0)" "program_engine ossl eng"
    and "chain_reachable jt ossl s0 (bc, f')"
  shows "isChainValid ossl (chain bc) \<and> stateManager bc = rebuildState (chain bc) \<and>
    (\<forall>tx \<in> set (mempool bc). \<not> isCoinbase tx \<and> verify_tx ossl tx \<and>
       fromAddress tx = deriveAddressV2 ossl (senderPublicKey tx) \<and>
       \<not> isDoubleSpend (stateManager bc) (txID tx)) \<and>
    distinct (map txID (mempool bc)) \<and> length (chain (fst s0)) \<le> length (chain bc)"
  using node_reachable_inv[OF assms] by (auto simp: chain_inv_def mempool_tx_ok_def isDoubleSpend_def)

theorem node_invariant_witness:
  "\<exists>bc f. chain_reachable demo_json demo_openssl (bc, f) (bc, f) \<and> isChainValid demo_openssl (chain bc)"
proof -
  obtain g bc where b: "new_blockchain demo_json demo_openssl no_faults 0 1 None None Map.empty = Some (Inr (bc, Map.empty))"
    using demo_new_blockchain[of 0 None] by metis
  have "chain_reachable demo_json demo_openssl (bc, Map.empty) (bc, Map.empty)" by (rule chain_reachable.refl)
  with node_invariant[OF b _ this] show ?thesis by (auto simp: program_engine_def)
qed

text \<open>
  C3. No replay: in every state a node can reach, submitting a transaction whose identifier is
  that of a pending transaction or of a confirmed non-coinbase transaction of the chain is
  refused and changes nothing, whatever the clock says and whatever its other fields are.
\<close>

theorem replay_refused:
  assumes "new_blockchain jt ossl env now d eng sto f = Some (Inr s0)" "program_engine ossl eng"
    and "chain_reachable jt ossl s0 (bc, f')"
    and "old \<in> set (mempool bc) \<or> old \<in> set (chain_txs (chain bc)) \<and> \<not> isCoinbase old"
    and "txID tx = txID old"
  shows "addTransaction ossl now' tx bc = (bc, False, [])"
proof -
  have "stateManager bc = rebuildState (chain bc)"
    using node_reachable_inv(1)[OF assms(1-3)] unfolding chain_inv_def by blast
  then have "txID old \<in> spentTxIDs (stateManager bc) \<or> txID old \<in> txID ` set (mempool bc)"
    using assms(4) isDoubleSpend_rebuild[of "chain bc" "txID old"] by (auto simp: isDoubleSpend_def)
  then show ?thesis using assms(5) by (auto simp: addTransaction_eq admissible_def)
qed

theorem replay_refused_witness:
  "\<exists>bc. addTransaction demo_openssl 9 demo_transfer bc = (bc, False, []) \<and> demo_transfer \<in> set (mempool bc)"
proof -
  obtain s0 bc g b where r: "new_blockchain demo_json demo_openssl no_faults 0 1 None None Map.empty = Some (Inr s0)"
    "chain_reachable demo_json demo_openssl s0 (bc, Map.empty)" "mempool bc = [demo_transfer]" "chain bc = [g, b]"
    by (rule demo_run)
  have "addTransaction demo_openssl 9 demo_transfer bc = (bc, False, [])"
    by (rule replay_refused[OF r(1) _ r(2)]) (simp_all add: program_engine_def r(3))
  with r(3) show ?thesis by auto
qed


text \<open>
  C4. Mining in a reachable state appends exactly one valid block that links to the tip: its
  transactions are a reward of 50 for the miner followed by the oldest (at most 100) mempool
  transactions in their order, the rest stays pending in order, and afterwards each mined
  identifier counts as spent.
\<close>

theorem mining_confirms_oldest_pending:
  assumes "new_blockchain jt ossl env now d eng sto f = Some (Inr s0)" "program_engine ossl eng"
    and "chain_reachable jt ossl s0 (bc, f1)" "length (chain bc) < 2 ^ 64"
    and "minePendingTransactions jt ossl env' now1 now2 a bc f1 = Some (bc', f', Inr b, ev)"
  shows "chain bc' = chain bc @ [b] \<and> isChainValid ossl (chain bc') \<and>
    transactions b = mining_coinbase ossl now1 a # take 100 (mempool bc) \<and>
    mempool bc' = drop 100 (mempool bc) \<and>
    (\<forall>tx \<in> set (take 100 (mempool bc)). isDoubleSpend (stateManager bc') (txID tx))"
proof -
  note inv = node_reachable_inv(1,2)[OF assms(1-3)]
  obtain d where d: "next_block_difficulty bc = Inr d"
      "seal ossl (consensusEngine bc) a
        (new_block ossl now2 (of_nat (length (chain bc))) (hash (last (chain bc)))
          (mining_coinbase ossl now1 a # take MAX_TXS_PER_BLOCK (mempool bc)) d) = Some b"
      "bc' = bc\<lparr>bc_difficulty := d, chain := chain bc @ [b], mempool := drop MAX_TXS_PER_BLOCK (mempool bc),
         stateManager := applyBlockState b (stateManager bc), chainUpdateVersion := chainUpdateVersion bc + 1\<rparr>"
    using mine_result[OF assms(5)] by auto
  have m: "\<forall>tx \<in> set (take 100 (mempool bc)). \<not> isCoinbase tx \<and> verify_tx ossl tx"
    using inv(1) by (auto simp: chain_inv_def mempool_tx_ok_def dest: in_set_takeD)
  then have l: "transactions b = mining_coinbase ossl now1 a # take 100 (mempool bc)"
    using mined_link[OF inv(2) d(1) assms(4) d(2)] by (simp add: MAX_TXS_PER_BLOCK_def)
  have "isChainValid ossl (chain bc')"
    using mine_inv[OF inv assms(4,5)] by (simp add: chain_inv_def)
  with l m d(3) show ?thesis
    by (auto simp: MAX_TXS_PER_BLOCK_def isDoubleSpend_def spent_applyBlockState block_spends_def)
qed

theorem mining_confirms_oldest_pending_witness:
  "\<exists>bc' :: Blockchain. isChainValid demo_openssl (chain bc') \<and> length (chain bc') = 2 \<and>
     transactions (last (chain bc')) = [mining_coinbase demo_openssl 0 demo_from]"
proof -
  obtain g bc0 where n: "createGenesis demo_openssl 1 = Some g"
      "new_blockchain demo_json demo_openssl no_faults 0 1 None None Map.empty = Some (Inr (bc0, Map.empty))"
      "chain bc0 = [g]" "mempool bc0 = []" "consensusEngine bc0 = None" "storage bc0 = None"
      "stateManager bc0 = rebuildState [g]" "bc_difficulty bc0 = 1"
    by (rule demo_new_blockchain[of 0 None])
  obtain b bc1 ev where m: "minePendingTransactions demo_json demo_openssl no_faults 0 0 demo_from bc0 Map.empty =
      Some (bc1, Map.empty, Inr b, ev)"
    using demo_mined[OF n(1,3,4) _ n(6-8)] n(5) by blast
  have "chain bc1 = chain bc0 @ [b] \<and> isChainValid demo_openssl (chain bc1) \<and>
      transactions b = mining_coinbase demo_openssl 0 demo_from # take 100 (mempool bc0)"
    using mining_confirms_oldest_pending[OF n(2) _ chain_reachable.refl _ m] n(3)
    by (auto simp add: program_engine_def simp del: isChainValid.simps)
  then have "chain bc1 = [g, b]" "isChainValid demo_openssl (chain bc1)"
      "transactions b = [mining_coinbase demo_openssl 0 demo_from]"
    using n(3,4) by (auto simp del: isChainValid.simps)
  then show ?thesis by (intro exI[of _ bc1]) (simp del: isChainValid.simps)
qed



text \<open>
  C28. Mining does not check its own block: if the tip's timestamp is ahead of the clock (peers'
  blocks may be up to two minutes ahead), a proof-of-work node appends a block with an earlier
  timestamp than its predecessor. From then on its own chain is invalid under its own engine at
  all times, and every block it receives is refused.
\<close>

theorem mining_on_future_tip_breaks_chain:
  assumes "consensusEngine bc = Some (PoWEngine ossl adj)" "chain bc \<noteq> []" "0 \<le> now2" "now2 < 2 ^ 63"
    and "now2 div ns_per_s < parseTimestamp (bk_timestamp (last (chain bc)))"
    and "minePendingTransactions jt ossl env now1 now2 a bc f = Some (bc', f', Inr b, ev)"
  shows "\<not> bc_isChainValid ossl now bc' \<and> acceptBlock jt ossl env' now c bc' f2 = (bc', f2, Inr False, [])"
proof -
  obtain d where d: "seal ossl (consensusEngine bc) a
        (new_block ossl now2 (of_nat (length (chain bc))) (hash (last (chain bc)))
          (mining_coinbase ossl now1 a # take MAX_TXS_PER_BLOCK (mempool bc)) d) = Some b"
      "chain bc' = chain bc @ [b]" "consensusEngine bc' = consensusEngine bc"
    using mine_result[OF assms(6)] by auto
  have "bk_timestamp b = format_now now2"
    using d(1) assms(1) by (auto simp: seal_def PoWEngine_def pow_sealBlock_def dest: mineBlock_valid)
  then have "\<not> validateBlockTimestamp t b (last (chain bc))" for t
    using parse_currentTimestamp[OF assms(3,4)] assms(5) by (simp add: validateBlockTimestamp_iff)
  then have "\<not> validateBlock (PoWEngine ossl adj) t b (last (chain bc))" for t
    by (simp add: PoWEngine_def pow_validateBlock_iff)
  then have bad: "\<not> validateChainAgainstConsensus ossl (consensusEngine bc') t (chain bc')" for t
    using d(2,3) assms(1,2) by (simp add: validate_snoc)
  then have "\<not> validateChainAgainstConsensus ossl (consensusEngine bc') now (chain bc' @ [c])"
    using validate_snoc[of "chain bc'"] d(2) by simp
  with bad show ?thesis by (simp add: bc_isChainValid_def acceptBlock_def Let_def)
qed

lemma genesis_time: "parseTimestamp genesis_timestamp = 1767225600"
proof -
  let ?g = "\<lparr>tm_year = 2026, tm_mon = 1, tm_mday = 1, tm_hour = 0, tm_min = 0, tm_sec = 0\<rparr>"
  have d: "dec 0 = ''0''" "dec 1 = ''1''" "dec 2026 = ''2026''"
    by (simp_all add: dec.simps[of 0] dec.simps[of "Suc 0"] dec.simps[of 2026] dec.simps[of 202] dec.simps[of 20]
        dec.simps[of 2] digit_char_def char_of_eq_iff)
  have "put_time ?g = genesis_timestamp"
    using d by (simp add: put_time_def dec2_def genesis_timestamp_def)
  moreover have "get_time (put_time ?g) = Some ?g" by (rule get_time_put_time) simp_all
  ultimately show ?thesis
    by (simp add: parseTimestamp_def timegm_def days_before_year_def leaps_upto_def days_before_month_def)
qed

theorem mining_on_future_tip_breaks_chain_witness:
  "\<exists>bc b. \<not> bc_isChainValid demo_openssl 0 bc \<and>
     acceptBlock demo_json demo_openssl no_faults 0 b bc Map.empty = (bc, Map.empty, Inr False, [])"
proof -
  let ?pow = "Some (PoWEngine demo_openssl default_adjuster)"
  obtain g bc0 where n: "createGenesis demo_openssl 1 = Some g"
      "new_blockchain demo_json demo_openssl no_faults 0 1 ?pow None Map.empty = Some (Inr (bc0, Map.empty))"
      "chain bc0 = [g]" "mempool bc0 = []" "consensusEngine bc0 = ?pow" "storage bc0 = None"
      "stateManager bc0 = rebuildState [g]" "bc_difficulty bc0 = 1"
    by (rule demo_new_blockchain[of 0 ?pow])
  obtain b bc1 ev where m: "minePendingTransactions demo_json demo_openssl no_faults 0 0 demo_from bc0 Map.empty =
      Some (bc1, Map.empty, Inr b, ev)"
    using demo_mined[OF n(1,3,4) _ n(6-8)] n(5) by blast
  have "bk_timestamp g = genesis_timestamp"
    using mineBlock_valid(5)[OF n(1)[unfolded createGenesis_def Let_def]] by simp
  then have "0 div ns_per_s < parseTimestamp (bk_timestamp (last (chain bc0)))"
    using n(3) genesis_time by simp
  from mining_on_future_tip_breaks_chain[OF n(5) _ _ _ this m] n(3)
  have "\<not> bc_isChainValid demo_openssl 0 bc1 \<and>
      acceptBlock demo_json demo_openssl no_faults 0 b bc1 Map.empty = (bc1, Map.empty, Inr False, [])" by simp
  then show ?thesis by blast
qed

end
