(* ===== verification/Wallet.thy ===== *)
theory Wallet
  imports Blockchain
begin

text \<open>
  \<^verbatim>\<open>src/wallet/wallet.cpp\<close> and \<^verbatim>\<open>src/wallet/wallet_manager.cpp\<close>: key pairs, and the login
  challenges of the wallet service. Random numbers, clock readings (nanoseconds) and generated
  keys are arguments; the challenge store is an unordered map that is never iterated.
\<close>

section \<open>Wallets\<close>

record Wallet =
  w_privateKey :: string
  w_publicKey :: string

definition new_wallet :: "openssl \<Rightarrow> (int \<times> ec_point) option \<Rightarrow> Wallet result" where
  "new_wallet ossl generated =
     ebind (generateKeyPair ossl generated) (\<lambda>kp.
       Inr \<lparr>w_privateKey = kp_privateKey kp, w_publicKey = kp_publicKey kp\<rparr>)"

text \<open>The constructor from a private key; the result of setting the public key is not checked.\<close>

definition wallet_from_key :: "openssl \<Rightarrow> string \<Rightarrow> Wallet result" where
  "wallet_from_key ossl privateKeyHex =
     (case bn_hex2bn ossl privateKeyHex of
        None \<Rightarrow> Inl (RuntimeError ''Failed to parse private key hex'')
      | Some privBN \<Rightarrow>
          if \<not> ec_key_set_private_key ossl privBN
          then Inl (RuntimeError ''Failed to set private key'')
          else (case ec_point_mul ossl privBN of
                  None \<Rightarrow> Inl (RuntimeError ''Failed to derive public key'')
                | Some pubPoint \<Rightarrow>
                    (case ec_point_point2hex ossl pubPoint of
                       None \<Rightarrow> Inl (RuntimeError ''Failed to convert public key to hex'')
                     | Some pubHex \<Rightarrow>
                         Inr \<lparr>w_privateKey = privateKeyHex, w_publicKey = map to_lower pubHex\<rparr>)))"

definition signData :: "openssl \<Rightarrow> Wallet \<Rightarrow> string \<Rightarrow> string result" where
  "signData ossl w data = sign ossl data (w_privateKey w)"

definition wallet_toJson :: "json_text \<Rightarrow> Wallet \<Rightarrow> string result" where
  "wallet_toJson jt w = dump jt (-1) (jobj [(''publicKey'', JStr (w_publicKey w))])"


section \<open>The wallet service\<close>

record ChallengeRecord =
  ch_address :: string
  ch_publicKey :: string
  expiresAt :: int

record WalletManager =
  challengeStore :: "string \<rightharpoonup> ChallengeRecord"

definition new_wallet_manager :: WalletManager where
  "new_wallet_manager = \<lparr>challengeStore = Map.empty\<rparr>"

definition addressFromPublicKey :: "openssl \<Rightarrow> string \<Rightarrow> string" where
  "addressFromPublicKey ossl publicKey = ''PCN_'' @ take 40 (sha256 ossl publicKey)"

text \<open>\<^verbatim>\<open>std::regex_match\<close> with \<^verbatim>\<open>^[0-9a-fA-F]{64}$\<close> and \<^verbatim>\<open>^PCN_[0-9a-fA-F]{40}$\<close>.\<close>

definition isValidPrivateKeyHex :: "string \<Rightarrow> bool" where
  "isValidPrivateKeyHex s \<longleftrightarrow> length s = 64 \<and> list_all is_xdigit s"

definition isValidWalletAddress :: "string \<Rightarrow> bool" where
  "isValidWalletAddress s \<longleftrightarrow>
     length s = 44 \<and> starts_with ''PCN_'' s \<and> list_all is_xdigit (drop 4 s)"

definition importWallet :: "openssl \<Rightarrow> string \<Rightarrow> Wallet result" where
  "importWallet ossl privateKeyHex =
     (if \<not> isValidPrivateKeyHex privateKeyHex
      then Inl (RuntimeError ''Invalid private key format'')
      else wallet_from_key ossl privateKeyHex)"

definition randomChallenge :: "openssl \<Rightarrow> u64 \<Rightarrow> u64 \<Rightarrow> int \<Rightarrow> string" where
  "randomChallenge ossl r1 r2 now =
     sha256 ossl (to_string r1 @ '':'' @ to_string r2 @ '':'' @ dec_int now)"

abbreviation five_minutes :: int where
  "five_minutes \<equiv> 300000000000"

definition createLoginChallenge ::
  "openssl \<Rightarrow> u64 \<Rightarrow> u64 \<Rightarrow> int \<Rightarrow> int \<Rightarrow> string \<Rightarrow> string \<Rightarrow> WalletManager \<Rightarrow>
   (WalletManager \<times> string) result" where
  "createLoginChallenge ossl r1 r2 now1 now2 address publicKey m =
     (let derived = addressFromPublicKey ossl publicKey
      in if derived \<noteq> address then Inl (RuntimeError ''Address/public key mismatch'')
         else let challenge = randomChallenge ossl r1 r2 now1;
                  rec = \<lparr>ch_address = address, ch_publicKey = publicKey, expiresAt = now2 + five_minutes\<rparr>
              in Inr (m\<lparr>challengeStore := (challengeStore m)(challenge \<mapsto> rec)\<rparr>, challenge))"

definition erase_challenge :: "string \<Rightarrow> WalletManager \<Rightarrow> WalletManager" where
  "erase_challenge challenge m = m\<lparr>challengeStore := (challengeStore m)(challenge := None)\<rparr>"

definition session_token :: "openssl \<Rightarrow> string \<Rightarrow> int \<Rightarrow> string" where
  "session_token ossl address now = sha256 ossl (address @ '':'' @ dec_int now)"

definition verifyLogin ::
  "openssl \<Rightarrow> int \<Rightarrow> string \<Rightarrow> string \<Rightarrow> string \<Rightarrow> string \<Rightarrow> WalletManager \<Rightarrow>
   WalletManager \<times> string option" where
  "verifyLogin ossl now address publicKey challenge signatureHex m =
     (case challengeStore m challenge of
        None \<Rightarrow> (m, None)
      | Some rec \<Rightarrow>
          if now > expiresAt rec then (erase_challenge challenge m, None)
          else if ch_address rec \<noteq> address \<or> ch_publicKey rec \<noteq> publicKey
          then (erase_challenge challenge m, None)
          else if addressFromPublicKey ossl publicKey \<noteq> address
          then (erase_challenge challenge m, None)
          else let ok = verify ossl challenge signatureHex publicKey;
                   m' = erase_challenge challenge m
               in if \<not> ok then (m', None) else (m', Some (session_token ossl address now)))"

text \<open>The two out-parameters are part of the result.\<close>

definition verifyPrivateKeyLogin ::
  "openssl \<Rightarrow> int \<Rightarrow> string \<Rightarrow> (string \<times> string \<times> string) option result" where
  "verifyPrivateKeyLogin ossl now privateKeyHex =
     (if \<not> isValidPrivateKeyHex privateKeyHex then Inr None
      else ebind (wallet_from_key ossl privateKeyHex) (\<lambda>w.
        let outPublicKey = w_publicKey w; outAddress = addressFromPublicKey ossl outPublicKey
        in Inr (Some (session_token ossl outAddress now, outAddress, outPublicKey))))"

definition wm_getBalance :: "Blockchain \<Rightarrow> string \<Rightarrow> u64" where
  "wm_getBalance bc address = getBalanceForAddress bc address"

definition wm_getLastNonce :: "Blockchain \<Rightarrow> string \<Rightarrow> u64" where
  "wm_getLastNonce bc address = getLastNonceForAddress bc address"

definition wm_getTransactions :: "Blockchain \<Rightarrow> string \<Rightarrow> Transaction list" where
  "wm_getTransactions bc address = bc_getTransactionsForAddress bc address"


section \<open>Runs of the login protocol\<close>

text \<open>What happened to which challenge, oldest first.\<close>

datatype login_event =
    Created int string string string
  | LoggedIn int string string string
  | Refused string

fun event_challenge :: "login_event \<Rightarrow> string" where
  "event_challenge (Created now c a k) = c"
| "event_challenge (LoggedIn now c a k) = c"
| "event_challenge (Refused c) = c"

inductive login_run :: "openssl \<Rightarrow> login_event list \<Rightarrow> WalletManager \<Rightarrow> bool" for ossl where
  start: "login_run ossl [] new_wallet_manager"
| create: "login_run ossl tr m \<Longrightarrow>
    createLoginChallenge ossl r1 r2 now1 now2 a k m = Inr (m', c) \<Longrightarrow>
    login_run ossl (tr @ [Created now2 c a k]) m'"
| login: "login_run ossl tr m \<Longrightarrow> verifyLogin ossl now a k c sg m = (m', Some token) \<Longrightarrow>
    login_run ossl (tr @ [LoggedIn now c a k]) m'"
| refuse: "login_run ossl tr m \<Longrightarrow> verifyLogin ossl now a k c sg m = (m', None) \<Longrightarrow>
    login_run ossl (tr @ [Refused c]) m'"

text \<open>The challenge was created for this record and nothing has happened to it since.\<close>

definition outstanding :: "openssl \<Rightarrow> login_event list \<Rightarrow> string \<Rightarrow> ChallengeRecord \<Rightarrow> bool" where
  "outstanding ossl tr c rec \<longleftrightarrow>
     (\<exists>pre post. tr = pre @ [Created (expiresAt rec - five_minutes) c (ch_address rec) (ch_publicKey rec)] @ post \<and>
       c \<notin> event_challenge ` set post) \<and>
     ch_address rec = addressFromPublicKey ossl (ch_publicKey rec)"

lemma outstanding_other:
  assumes "outstanding ossl tr c rec" "event_challenge e \<noteq> c"
  shows "outstanding ossl (tr @ [e]) c rec"
proof -
  obtain pre post where p: "tr = pre @ [Created (expiresAt rec - five_minutes) c (ch_address rec) (ch_publicKey rec)] @ post"
      "c \<notin> event_challenge ` set post" "ch_address rec = addressFromPublicKey ossl (ch_publicKey rec)"
    using assms(1) by (auto simp: outstanding_def)
  then show ?thesis
    unfolding outstanding_def using assms(2) by (intro conjI exI[of _ pre] exI[of _ "post @ [e]"]) auto
qed

lemma verifyLogin_erases:
  assumes "verifyLogin ossl now a k c sg m = (m', r)"
  shows "challengeStore m' = (challengeStore m)(c := None)"
  using assms
  by (auto simp: verifyLogin_def erase_challenge_def Let_def fun_eq_iff split: option.splits if_splits)

lemma login_run_outstanding:
  assumes "login_run ossl tr m" "challengeStore m c = Some rec"
  shows "outstanding ossl tr c rec"
  using assms
proof (induction arbitrary: c rec rule: login_run.induct)
  case start
  then show ?case by (simp add: new_wallet_manager_def)
next
  case (create tr m r1 r2 now1 now2 a k m' c')
  show ?case
  proof (cases "c = c'")
    case True
    with create have "rec = \<lparr>ch_address = a, ch_publicKey = k, expiresAt = now2 + five_minutes\<rparr>"
        "addressFromPublicKey ossl k = a"
      by (auto simp: createLoginChallenge_def Let_def split: if_splits)
    with True show ?thesis
      unfolding outstanding_def by (intro conjI exI[of _ tr] exI[of _ "[]"]) auto
  next
    case False
    with create have "outstanding ossl tr c rec"
      by (auto simp: createLoginChallenge_def Let_def split: if_splits)
    with False show ?thesis by (intro outstanding_other) auto
  qed
next
  case (login tr m now a k c' sg m' token)
  then have "c \<noteq> c'" "challengeStore m c = Some rec" using verifyLogin_erases[OF login(2)] by (auto split: if_splits)
  with login show ?case by (intro outstanding_other) auto
next
  case (refuse tr m now a k c' sg m')
  then have "c \<noteq> c'" "challengeStore m c = Some rec" using verifyLogin_erases[OF refuse(2)] by (auto split: if_splits)
  with refuse show ?case by (intro outstanding_other) auto
qed



section \<open>Properties\<close>

lemma verifyLogin_Some:
  "verifyLogin ossl now a k c sg m = (m', Some token) \<longleftrightarrow>
     (\<exists>rec. challengeStore m c = Some rec \<and> now \<le> expiresAt rec \<and> ch_address rec = a \<and> ch_publicKey rec = k \<and>
        addressFromPublicKey ossl k = a \<and> verify ossl c sg k \<and>
        m' = erase_challenge c m \<and> token = session_token ossl a now)"
  by (auto simp: verifyLogin_def Let_def split: option.splits)

text \<open>
  C34. Injective agreement: whenever a login succeeds in any run of the service, the same
  challenge was created before for the same address and public key, at most five minutes
  earlier, nothing else happened to that challenge in between (so it has not been used, nor a
  failed attempt made with it), the address is the one derived from the public key, and the
  signature on the challenge verifies under that key.
\<close>

theorem login_agreement:
  assumes "login_run ossl tr m" "verifyLogin ossl now a k c sg m = (m', Some token)"
  shows "\<exists>pre t post. tr = pre @ [Created t c a k] @ post \<and> c \<notin> event_challenge ` set post \<and>
    now \<le> t + five_minutes \<and> a = addressFromPublicKey ossl k \<and> verify ossl c sg k"
proof -
  obtain rec where rec: "challengeStore m c = Some rec" "now \<le> expiresAt rec" "ch_address rec = a"
      "ch_publicKey rec = k" "addressFromPublicKey ossl k = a" "verify ossl c sg k"
    using assms(2) by (auto simp: verifyLogin_Some)
  then show ?thesis
    using login_run_outstanding[OF assms(1) rec(1)] unfolding outstanding_def by force
qed

text \<open>
  A challenge works once: after any login attempt with it, successful or not, every further
  attempt with the same challenge fails until the service creates that challenge again.
\<close>

theorem challenge_single_use:
  assumes "verifyLogin ossl now a k c sg m = (m', r)"
  shows "verifyLogin ossl now' a' k' c sg' m' = (m', None)"
  using verifyLogin_erases[OF assms] by (simp add: verifyLogin_def)

text \<open>
  The owner of a key can log in: a wallet imported from a private key, asking for a
  challenge for its own address and answering with its signature within five minutes, is given
  a session token.
\<close>

theorem owner_can_log_in:
  assumes "ecdsa_ok ossl" "importWallet ossl priv = Inr w"
    and "createLoginChallenge ossl r1 r2 now1 now2 (addressFromPublicKey ossl (w_publicKey w)) (w_publicKey w) m =
      Inr (m1, c)"
    and "signData ossl w c = Inr sg" "now \<le> now2 + five_minutes"
  shows "\<exists>m2. verifyLogin ossl now (addressFromPublicKey ossl (w_publicKey w)) (w_publicKey w) c sg m1 =
    (m2, Some (session_token ossl (addressFromPublicKey ossl (w_publicKey w)) now))"
proof -
  obtain k pt hx where k: "bn_hex2bn ossl priv = Some k" "ec_point_mul ossl k = Some pt"
      "ec_point_point2hex ossl pt = Some hx" "w = \<lparr>w_privateKey = priv, w_publicKey = map to_lower hx\<rparr>"
    using assms(2) by (auto simp: importWallet_def wallet_from_key_def split: if_splits option.splits)
  have "verify ossl c sg (map to_lower hx)"
    using verify_sign[OF assms(1) _ k(1-3), of c sg] assms(4) by (simp add: signData_def k(4))
  then show ?thesis
    using assms(3,5) by (auto simp: createLoginChallenge_def verifyLogin_def Let_def k(4))
qed

text \<open>A wallet under the concrete OpenSSL parameter, and a run with one login.\<close>

definition demo_private_key :: string where
  "demo_private_key = replicate 64 CHR ''a''"

definition demo_wallet :: Wallet where
  "demo_wallet = \<lparr>w_privateKey = demo_private_key, w_publicKey = replicate 64 CHR ''2''\<rparr>"

lemma demo_import: "importWallet demo_openssl demo_private_key = Inr demo_wallet"
proof -
  have "is_xdigit CHR ''a''" by (simp add: is_xdigit_def less_eq_char_nat)
  moreover have "to_lower CHR ''2'' = CHR ''2''" by (simp add: to_lower_def less_eq_char_nat)
  ultimately show ?thesis
    by (simp add: importWallet_def isValidPrivateKeyHex_def demo_private_key_def wallet_from_key_def
        demo_openssl_def demo_wallet_def list_all_iff)
qed

lemma demo_signData: "\<exists>sg. signData demo_openssl demo_wallet c = Inr sg"
proof -
  have "uint (b :: byte) < 256" for b using unsigned_less[of b] by simp
  then show ?thesis
    by (simp add: signData_def sign_def hexToBytes_sha256 demo_openssl_def demo_wallet_def demo_private_key_def)
qed

theorem owner_can_log_in_witness:
  "let a = addressFromPublicKey demo_openssl (w_publicKey demo_wallet); c = randomChallenge demo_openssl 1 2 3
   in \<exists>m1 m2 sg. verifyLogin demo_openssl 9 a (w_publicKey demo_wallet) c sg m1 =
        (m2, Some (session_token demo_openssl a 9))"
proof -
  let ?a = "addressFromPublicKey demo_openssl (w_publicKey demo_wallet)"
  let ?c = "randomChallenge demo_openssl 1 2 3"
  obtain m1 where m1: "createLoginChallenge demo_openssl 1 2 3 4 ?a (w_publicKey demo_wallet) new_wallet_manager =
      Inr (m1, ?c)"
    by (simp add: createLoginChallenge_def Let_def)
  obtain sg where "signData demo_openssl demo_wallet ?c = Inr sg" using demo_signData by blast
  from owner_can_log_in[OF demo_ecdsa_ok demo_import m1 this, of 9] show ?thesis
    unfolding Let_def by auto
qed

lemma demo_login:
  obtains m m' sg token where
    "login_run demo_openssl [Created 4 (randomChallenge demo_openssl 1 2 3)
       (addressFromPublicKey demo_openssl (w_publicKey demo_wallet)) (w_publicKey demo_wallet)] m"
    "verifyLogin demo_openssl 9 (addressFromPublicKey demo_openssl (w_publicKey demo_wallet))
       (w_publicKey demo_wallet) (randomChallenge demo_openssl 1 2 3) sg m = (m', Some token)"
proof -
  let ?a = "addressFromPublicKey demo_openssl (w_publicKey demo_wallet)"
  let ?c = "randomChallenge demo_openssl 1 2 3"
  obtain m where m: "createLoginChallenge demo_openssl 1 2 3 4 ?a (w_publicKey demo_wallet) new_wallet_manager =
      Inr (m, ?c)"
    by (simp add: createLoginChallenge_def Let_def)
  obtain sg where sg: "signData demo_openssl demo_wallet ?c = Inr sg" using demo_signData by blast
  have "verify demo_openssl ?c sg (map to_lower (replicate 64 CHR ''2''))"
    by (rule verify_sign[OF demo_ecdsa_ok sg[unfolded signData_def], where k = 64 and pt = "Some (64, 64)"])
      (simp_all add: demo_wallet_def demo_private_key_def demo_openssl_def)
  moreover have "to_lower CHR ''2'' = CHR ''2''" by (simp add: to_lower_def less_eq_char_nat)
  ultimately have "verify demo_openssl ?c sg (w_publicKey demo_wallet)" by (simp add: demo_wallet_def)
  then have v: "\<exists>m' t. verifyLogin demo_openssl 9 ?a (w_publicKey demo_wallet) ?c sg m = (m', Some t)"
    using m by (auto simp: createLoginChallenge_def verifyLogin_Some Let_def)
  have "login_run demo_openssl [Created 4 ?c ?a (w_publicKey demo_wallet)] m"
    using login_run.create[OF login_run.start m] by simp
  with v that show ?thesis by blast
qed

theorem login_agreement_witness:
  "\<exists>a k c sg. verify demo_openssl c sg k \<and> a = addressFromPublicKey demo_openssl k"
proof -
  obtain m m' sg token where r:
    "login_run demo_openssl [Created 4 (randomChallenge demo_openssl 1 2 3)
       (addressFromPublicKey demo_openssl (w_publicKey demo_wallet)) (w_publicKey demo_wallet)] m"
    "verifyLogin demo_openssl 9 (addressFromPublicKey demo_openssl (w_publicKey demo_wallet))
       (w_publicKey demo_wallet) (randomChallenge demo_openssl 1 2 3) sg m = (m', Some token)"
    by (rule demo_login)
  from login_agreement[OF this] show ?thesis by blast
qed

theorem challenge_single_use_witness:
  "\<exists>m m' c sg a k. snd (verifyLogin demo_openssl 9 a k c sg m) \<noteq> None \<and>
     verifyLogin demo_openssl 10 a k c sg m' = (m', None)"
proof -
  obtain m m' sg token where r:
    "verifyLogin demo_openssl 9 (addressFromPublicKey demo_openssl (w_publicKey demo_wallet))
       (w_publicKey demo_wallet) (randomChallenge demo_openssl 1 2 3) sg m = (m', Some token)"
    by (rule demo_login)
  from challenge_single_use[OF this] r show ?thesis by (metis option.distinct(1) snd_conv)
qed

end
