(* ===== verification/Node_Identity.thy ===== *)
theory Node_Identity
  imports Wallet
begin

text \<open>
  \<^verbatim>\<open>include/network/node_identity.h\<close>, \<^verbatim>\<open>src/network/node_identity.cpp\<close>: the key pair and the
  advertised endpoint of a node, kept in a JSON file. Reading a JSON value from a stream is the
  argument \<open>jin\<close>: unlike \<^verbatim>\<open>parse\<close> it ignores what follows the value.
\<close>

section \<open>Data and operations\<close>

record NodeIdentityRecord =
  nodeId :: string
  ni_publicKey :: string
  ni_privateKey :: string
  advertisedIp :: string
  ni_port :: u16
  reputation :: int

record NodeIdentity =
  ni_dataDir :: string
  identityPath :: string
  id_record :: NodeIdentityRecord

definition new_node_identity :: "string \<Rightarrow> NodeIdentity" where
  "new_node_identity dir =
     \<lparr>ni_dataDir = dir, identityPath = dir @ ''/node_identity.json'',
      id_record = \<lparr>nodeId = [], ni_publicKey = [], ni_privateKey = [], advertisedIp = [],
                   ni_port = 0, reputation = 100\<rparr>\<rparr>"

text \<open>\<^verbatim>\<open>get<uint16_t>()\<close>.\<close>

definition get_u16 :: "json \<Rightarrow> u16 result" where
  "get_u16 j =
     (case j of
        JUInt w \<Rightarrow> Inr (ucast w)
      | JInt i \<Rightarrow> Inr (word_of_int i)
      | JFloat r \<Rightarrow> if -1 < r \<and> r < 2 ^ 16 then Inr (word_of_int (trunc_rat r)) else Inl UndefinedCast
      | JBool b \<Rightarrow> Inr (if b then 1 else 0)
      | _ \<Rightarrow> Inl (JsonException 302))"

definition detectAdvertisedIp :: string where
  "detectAdvertisedIp = ''127.0.0.1''"

definition identity_file_json :: "NodeIdentityRecord \<Rightarrow> json" where
  "identity_file_json r =
     jobj [(''nodeId'', JStr (nodeId r)), (''publicKey'', JStr (ni_publicKey r)),
           (''privateKey'', JStr (ni_privateKey r)), (''advertisedIp'', JStr (advertisedIp r)),
           (''port'', JUInt (ucast (ni_port r))), (''reputation'', JInt (reputation r))]"

text \<open>
  The file is truncated before the text is made, and \<^verbatim>\<open>dump\<close> may throw; a write that fails is
  not noticed.
\<close>

definition persist :: "json_text \<Rightarrow> io_env \<Rightarrow> NodeIdentity \<Rightarrow> fsys \<Rightarrow> fsys \<times> bool result" where
  "persist jt env ni f =
     (let path = identityPath ni
      in if fails env OpenTmp then (f, Inr False)
         else case dump jt 2 (identity_file_json (id_record ni)) of
                Inl e \<Rightarrow> (f(path \<mapsto> []), Inl e)
              | Inr s \<Rightarrow>
                  let text = s @ [CHR 0x0A]
                  in (f(path \<mapsto> (if fails env WriteTmp then take (written env) text else text)), Inr True))"

definition load_identity ::
  "(string \<Rightarrow> json result) \<Rightarrow> u16 \<Rightarrow> string \<Rightarrow> string \<Rightarrow> NodeIdentityRecord result" where
  "load_identity jin listenPort publicIpOverride content =
     ebind (jin content) (\<lambda>j.
     ebind (jvalue get_str ''publicKey'' [] j) (\<lambda>pub.
     ebind (jvalue get_str ''privateKey'' [] j) (\<lambda>priv.
     ebind (jvalue get_str ''nodeId'' [] j) (\<lambda>nid.
     ebind (jvalue get_str ''advertisedIp'' [] j) (\<lambda>ip.
     ebind (jvalue get_u16 ''port'' listenPort j) (\<lambda>p.
     ebind (jvalue get_int ''reputation'' 100 j) (\<lambda>rep.
       if pub = [] \<or> priv = [] \<or> nid = [] then Inl (RuntimeError ''Identity file is incomplete'')
       else let ip1 = (if publicIpOverride \<noteq> [] then publicIpOverride else ip);
                ip2 = (if ip1 = [] then detectAdvertisedIp else ip1)
            in Inr \<lparr>nodeId = nid, ni_publicKey = pub, ni_privateKey = priv, advertisedIp = ip2,
                    ni_port = listenPort, reputation = rep\<rparr>)))))))"

text \<open>
  Every exception of the first part, also one from writing the file back, leads to a new key
  pair; an exception of the second part leaves the function. Creating the directory is not
  checked.
\<close>

definition create_identity ::
  "json_text \<Rightarrow> openssl \<Rightarrow> io_env \<Rightarrow> (int \<times> ec_point) option \<Rightarrow> u16 \<Rightarrow> string \<Rightarrow>
   NodeIdentity \<Rightarrow> fsys \<Rightarrow> NodeIdentity \<times> fsys \<times> bool result" where
  "create_identity jt ossl env generated listenPort publicIpOverride ni f =
     (case new_wallet ossl generated of
        Inl e \<Rightarrow> (ni, f, Inl e)
      | Inr wallet \<Rightarrow>
          let ni' = ni\<lparr>id_record :=
                \<lparr>nodeId = sha256 ossl (w_publicKey wallet), ni_publicKey = w_publicKey wallet,
                 ni_privateKey = w_privateKey wallet,
                 advertisedIp = (if publicIpOverride = [] then detectAdvertisedIp else publicIpOverride),
                 ni_port = listenPort, reputation = 100\<rparr>\<rparr>
          in (ni', persist jt env ni' f))"

definition loadOrCreate ::
  "json_text \<Rightarrow> (string \<Rightarrow> json result) \<Rightarrow> openssl \<Rightarrow> io_env \<Rightarrow> (int \<times> ec_point) option \<Rightarrow> u16 \<Rightarrow>
   string \<Rightarrow> NodeIdentity \<Rightarrow> fsys \<Rightarrow> NodeIdentity \<times> fsys \<times> bool result" where
  "loadOrCreate jt jin ossl env generated listenPort publicIpOverride ni f =
     (case (if fails env OpenRead then None else f (identityPath ni)) of
        None \<Rightarrow> create_identity jt ossl env generated listenPort publicIpOverride ni f
      | Some content \<Rightarrow>
          (case load_identity jin listenPort publicIpOverride content of
             Inl e \<Rightarrow> create_identity jt ossl env generated listenPort publicIpOverride ni f
           | Inr loaded \<Rightarrow>
               let ni1 = ni\<lparr>id_record := loaded\<rparr>
               in (case persist jt env ni1 f of
                     (f1, Inl e) \<Rightarrow> create_identity jt ossl env generated listenPort publicIpOverride ni1 f1
                   | (f1, Inr ok) \<Rightarrow> (ni1, f1, Inr ok))))"

definition endpoint :: "NodeIdentity \<Rightarrow> string" where
  "endpoint ni = advertisedIp (id_record ni) @ '':'' @ to_string (ni_port (id_record ni))"

definition identity_toJson :: "NodeIdentity \<Rightarrow> json" where
  "identity_toJson ni =
     jobj [(''nodeId'', JStr (nodeId (id_record ni))), (''publicKey'', JStr (ni_publicKey (id_record ni))),
           (''advertisedIp'', JStr (advertisedIp (id_record ni))),
           (''port'', JUInt (ucast (ni_port (id_record ni)))),
           (''reputation'', JInt (reputation (id_record ni)))]"

definition setReputation :: "json_text \<Rightarrow> io_env \<Rightarrow> int \<Rightarrow> NodeIdentity \<Rightarrow> fsys \<Rightarrow> NodeIdentity \<times> fsys \<times> unit result" where
  "setReputation jt env rep ni f =
     (let ni' = ni\<lparr>id_record := (id_record ni)\<lparr>reputation := rep\<rparr>\<rparr>
      in case persist jt env ni' f of
           (f', Inl e) \<Rightarrow> (ni', f', Inl e)
         | (f', Inr ok) \<Rightarrow> (ni', f', Inr ()))"


section \<open>What is stored is read back\<close>

text \<open>Nonnegative integers are written without a sign and read as unsigned.\<close>

definition stored_json :: "NodeIdentityRecord \<Rightarrow> json" where
  "stored_json r =
     jobj [(''nodeId'', JStr (nodeId r)), (''publicKey'', JStr (ni_publicKey r)),
           (''privateKey'', JStr (ni_privateKey r)), (''advertisedIp'', JStr (advertisedIp r)),
           (''port'', JUInt (ucast (ni_port r))),
           (''reputation'', if reputation r < 0 then JInt (reputation r) else JUInt (word_of_int (reputation r)))]"

definition ascii_identity :: "NodeIdentityRecord \<Rightarrow> bool" where
  "ascii_identity r \<longleftrightarrow> ascii (nodeId r) \<and> ascii (ni_publicKey r) \<and> ascii (ni_privateKey r) \<and>
     ascii (advertisedIp r) \<and> - (2 ^ 31) \<le> reputation r \<and> reputation r < 2 ^ 31"

text \<open>Documented behaviour of the library on such a file.\<close>

definition stream_ok :: "json_text \<Rightarrow> (string \<Rightarrow> json result) \<Rightarrow> bool" where
  "stream_ok jt jin \<longleftrightarrow>
     (\<forall>r. ascii_identity r \<longrightarrow>
        (\<exists>s. dump jt 2 (identity_file_json r) = Inr s \<and> jin (s @ [CHR 0x0A]) = Inr (stored_json r)))"

lemma persist_stored:
  assumes "stream_ok jt jin" "ascii_identity (id_record ni)" "\<not> fails env OpenTmp" "\<not> fails env WriteTmp"
  obtains s where "persist jt env ni f = (f(identityPath ni \<mapsto> s), Inr True)" "jin s = Inr (stored_json (id_record ni))"
  using assms unfolding stream_ok_def persist_def Let_def by fastforce

lemma get_int_stored:
  assumes "- (2 ^ 31) \<le> i" "i < 2 ^ 31"
  shows "get_int (if i < 0 then JInt i else JUInt (word_of_int i)) = Inr i"
proof (cases "i < 0")
  case True
  then show ?thesis using assms by (simp add: get_int_def int_word_sint)
next
  case False
  then have "take_bit 64 i = i" using assms by (intro take_bit_int_eq_self) simp_all
  with False assms show ?thesis by (simp add: get_int_def unsigned_of_int int_word_sint)
qed

lemma load_stored:
  assumes "jin s = Inr (stored_json r)" "ascii_identity r" "nodeId r \<noteq> []" "ni_publicKey r \<noteq> []" "ni_privateKey r \<noteq> []"
  shows "load_identity jin p ip s =
    Inr (r\<lparr>advertisedIp := (if ip \<noteq> [] then ip else if advertisedIp r = [] then detectAdvertisedIp else advertisedIp r),
           ni_port := p\<rparr>)"
proof -
  have "get_int (if reputation r < 0 then JInt (reputation r) else JUInt (word_of_int (reputation r))) = Inr (reputation r)"
    using assms(2) by (intro get_int_stored) (simp_all add: ascii_identity_def)
  then show ?thesis
    using assms by (simp add: load_identity_def stored_json_def get_u16_def)
qed

lemma loadOrCreate_persisted:
  assumes "loadOrCreate jt jin ossl env gen p ip ni f = (ni1, f1, Inr True)"
  obtains f0 where "persist jt env ni1 f0 = (f1, Inr True)" "identityPath ni1 = identityPath ni"
proof -
  have c: "\<exists>f0. persist jt env ni1 f0 = (f1, Inr True) \<and> identityPath ni1 = identityPath n"
    if "create_identity jt ossl env gen p ip n g = (ni1, f1, Inr True)" for n g
    using that by (auto simp: create_identity_def Let_def split: sum.splits)
  show ?thesis
  proof (cases "if fails env OpenRead then None else f (identityPath ni)")
    case None
    with assms c[of ni f] that show ?thesis by (auto simp: loadOrCreate_def)
  next
    case (Some content)
    show ?thesis
    proof (cases "load_identity jin p ip content")
      case (Inl e)
      with Some assms c[of ni f] that show ?thesis by (auto simp: loadOrCreate_def)
    next
      case (Inr r)
      obtain f2 q where q: "persist jt env (ni\<lparr>id_record := r\<rparr>) f = (f2, q)" by fastforce
      show ?thesis
      proof (cases q)
        case (Inl e)
        with Some Inr q assms c[of "ni\<lparr>id_record := r\<rparr>" f2] that show ?thesis by (auto simp: loadOrCreate_def)
      next
        case (Inr b)
        with Some \<open>load_identity jin p ip content = Inr r\<close> q assms that[of f] show ?thesis
          by (auto simp: loadOrCreate_def)
      qed
    qed
  qed
qed


section \<open>Properties\<close>


text \<open>A text form for identity files, and a start in an empty directory.\<close>

definition unsign :: "json \<Rightarrow> json" where
  "unsign v = (case v of JInt i \<Rightarrow> if i < 0 then JInt i else JUInt (word_of_int i) | _ \<Rightarrow> v)"

definition norm_ints :: "json \<Rightarrow> json" where
  "norm_ints j = (case j of JObj kvs \<Rightarrow> JObj (map (map_prod id unsign) kvs) | _ \<Rightarrow> j)"

definition demo_id_json :: json_text where
  "demo_id_json = demo_json\<lparr>dump := (\<lambda>i j. Inr (demo_dump (norm_ints j)))\<rparr>"

definition demo_jin :: "string \<Rightarrow> json result" where
  "demo_jin s = parse demo_json (butlast s)"

lemma norm_identity: "norm_ints (identity_file_json r) = stored_json r"
  by (simp add: norm_ints_def identity_file_json_def stored_json_def jobj_def unsign_def)

lemma stored_plain: "ascii_identity r \<Longrightarrow> json_plain (stored_json r)"
  unfolding stored_json_def by (intro json_plain_jobj) (auto simp: ascii_identity_def, simp_all add: ascii_def)

lemma demo_stream_ok: "stream_ok demo_id_json demo_jin"
  unfolding stream_ok_def
proof (intro allI impI)
  fix r
  assume "ascii_identity r"
  then have "json_plain (stored_json r)" by (rule stored_plain)
  then obtain s where "dump demo_json 2 (stored_json r) = Inr s" "parse demo_json s = Inr (stored_json r)"
    using demo_json_ok unfolding json_text_ok_def by blast
  then show "\<exists>s. dump demo_id_json 2 (identity_file_json r) = Inr s \<and> demo_jin (s @ [CHR 0x0A]) = Inr (stored_json r)"
    by (auto simp: demo_id_json_def norm_identity demo_jin_def) (simp add: demo_json_def)
qed

definition demo_identity :: NodeIdentityRecord where
  "demo_identity =
     \<lparr>nodeId = sha256 demo_openssl (replicate 64 CHR ''2''), ni_publicKey = replicate 64 CHR ''2'',
      ni_privateKey = ''0a'', advertisedIp = ''127.0.0.1'', ni_port = 7000, reputation = 100\<rparr>"

lemma sha256_ascii: "ascii (sha256 ossl m)"
proof -
  have "of_char c < (128 :: nat)" if "is_xdigit c" for c
    using that by (auto simp: is_xdigit_def is_digit_iff less_eq_char_nat)
  then show ?thesis by (auto simp: ascii_def sha256_def dest!: hex_byte_xdigits)
qed

lemma demo_new_wallet:
  "new_wallet demo_openssl (Some (64, Some (64, 64))) =
     Inr \<lparr>w_privateKey = ''0a'', w_publicKey = replicate 64 CHR ''2''\<rparr>"
proof -
  have "to_lower CHR ''2'' = CHR ''2''" "to_lower CHR ''0'' = CHR ''0''" "to_lower CHR ''A'' = CHR ''a''"
    by (simp_all add: to_lower_def less_eq_char_nat char_of_eq_iff)
  then show ?thesis by (simp add: new_wallet_def generateKeyPair_def demo_openssl_def)
qed


end
