(* ===== verification/Node.thy ===== *)
theory Node
  imports Peer Peer_Scorer Peer_Manager Connections Node_Identity
begin

text \<open>
  \<^verbatim>\<open>include/network/node.h\<close>, \<^verbatim>\<open>src/network/node.cpp\<close>: the peer-to-peer node. Peers are shared
  objects, so they live in a store indexed by object numbers and \<^verbatim>\<open>peers_\<close> is a list of numbers.
  An action transforms the node and returns a value, throws, or blocks: \<^verbatim>\<open>std::mutex\<close> is not
  recursive, so locking \<^verbatim>\<open>peersMutex_\<close> while it is held never returns. The other mutexes protect
  single calls and are not modelled. Every handler of the event loop is one action; the
  asynchronous operations it starts are recorded in the state, and their completion is a later
  action whose arguments say how the operation ended. One reading of each clock serves a whole
  handler.
\<close>

section \<open>State\<close>

record RetryPolicy =
  maxRetries :: int
  baseDelayMs :: int
  maxDelayMs :: int
  jitterMs :: int
  reconnectCooldownMs :: int

record NetworkTimeouts =
  heartbeatIntervalSec :: int
  heartbeatTimeoutSec :: int
  gossipIntervalSec :: int
  peerRotationSec :: int
  quarantineSec :: int
  dedupWindowSec :: int

record NodeOptions =
  no_dataDir :: string
  publicIp :: string
  bootstrapNodes :: "string list"
  no_maxOutbound :: nat
  no_maxInbound :: nat
  retryPolicy :: RetryPolicy
  timeouts :: NetworkTimeouts

definition default_retry_policy :: RetryPolicy where
  "default_retry_policy =
     \<lparr>maxRetries = 6, baseDelayMs = 500, maxDelayMs = 30000, jitterMs = 400, reconnectCooldownMs = 1200\<rparr>"

definition default_timeouts :: NetworkTimeouts where
  "default_timeouts =
     \<lparr>heartbeatIntervalSec = 15, heartbeatTimeoutSec = 45, gossipIntervalSec = 30, peerRotationSec = 45,
      quarantineSec = 120, dedupWindowSec = 90\<rparr>"

definition default_options :: NodeOptions where
  "default_options =
     \<lparr>no_dataDir = ''./data'', publicIp = [], bootstrapNodes = [], no_maxOutbound = 8, no_maxInbound = 32,
      retryPolicy = default_retry_policy, timeouts = default_timeouts\<rparr>"

text \<open>The asynchronous operations that the node has started and that have not completed.\<close>

datatype async_op =
    Accept
  | Resolve string u16 nat
  | Dial string u16 nat
  | RetryTimer int string u16 nat
  | InitialSyncTimer
  | HeartbeatTimer
  | GossipTimer
  | RotationTimer

record Node =
  blockchain :: Blockchain
  disk :: fsys
  self_port :: u16
  options :: NodeOptions
  peersMutex :: bool
  peer_list :: "nat list"
  peer_object :: "nat \<Rightarrow> Peer"
  next_object :: nat
  seenTxIDs :: "string list"
  seenBlockHashes :: "string list"
  messageDedup :: "int smap"
  peerScorer :: scorer
  nodeIdentity :: NodeIdentity
  peerManager :: PeerManager
  bootstrapManager :: BootstrapManager
  connectionManager :: ConnectionManager
  networkMetrics :: NetworkMetrics
  started :: "async_op list"

text \<open>
  What a handler takes from outside: the JSON text functions, OpenSSL, the faults of the file
  system, the steady clock (nanoseconds), the system clock, the shuffle of candidates, the
  iteration order of the topology, and the random jitter.
\<close>

record node_env =
  ne_jt :: json_text
  ne_ossl :: openssl
  ne_io :: io_env
  steady :: int
  wall :: int
  ne_shuffle :: "string list \<Rightarrow> string list"
  ne_order :: "string list \<Rightarrow> string list"
  jitter :: "int \<Rightarrow> int"


section \<open>Actions\<close>

datatype 'a outcome = Returned 'a | Thrown exn | Blocked

text \<open>Actions on a state in general, and on the node.\<close>

type_synonym ('s, 'a) action = "'s \<Rightarrow> 's \<times> 'a outcome"

type_synonym 'a act = "(Node, 'a) action"

definition act_return :: "'a \<Rightarrow> ('s, 'a) action" where
  "act_return x = (\<lambda>s. (s, Returned x))"

definition act_throw :: "exn \<Rightarrow> ('s, 'a) action" where
  "act_throw e = (\<lambda>s. (s, Thrown e))"

definition act_get :: "('s \<Rightarrow> 'a) \<Rightarrow> ('s, 'a) action" where
  "act_get g = (\<lambda>s. (s, Returned (g s)))"

definition act_update :: "('s \<Rightarrow> 's) \<Rightarrow> ('s, unit) action" where
  "act_update u = (\<lambda>s. (u s, Returned ()))"

definition act_lift :: "'a result \<Rightarrow> ('s, 'a) action" where
  "act_lift r = (case r of Inl e \<Rightarrow> act_throw e | Inr x \<Rightarrow> act_return x)"

definition act_bind :: "('s, 'a) action \<Rightarrow> ('a \<Rightarrow> ('s, 'b) action) \<Rightarrow> ('s, 'b) action" where
  "act_bind m k = (\<lambda>s.
     case m s of
       (s', Returned x) \<Rightarrow> k x s'
     | (s', Thrown e) \<Rightarrow> (s', Thrown e)
     | (s', Blocked) \<Rightarrow> (s', Blocked))"

definition act_then :: "('s, 'a) action \<Rightarrow> ('s, 'b) action \<Rightarrow> ('s, 'b) action" where
  "act_then m n = act_bind m (\<lambda>_. n)"

definition act_catch :: "('s, 'a) action \<Rightarrow> (exn \<Rightarrow> ('s, 'a) action) \<Rightarrow> ('s, 'a) action" where
  "act_catch m h = (\<lambda>s. case m s of (s', Thrown e) \<Rightarrow> h e s' | r \<Rightarrow> r)"

fun act_each :: "('a \<Rightarrow> ('s, unit) action) \<Rightarrow> 'a list \<Rightarrow> ('s, unit) action" where
  "act_each f [] = act_return ()"
| "act_each f (x # xs) = act_then (f x) (act_each f xs)"

text \<open>A scope that holds \<^verbatim>\<open>lock_guard(peersMutex_)\<close>; an exception releases the lock.\<close>

definition with_peers_lock :: "'a act \<Rightarrow> 'a act" where
  "with_peers_lock m = (\<lambda>s.
     if peersMutex s then (s, Blocked)
     else case m (s\<lparr>peersMutex := True\<rparr>) of
            (s', Blocked) \<Rightarrow> (s', Blocked)
          | (s', r) \<Rightarrow> (s'\<lparr>peersMutex := False\<rparr>, r))"

definition begin_op :: "async_op \<Rightarrow> unit act" where
  "begin_op op = act_update (\<lambda>s. s\<lparr>started := started s @ [op]\<rparr>)"


section \<open>Peers and messages\<close>

definition the_peer :: "nat \<Rightarrow> Node \<Rightarrow> Peer" where
  "the_peer i s = peer_object s i"

definition update_peer :: "nat \<Rightarrow> (Peer \<Rightarrow> Peer) \<Rightarrow> unit act" where
  "update_peer i u = act_update (\<lambda>s. s\<lparr>peer_object := (peer_object s)(i := u (peer_object s i))\<rparr>)"

definition peer_send :: "node_env \<Rightarrow> nat \<Rightarrow> Message \<Rightarrow> unit act" where
  "peer_send env i msg =
     act_bind (act_lift (serialize (ne_jt env) msg)) (\<lambda>data. update_peer i (enqueue data))"

definition makeEndpoint :: "string \<Rightarrow> u16 \<Rightarrow> string" where
  "makeEndpoint host port = host @ '':'' @ to_string port"

definition empty_payload :: json where
  "empty_payload = JObj []"

definition getPeerList :: "string list act" where
  "getPeerList = with_peers_lock (act_get (\<lambda>s.
     map (\<lambda>i. getEndpoint (the_peer i s)) (filter (\<lambda>i. isConnected (the_peer i s)) (peer_list s))))"

definition connectedPeerScores :: "(string \<times> int) list act" where
  "connectedPeerScores = act_bind getPeerList (\<lambda>ps.
     act_get (\<lambda>s. map (\<lambda>ep. (ep, getScore ep (peerScorer s))) ps))"

definition refreshMetrics :: "unit act" where
  "refreshMetrics = act_bind getPeerList (\<lambda>ps. act_update (\<lambda>s.
     s\<lparr>networkMetrics :=
         setBannedPeers (of_nat (length (filter (\<lambda>entry. banned (snd entry)) (peerScorer s))))
           (setKnownPeers (of_nat (length (knownPeers (peerManager s))))
             (setConnectedPeers (of_nat (length ps)) (networkMetrics s)))\<rparr>))"

definition broadcast :: "node_env \<Rightarrow> Message \<Rightarrow> nat option \<Rightarrow> unit act" where
  "broadcast env msg exclude =
     with_peers_lock (act_bind (act_get peer_list) (\<lambda>is.
       act_each (\<lambda>i. act_bind (act_get (\<lambda>s. isConnected (the_peer i s))) (\<lambda>up.
         if Some i \<noteq> exclude \<and> up then peer_send env i msg else act_return ())) is))"

text \<open>Close the first connected peer in the list with the given endpoint.\<close>

fun close_first :: "string \<Rightarrow> nat list \<Rightarrow> unit act" where
  "close_first ep [] = act_return ()"
| "close_first ep (i # is) =
     act_bind (act_get (\<lambda>s. getEndpoint (the_peer i s))) (\<lambda>e.
       if e = ep then update_peer i close_peer else close_first ep is)"

text \<open>
  The sets of recently seen identifiers are ordered; when one is too large, its smallest
  elements are erased.
\<close>

definition seen_insert :: "nat \<Rightarrow> string \<Rightarrow> string list \<Rightarrow> string list" where
  "seen_insert bound x xs = (let ys = insort_insert x xs in drop (length ys - bound) ys)"

definition mark_tx_seen :: "string \<Rightarrow> bool act" where
  "mark_tx_seen i = act_bind (act_get (\<lambda>s. i \<in> set (seenTxIDs s))) (\<lambda>alreadySeen.
     if alreadySeen then act_return True
     else act_then (act_update (\<lambda>s. s\<lparr>seenTxIDs := seen_insert 10000 i (seenTxIDs s)\<rparr>)) (act_return False))"

definition mark_block_seen :: "string \<Rightarrow> bool act" where
  "mark_block_seen h = act_bind (act_get (\<lambda>s. h \<in> set (seenBlockHashes s))) (\<lambda>alreadySeen.
     if alreadySeen then act_return True
     else act_then (act_update (\<lambda>s. s\<lparr>seenBlockHashes := seen_insert 1000 h (seenBlockHashes s)\<rparr>))
            (act_return False))"

definition broadcastTransaction :: "node_env \<Rightarrow> Transaction \<Rightarrow> unit act" where
  "broadcastTransaction env tx = act_bind (mark_tx_seen (txID tx)) (\<lambda>alreadySeen.
     if alreadySeen then act_return ()
     else broadcast env \<lparr>msg_type = NEW_TRANSACTION, msg_payload = tx_toJson tx\<rparr> None)"

definition broadcastBlock :: "node_env \<Rightarrow> Block \<Rightarrow> unit act" where
  "broadcastBlock env block = act_bind (mark_block_seen (hash block)) (\<lambda>alreadySeen.
     if alreadySeen then act_return ()
     else broadcast env \<lparr>msg_type = NEW_BLOCK, msg_payload = block_toJson block\<rparr> None)"

definition requestChainFromPeers :: "node_env \<Rightarrow> unit act" where
  "requestChainFromPeers env =
     broadcast env \<lparr>msg_type = REQUEST_CHAIN, msg_payload = empty_payload\<rparr> None"

definition peers_request :: "Node \<Rightarrow> Message" where
  "peers_request s =
     \<lparr>msg_type = REQUEST_PEERS,
      msg_payload = jobj [(''requester'', JStr (endpoint (nodeIdentity s))),
                          (''nodeId'', JStr (nodeId (id_record (nodeIdentity s))))]\<rparr>"

definition requestPeersFromAll :: "node_env \<Rightarrow> unit act" where
  "requestPeersFromAll env = act_bind (act_get peers_request) (\<lambda>msg. broadcast env msg None)"

definition sendNodeAnnounce :: "node_env \<Rightarrow> nat \<Rightarrow> unit act" where
  "sendNodeAnnounce env i = act_bind (act_get (\<lambda>s.
       \<lparr>msg_type = NODE_ANNOUNCE,
        msg_payload = jobj [(''nodeId'', JStr (nodeId (id_record (nodeIdentity s)))),
                            (''publicKey'', JStr (ni_publicKey (id_record (nodeIdentity s)))),
                            (''publicIp'', JStr (advertisedIp (id_record (nodeIdentity s)))),
                            (''port'', JUInt (ucast (self_port s))),
                            (''endpoint'', JStr (endpoint (nodeIdentity s)))]\<rparr>))
     (\<lambda>announce. peer_send env i announce)"


section \<open>Reputation\<close>

definition upd_peerManager :: "(PeerManager \<Rightarrow> PeerManager) \<Rightarrow> unit act" where
  "upd_peerManager u = act_update (\<lambda>s. s\<lparr>peerManager := u (peerManager s)\<rparr>)"

definition upd_bootstrap :: "(BootstrapManager \<Rightarrow> BootstrapManager) \<Rightarrow> unit act" where
  "upd_bootstrap u = act_update (\<lambda>s. s\<lparr>bootstrapManager := u (bootstrapManager s)\<rparr>)"

definition upd_connections :: "(ConnectionManager \<Rightarrow> ConnectionManager) \<Rightarrow> unit act" where
  "upd_connections u = act_update (\<lambda>s. s\<lparr>connectionManager := u (connectionManager s)\<rparr>)"

definition upd_scorer :: "(scorer \<Rightarrow> scorer) \<Rightarrow> unit act" where
  "upd_scorer u = act_update (\<lambda>s. s\<lparr>peerScorer := u (peerScorer s)\<rparr>)"

definition quarantine :: "node_env \<Rightarrow> string \<Rightarrow> unit act" where
  "quarantine env ep = act_bind (act_get (\<lambda>s. quarantineSec (timeouts (options s)))) (\<lambda>secs.
     upd_peerManager (quarantinePeer (steady env) ep secs))"

fun punish_first :: "node_env \<Rightarrow> string \<Rightarrow> nat list \<Rightarrow> unit act" where
  "punish_first env ep [] = act_return ()"
| "punish_first env ep (i # is) =
     act_bind (act_get (\<lambda>s. getEndpoint (the_peer i s))) (\<lambda>e.
       if e = ep
       then act_then (update_peer i close_peer)
              (act_then (quarantine env ep) (upd_connections (unregisterConnection ep)))
       else punish_first env ep is)"

definition penalizePeerByEndpoint :: "node_env \<Rightarrow> string \<Rightarrow> int \<Rightarrow> unit act" where
  "penalizePeerByEndpoint env ep penalty =
     act_bind (act_get (\<lambda>s. penalizePeer ep penalty (peerScorer s))) (\<lambda>r.
     act_then (upd_scorer (\<lambda>_. fst r))
       (act_then
         (if snd r then with_peers_lock (act_bind (act_get peer_list) (punish_first env ep))
          else act_return ())
         refreshMetrics))"

definition rewardPeerByEndpoint :: "string \<Rightarrow> int \<Rightarrow> unit act" where
  "rewardPeerByEndpoint ep reward = act_then (upd_scorer (rewardPeer ep reward)) refreshMetrics"

definition removePeer :: "node_env \<Rightarrow> nat \<Rightarrow> bool \<Rightarrow> unit act" where
  "removePeer env i quarantined =
     act_bind (act_get (\<lambda>s. getEndpoint (the_peer i s))) (\<lambda>ep.
     act_then (if quarantined then quarantine env ep else act_return ())
     (act_then (upd_connections (unregisterConnection ep))
       (with_peers_lock (act_then
         (act_update (\<lambda>s. s\<lparr>peer_list :=
            filter (\<lambda>p. \<not> (p = i \<or> \<not> isConnected (the_peer p s))) (peer_list s)\<rparr>))
         refreshMetrics))))"


section \<open>Outgoing connections\<close>

definition isAlreadyConnected :: "string \<Rightarrow> u16 \<Rightarrow> bool act" where
  "isAlreadyConnected host port = with_peers_lock (act_get (\<lambda>s.
     list_ex (\<lambda>i. let p = the_peer i s in isConnected p \<and>
         (getEndpoint p = makeEndpoint host port \<or> knownListenPort p = port \<or> getPort p = port))
       (peer_list s)))"

definition drop_lowest :: "unit act" where
  "drop_lowest = act_bind connectedPeerScores (\<lambda>scores.
     let dropCandidate = selectLowestScorePeerToDrop scores
     in if dropCandidate \<noteq> [] then with_peers_lock (act_bind (act_get peer_list) (close_first dropCandidate))
        else act_return ())"

text \<open>Whether there is a slot, after dropping a connection if there was none.\<close>

definition make_room :: "ConnectionDirection \<Rightarrow> bool act" where
  "make_room direction =
     act_bind (act_get (\<lambda>s. canAccept direction (connectionManager s))) (\<lambda>free.
     act_then (if free then act_return () else drop_lowest)
       (act_get (\<lambda>s. canAccept direction (connectionManager s))))"

definition reject_connection :: "unit act" where
  "reject_connection = act_update (\<lambda>s. s\<lparr>networkMetrics := incrementRejectedPeers (networkMetrics s)\<rparr>)"

definition connectToPeer :: "node_env \<Rightarrow> string \<Rightarrow> u16 \<Rightarrow> nat \<Rightarrow> unit act" where
  "connectToPeer env host port retryCount =
     act_bind (act_get self_port) (\<lambda>own.
     if port = own then act_return ()
     else let ep = makeEndpoint host port in
     act_bind (isAlreadyConnected host port) (\<lambda>connected.
     if connected then act_return ()
     else act_bind (act_get (\<lambda>s.
            \<not> shouldAttemptConnection (steady env) ep (reconnectCooldownMs (retryPolicy (options s))) (peerManager s) \<or>
            isQuarantined (steady env) ep (peerManager s) \<or> isBanned ep (peerScorer s))) (\<lambda>refused.
     if refused then act_return ()
     else act_bind (make_room OUTBOUND) (\<lambda>room.
     if \<not> room then reject_connection
     else act_then (upd_peerManager (markDialAttempt (steady env) ep))
            (begin_op (Resolve host port retryCount))))))"

text \<open>\<^verbatim>\<open>int\<close> arithmetic wraps here; the language leaves an overflow undefined.\<close>

definition retry_delay :: "node_env \<Rightarrow> RetryPolicy \<Rightarrow> nat \<Rightarrow> int" where
  "retry_delay env rp retryCount =
     s32 (min (s32 (baseDelayMs rp * s32 (2 ^ retryCount))) (maxDelayMs rp) + jitter env (max 0 (jitterMs rp)))"

definition retryConnect :: "node_env \<Rightarrow> string \<Rightarrow> u16 \<Rightarrow> nat \<Rightarrow> unit act" where
  "retryConnect env host port retryCount =
     act_bind (act_get (\<lambda>s. retryPolicy (options s))) (\<lambda>rp.
     if int retryCount \<ge> maxRetries rp then quarantine env (makeEndpoint host port)
     else begin_op (RetryTimer (retry_delay env rp retryCount) host port (retryCount + 1)))"

definition allocate_peer :: "Peer \<Rightarrow> nat act" where
  "allocate_peer p = act_bind (act_get next_object) (\<lambda>i.
     act_then (act_update (\<lambda>s. s\<lparr>peer_object := (peer_object s)(i := p), next_object := i + 1\<rparr>))
       (act_return i))"

definition push_peer :: "nat \<Rightarrow> unit act" where
  "push_peer i = with_peers_lock (act_update (\<lambda>s. s\<lparr>peer_list := peer_list s @ [i]\<rparr>))"

definition resolve_done :: "node_env \<Rightarrow> bool \<Rightarrow> string \<Rightarrow> u16 \<Rightarrow> nat \<Rightarrow> unit act" where
  "resolve_done env ec host port retryCount =
     (if ec then retryConnect env host port retryCount else begin_op (Dial host port retryCount))"

definition register_request :: "Node \<Rightarrow> Message" where
  "register_request s =
     \<lparr>msg_type = REGISTER_NODE,
      msg_payload = jobj [(''endpoint'', JStr (endpoint (nodeIdentity s))),
                          (''nodeId'', JStr (nodeId (id_record (nodeIdentity s))))]\<rparr>"

text \<open>The connection attempt ended; \<open>remote\<close> is the address of the other side.\<close>

definition dial_done ::
  "node_env \<Rightarrow> bool \<Rightarrow> (string \<times> u16) option \<Rightarrow> string \<Rightarrow> u16 \<Rightarrow> nat \<Rightarrow> unit act" where
  "dial_done env ec remote host port retryCount =
     (if ec then retryConnect env host port retryCount
      else let ep = makeEndpoint host port in
      act_bind (allocate_peer (setListenPort port (new_peer remote))) (\<lambda>i.
      act_then (upd_scorer (addPeer (steady env) host port))
      (act_then (upd_peerManager (addKnownPeer ep))
      (act_then (upd_bootstrap (registerPeer ep))
      (act_then (push_peer i)
      (act_then (upd_connections (registerConnection ep OUTBOUND))
      (act_then (sendNodeAnnounce env i)
      (act_then (act_bind (act_get register_request) (peer_send env i))
      (act_then (peer_send env i \<lparr>msg_type = REQUEST_BOOTSTRAP, msg_payload = empty_payload\<rparr>)
      (act_then (act_bind (act_get peers_request) (peer_send env i))
      (act_then (peer_send env i \<lparr>msg_type = REQUEST_CHAIN, msg_payload = empty_payload\<rparr>)
        refreshMetrics)))))))))))"

text \<open>Every endpoint that can be parsed is dialled.\<close>

definition dial_endpoint :: "node_env \<Rightarrow> string \<Rightarrow> unit act" where
  "dial_endpoint env ep =
     (case Peer_Manager.parseEndpoint ep of
        None \<Rightarrow> act_return ()
      | Some (host, port) \<Rightarrow> connectToPeer env host port 0)"

definition connectToBootstrapPeers :: "node_env \<Rightarrow> unit act" where
  "connectToBootstrapPeers env =
     act_bind (act_get (\<lambda>s. bootstrapPeers (bootstrapManager s))) (act_each (dial_endpoint env))"

definition attemptRandomPeerExpansion :: "node_env \<Rightarrow> unit act" where
  "attemptRandomPeerExpansion env =
     act_bind (act_get (\<lambda>s. (outboundCount (connectionManager s), no_maxOutbound (options s)))) (\<lambda>(outbound, bound).
     if outbound \<ge> bound then act_return ()
     else act_bind getPeerList (\<lambda>connected.
          act_bind (act_get (\<lambda>s. getRandomPeers (ne_shuffle env) (steady env) (max (bound - outbound) 2)
                       (connected @ [endpoint (nodeIdentity s)]) (peerManager s)))
            (act_each (dial_endpoint env))))"


section \<open>Incoming connections\<close>

definition doAccept :: "unit act" where
  "doAccept = begin_op Accept"

definition accept_done :: "node_env \<Rightarrow> bool \<Rightarrow> (string \<times> u16) option \<Rightarrow> unit act" where
  "accept_done env ec remote =
     (if ec then doAccept
      else act_bind (make_room INBOUND) (\<lambda>room.
        if \<not> room then act_then reject_connection doAccept
        else act_bind (allocate_peer (new_peer remote)) (\<lambda>i.
             act_bind (act_get (\<lambda>s. getEndpoint (the_peer i s))) (\<lambda>ep.
             act_then (upd_peerManager (addKnownPeer ep))
             (act_then (upd_bootstrap (registerPeer ep))
             (act_then (upd_connections (registerConnection ep INBOUND))
             (act_then (push_peer i)
             (act_then (sendNodeAnnounce env i)
             (act_then refreshMetrics doAccept)))))))))"


section \<open>Messages\<close>

definition handleReceivedPeers :: "node_env \<Rightarrow> json \<Rightarrow> unit act" where
  "handleReceivedPeers env received =
     (if \<not> is_array received then act_return ()
      else act_bind (act_get (\<lambda>s. filter (\<lambda>ep. ep \<noteq> [] \<and> ep \<noteq> endpoint (nodeIdentity s) \<and>
               (case Peer_Manager.parseEndpoint ep of
                  None \<Rightarrow> False
                | Some (host, port) \<Rightarrow> port \<noteq> self_port s) \<and>
               \<not> isBanned ep (peerScorer s) \<and> \<not> isQuarantined (steady env) ep (peerManager s))
             (List.map_filter (\<lambda>entry. case entry of JStr ep \<Rightarrow> Some ep | _ \<Rightarrow> None) (jelems received)))) (\<lambda>discovered.
           act_then (upd_peerManager (mergeKnownPeers discovered))
           (act_then (act_each (\<lambda>ep. upd_bootstrap (registerPeer ep)) discovered)
           (act_then (attemptRandomPeerExpansion env) refreshMetrics))))"

text \<open>Calls of the blockchain, with the callbacks that the node has registered.\<close>

definition run_callbacks :: "node_env \<Rightarrow> chain_event list \<Rightarrow> unit act" where
  "run_callbacks env = act_each (\<lambda>ev. case ev of
       TransactionAdded tx \<Rightarrow> broadcastTransaction env tx
     | BlockAdded block \<Rightarrow> broadcastBlock env block
     | BlockAccepted block \<Rightarrow> act_return ())"

definition call_addTransaction :: "node_env \<Rightarrow> Transaction \<Rightarrow> bool act" where
  "call_addTransaction env tx =
     act_bind (act_get (\<lambda>s. addTransaction (ne_ossl env) (wall env) tx (blockchain s))) (\<lambda>(bc, r, ev).
     act_then (act_update (\<lambda>s. s\<lparr>blockchain := bc\<rparr>))
       (act_then (run_callbacks env ev) (act_return r)))"

definition call_chain ::
  "node_env \<Rightarrow> (Blockchain \<Rightarrow> fsys \<Rightarrow> Blockchain \<times> fsys \<times> bool result \<times> chain_event list) \<Rightarrow> bool act" where
  "call_chain env f =
     act_bind (act_get (\<lambda>s. f (blockchain s) (disk s))) (\<lambda>(bc, d, r, ev).
     act_then (act_update (\<lambda>s. s\<lparr>blockchain := bc, disk := d\<rparr>))
       (act_then (run_callbacks env ev) (act_lift r)))"

text \<open>Mining on behalf of a local client; it may not return.\<close>

definition call_mine :: "node_env \<Rightarrow> int \<Rightarrow> string \<Rightarrow> Block act" where
  "call_mine env now2 minerAddress =
     act_bind (act_get (\<lambda>s. minePendingTransactions (ne_jt env) (ne_ossl env) (ne_io env) (wall env) now2
                              minerAddress (blockchain s) (disk s))) (\<lambda>mined.
     case mined of
       None \<Rightarrow> (\<lambda>s. (s, Blocked))
     | Some (bc, d, r, ev) \<Rightarrow>
         act_then (act_update (\<lambda>s. s\<lparr>blockchain := bc, disk := d\<rparr>))
           (act_then (run_callbacks env ev) (act_lift r)))"

definition on_announce :: "node_env \<Rightarrow> nat \<Rightarrow> json \<Rightarrow> unit act" where
  "on_announce env i j =
     act_bind (act_lift (jvalue get_str ''publicIp'' [] j)) (\<lambda>ip.
     act_bind (act_lift (jvalue get_int ''port'' 0 j)) (\<lambda>p.
     act_bind (act_lift (jvalue get_str ''endpoint'' [] j)) (\<lambda>ep.
       let peerPort = word_of_int p :: u16 in
       act_then
         (if ip \<noteq> [] \<and> peerPort > 0 then
            act_then (update_peer i (setListenPort peerPort))
            (act_then (upd_scorer (addPeer (steady env) ip peerPort))
            (act_then (upd_peerManager (addKnownPeer (makeEndpoint ip peerPort)))
              (upd_bootstrap (registerPeer (makeEndpoint ip peerPort)))))
          else act_return ())
         (if ep \<noteq> [] then act_then (upd_peerManager (addKnownPeer ep)) (upd_bootstrap (registerPeer ep))
          else act_return ()))))"

definition send_topology :: "node_env \<Rightarrow> nat \<Rightarrow> unit act" where
  "send_topology env i = act_bind (act_get (\<lambda>s. knownTopology (ne_order env) 512 (bootstrapManager s))) (\<lambda>eps.
     peer_send env i \<lparr>msg_type = RESPONSE_BOOTSTRAP, msg_payload = JArr (map JStr eps)\<rparr>)"

definition on_register :: "node_env \<Rightarrow> nat \<Rightarrow> json \<Rightarrow> unit act" where
  "on_register env i j =
     act_bind (act_lift (jvalue get_str ''endpoint'' [] j)) (\<lambda>ep.
       act_then
         (if ep \<noteq> [] then act_then (upd_bootstrap (registerPeer ep)) (upd_peerManager (addKnownPeer ep))
          else act_return ())
         (send_topology env i))"

definition on_transaction :: "node_env \<Rightarrow> nat \<Rightarrow> string \<Rightarrow> Message \<Rightarrow> unit act" where
  "on_transaction env i peerKey msg =
     act_catch
       (act_bind (act_lift (tx_fromJson (ne_ossl env) (msg_payload msg))) (\<lambda>tx.
        act_bind (mark_tx_seen (txID tx)) (\<lambda>alreadySeen.
        if alreadySeen then act_return ()
        else act_bind (call_addTransaction env tx) (\<lambda>accepted.
          if accepted then act_then (rewardPeerByEndpoint peerKey REWARD_VALID_TX)
                             (broadcast env \<lparr>msg_type = NEW_TRANSACTION, msg_payload = msg_payload msg\<rparr> (Some i))
          else penalizePeerByEndpoint env peerKey PENALTY_INVALID_TX))))
       (\<lambda>_. penalizePeerByEndpoint env peerKey PENALTY_INVALID_TX)"

definition on_block :: "node_env \<Rightarrow> nat \<Rightarrow> string \<Rightarrow> Message \<Rightarrow> unit act" where
  "on_block env i peerKey msg =
     act_catch
       (act_bind (act_lift (block_fromJson (ne_ossl env) (msg_payload msg))) (\<lambda>block.
        act_bind (mark_block_seen (hash block)) (\<lambda>alreadySeen.
        if alreadySeen then act_return ()
        else act_bind (act_get (\<lambda>s. chain (blockchain s))) (\<lambda>ch.
          act_bind
            (if bk_index block = of_nat (length ch) \<and> previousHash block = hash (last ch)
             then call_chain env (acceptBlock (ne_jt env) (ne_ossl env) (ne_io env) (wall env) block)
             else if bk_index block \<ge> of_nat (length ch)
             then act_then (peer_send env i \<lparr>msg_type = REQUEST_CHAIN, msg_payload = empty_payload\<rparr>) (act_return False)
             else act_return False)
            (\<lambda>accepted.
              if accepted then act_then (rewardPeerByEndpoint peerKey REWARD_VALID_BLOCK)
                                 (broadcast env \<lparr>msg_type = NEW_BLOCK, msg_payload = msg_payload msg\<rparr> (Some i))
              else act_return ())))))
       (\<lambda>_. penalizePeerByEndpoint env peerKey PENALTY_INVALID_BLOCK)"

definition on_chain :: "node_env \<Rightarrow> string \<Rightarrow> Message \<Rightarrow> unit act" where
  "on_chain env peerKey msg =
     act_catch
       (act_bind (act_lift (emap (block_fromJson (ne_ossl env)) (jelems (msg_payload msg)))) (\<lambda>newChain.
        act_bind (call_chain env (replaceChain (ne_jt env) (ne_ossl env) (ne_io env) (wall env) newChain)) (\<lambda>replaced.
          if replaced then rewardPeerByEndpoint peerKey REWARD_VALID_BLOCK else act_return ())))
       (\<lambda>_. penalizePeerByEndpoint env peerKey PENALTY_INVALID_BLOCK)"

definition on_peers_request :: "node_env \<Rightarrow> nat \<Rightarrow> unit act" where
  "on_peers_request env i =
     act_bind (act_get (\<lambda>s. sort (remdups (knownPeers (peerManager s) @ [endpoint (nodeIdentity s)] @
                 knownTopology (ne_order env) 256 (bootstrapManager s))))) (\<lambda>eps.
       peer_send env i \<lparr>msg_type = RESPONSE_PEERS, msg_payload = JArr (map JStr eps)\<rparr>)"

definition dispatch :: "node_env \<Rightarrow> nat \<Rightarrow> string \<Rightarrow> Message \<Rightarrow> unit act" where
  "dispatch env i peerKey msg =
     (case msg_type msg of
        NODE_ANNOUNCE \<Rightarrow> on_announce env i (msg_payload msg)
      | REGISTER_NODE \<Rightarrow> on_register env i (msg_payload msg)
      | REQUEST_BOOTSTRAP \<Rightarrow> send_topology env i
      | RESPONSE_BOOTSTRAP \<Rightarrow> handleReceivedPeers env (msg_payload msg)
      | NEW_TRANSACTION \<Rightarrow> on_transaction env i peerKey msg
      | NEW_BLOCK \<Rightarrow> on_block env i peerKey msg
      | REQUEST_CHAIN \<Rightarrow> act_bind (act_get (\<lambda>s. chainToJson (blockchain s))) (\<lambda>j.
          peer_send env i \<lparr>msg_type = RESPONSE_CHAIN, msg_payload = j\<rparr>)
      | RESPONSE_CHAIN \<Rightarrow> on_chain env peerKey msg
      | PING \<Rightarrow> peer_send env i \<lparr>msg_type = PONG, msg_payload = empty_payload\<rparr>
      | PONG \<Rightarrow> upd_scorer (markPongReceived (steady env) peerKey)
      | REQUEST_PEERS \<Rightarrow> on_peers_request env i
      | RESPONSE_PEERS \<Rightarrow> handleReceivedPeers env (msg_payload msg)
      | PEER_LIST \<Rightarrow> handleReceivedPeers env (msg_payload msg)
      | UNKNOWN \<Rightarrow> act_return ())"

text \<open>
  The memory of recent messages; ages are whole seconds. The result says whether the message
  is a repetition.
\<close>

definition age_seconds :: "int \<Rightarrow> int \<Rightarrow> int" where
  "age_seconds now t = (if now < t then - ((t - now) div 1000000000) else (now - t) div 1000000000)"

definition remember_message :: "node_env \<Rightarrow> Message \<Rightarrow> bool act" where
  "remember_message env msg =
     act_bind (act_lift (dump (ne_jt env) (-1) (msg_payload msg))) (\<lambda>text.
       let dedupKey = dec (type_number (msg_type msg)) @ '':'' @ sha256 (ne_ossl env) text in
       act_bind (act_get (\<lambda>s. (messageDedup s, dedupWindowSec (timeouts (options s))))) (\<lambda>(seen, window).
       if (case sm_get seen dedupKey of None \<Rightarrow> False | Some t \<Rightarrow> age_seconds (steady env) t < window)
       then act_return True
       else act_then (act_update (\<lambda>s. s\<lparr>messageDedup :=
              sm_filter (\<lambda>t. \<not> age_seconds (steady env) t > window) (sm_put dedupKey (steady env) seen)\<rparr>))
            (act_return False)))"

definition handleMessage :: "node_env \<Rightarrow> nat \<Rightarrow> Message \<Rightarrow> unit act" where
  "handleMessage env i msg =
     act_bind (act_get (\<lambda>s. getEndpoint (the_peer i s))) (\<lambda>peerKey.
     act_bind (act_get (\<lambda>s. isBanned peerKey (peerScorer s))) (\<lambda>isbanned.
     if isbanned then removePeer env i True
     else act_bind (act_get (\<lambda>s. isRateLimited (steady env) 100 (the_peer i s))) (\<lambda>(p, limited).
     act_then (update_peer i (\<lambda>_. p))
     (if limited then penalizePeerByEndpoint env peerKey PENALTY_INVALID_TX
      else act_bind (if msg_type msg \<noteq> PING \<and> msg_type msg \<noteq> PONG then remember_message env msg
                     else act_return False) (\<lambda>repeated.
        if repeated then act_return ()
        else act_then (upd_scorer (markSeen (steady env) peerKey))
               (act_then (dispatch env i peerKey msg) refreshMetrics))))))"


section \<open>Timers and construction\<close>

definition startHeartbeatTimer :: "unit act" where
  "startHeartbeatTimer = begin_op HeartbeatTimer"

definition startGossipTimer :: "unit act" where
  "startGossipTimer = begin_op GossipTimer"

definition startPeerRotationTimer :: "unit act" where
  "startPeerRotationTimer = begin_op RotationTimer"

definition gossip_tick :: "node_env \<Rightarrow> unit act" where
  "gossip_tick env =
     act_then (requestPeersFromAll env)
     (act_then (attemptRandomPeerExpansion env)
     (act_then (upd_scorer (evictStalePeers (steady env) 300))
     (act_then refreshMetrics startGossipTimer)))"

definition rotation_tick :: "node_env \<Rightarrow> unit act" where
  "rotation_tick env = act_then (attemptRandomPeerExpansion env) startPeerRotationTimer"

definition sweep_closed :: "nat list act" where
  "sweep_closed = with_peers_lock (act_bind (act_get peer_list) (\<lambda>is.
     act_then
       (act_each (\<lambda>i. act_bind (act_get (\<lambda>s. the_peer i s)) (\<lambda>p.
          if \<not> isConnected p then upd_connections (unregisterConnection (getEndpoint p)) else act_return ())) is)
     (act_then
       (act_update (\<lambda>s. s\<lparr>peer_list := filter (\<lambda>i. isConnected (the_peer i s)) (peer_list s)\<rparr>))
       (act_get peer_list))))"

definition close_matching :: "node_env \<Rightarrow> string \<Rightarrow> nat list \<Rightarrow> unit act" where
  "close_matching env ep = act_each (\<lambda>i. act_bind (act_get (\<lambda>s. getEndpoint (the_peer i s))) (\<lambda>e.
     if e = ep then act_then (update_peer i close_peer) (quarantine env ep) else act_return ()))"

definition heartbeat_tick :: "node_env \<Rightarrow> unit act" where
  "heartbeat_tick env =
     act_bind sweep_closed (\<lambda>snapshot.
     act_then
       (act_each (\<lambda>i. act_then
          (act_bind (act_get (\<lambda>s. getEndpoint (the_peer i s))) (\<lambda>ep. upd_scorer (markPingSent (steady env) ep)))
          (peer_send env i \<lparr>msg_type = PING, msg_payload = empty_payload\<rparr>)) snapshot)
     (act_bind (act_get (\<lambda>s. getHeartbeatTimeoutPeers (steady env)
                   (heartbeatTimeoutSec (timeouts (options s))) (peerScorer s))) (\<lambda>timedOut.
     act_then
       (if timedOut \<noteq> [] then with_peers_lock (act_bind (act_get peer_list) (\<lambda>is.
          act_each (\<lambda>ep. act_then (close_matching env ep is) (upd_connections (unregisterConnection ep))) timedOut))
        else act_return ())
       (act_then refreshMetrics startHeartbeatTimer))))"

definition start_node :: "node_env \<Rightarrow> unit act" where
  "start_node env =
     act_then doAccept
     (act_then startHeartbeatTimer
     (act_then startGossipTimer
     (act_then startPeerRotationTimer
     (act_then (connectToBootstrapPeers env) (begin_op InitialSyncTimer)))))"

text \<open>The constructor; \<open>jin\<close> and \<open>generated\<close> belong to the identity of the node.\<close>

definition new_node ::
  "node_env \<Rightarrow> (string \<Rightarrow> json result) \<Rightarrow> (int \<times> ec_point) option \<Rightarrow> u16 \<Rightarrow> NodeOptions \<Rightarrow>
   Blockchain \<Rightarrow> fsys \<Rightarrow> Node result \<times> fsys" where
  "new_node env jin generated port opts bc f =
     (case loadOrCreate (ne_jt env) jin (ne_ossl env) (ne_io env) generated port (publicIp opts)
             (new_node_identity (no_dataDir opts)) f of
        (ni, f', Inl e) \<Rightarrow> (Inl e, f')
      | (ni, f', Inr ok) \<Rightarrow>
          (Inr \<lparr>blockchain = setOnTransactionAdded True (setOnBlockAdded True bc), disk = f',
                self_port = port, options = opts, peersMutex = False, peer_list = [],
                peer_object = (\<lambda>_. new_peer None), next_object = 0, seenTxIDs = [], seenBlockHashes = [],
                messageDedup = [], peerScorer = [], nodeIdentity = ni,
                peerManager = fold addKnownPeer (bootstrapNodes opts) new_peer_manager,
                bootstrapManager = setBootstrapPeers (bootstrapNodes opts) new_bootstrap_manager,
                connectionManager = new_connection_manager (no_maxOutbound opts) (no_maxInbound opts),
                networkMetrics = new_network_metrics (steady env), started = []\<rparr>, f'))"

definition getNodeIdentity :: "Node \<Rightarrow> json" where
  "getNodeIdentity s = identity_toJson (nodeIdentity s)"

definition getNetworkStats :: "node_env \<Rightarrow> Node \<Rightarrow> json result" where
  "getNetworkStats env s =
     ebind (jput ''node'' (identity_toJson (nodeIdentity s)) (metrics_toJson (steady env) (networkMetrics s))) (\<lambda>j1.
     ebind (jput ''connectionLimits''
              (jobj [(''maxOutboundPeers'', JUInt (of_nat (no_maxOutbound (options s)))),
                     (''maxInboundPeers'', JUInt (of_nat (no_maxInbound (options s)))),
                     (''currentOutboundPeers'', JUInt (of_nat (outboundCount (connectionManager s)))),
                     (''currentInboundPeers'', JUInt (of_nat (inboundCount (connectionManager s))))]) j1) (\<lambda>j2.
       jput ''quarantinedPeers'' (JInt (int (quarantinedPeerCount (steady env) (peerManager s)))) j2))"


section \<open>The event loop\<close>

definition take_op :: "async_op \<Rightarrow> unit act" where
  "take_op op = act_update (\<lambda>s. s\<lparr>started := remove1 op (started s)\<rparr>)"

fun complete :: "node_env \<Rightarrow> bool \<Rightarrow> (string \<times> u16) option \<Rightarrow> async_op \<Rightarrow> unit act" where
  "complete env ec remote Accept = accept_done env ec remote"
| "complete env ec remote (Resolve host port n) = resolve_done env ec host port n"
| "complete env ec remote (Dial host port n) = dial_done env ec remote host port n"
| "complete env ec remote (RetryTimer delay host port n) = (if ec then act_return () else connectToPeer env host port n)"
| "complete env ec remote InitialSyncTimer = (if ec then act_return () else requestChainFromPeers env)"
| "complete env ec remote HeartbeatTimer = (if ec then act_return () else heartbeat_tick env)"
| "complete env ec remote GossipTimer = (if ec then act_return () else gossip_tick env)"
| "complete env ec remote RotationTimer = (if ec then act_return () else rotation_tick env)"

end
