(* ===== verification/Node_Safety.thy ===== *)
theory Node_Safety
  imports Node
begin

text \<open>
  What runs of the node keep: a small logic for actions (which relation between the states
  before and after holds however an action ends), its use for the chain and its disk, and the
  behaviour of the node under hostile messages.
\<close>

section \<open>A logic for actions\<close>

definition chain_view :: "Node \<Rightarrow> Blockchain \<times> fsys" where
  "chain_view s = (blockchain s, disk s)"

text \<open>\<open>keeps_by v R m\<close>: however the action ends, the views of the states are related.\<close>

definition keeps_by :: "('s \<Rightarrow> 'v) \<Rightarrow> ('v \<Rightarrow> 'v \<Rightarrow> bool) \<Rightarrow> ('s, 'a) action \<Rightarrow> bool" where
  "keeps_by v R m \<longleftrightarrow> (\<forall>s. R (v s) (v (fst (m s))))"

abbreviation keeps :: "(Blockchain \<times> fsys \<Rightarrow> Blockchain \<times> fsys \<Rightarrow> bool) \<Rightarrow> 'a act \<Rightarrow> bool" where
  "keeps \<equiv> keeps_by chain_view"

lemmas keeps_def = keeps_by_def

named_theorems keeps_intros \<open>how a relation passes through actions\<close>

text \<open>The client side: rules for every way of building actions, from two laws of the relation.\<close>

locale action_relation =
  fixes R :: "'v \<Rightarrow> 'v \<Rightarrow> bool"
  assumes R_refl: "R v v"
    and R_trans: "R u v \<Longrightarrow> R v w \<Longrightarrow> R u w"
begin

lemma keeps_quiet: "keeps_by v (=) m \<Longrightarrow> keeps_by v R m"
  by (simp add: keeps_def R_refl)

lemma keeps_return [intro]: "keeps_by v R (act_return x)"
  by (simp add: keeps_def act_return_def R_refl)

lemma keeps_throw [intro]: "keeps_by v R (act_throw e)"
  by (simp add: keeps_def act_throw_def R_refl)

lemma keeps_get [intro]: "keeps_by v R (act_get g)"
  by (simp add: keeps_def act_get_def R_refl)

lemma keeps_lift [intro]: "keeps_by v R (act_lift r)"
  by (cases r) (auto simp: act_lift_def)

lemma keeps_bind:
  assumes "keeps_by v R m" "\<And>x. keeps_by v R (k x)"
  shows "keeps_by v R (act_bind m k)"
  unfolding keeps_def
proof
  fix s
  obtain s' r where m: "m s = (s', r)" by fastforce
  then have "R (v s) (v s')" using assms(1) unfolding keeps_def by (metis fst_conv)
  then show "R (v s) (v (fst (act_bind m k s)))"
    using assms(2) m R_trans unfolding keeps_def by (cases r) (auto simp: act_bind_def)
qed

lemma keeps_then: "keeps_by v R m \<Longrightarrow> keeps_by v R n \<Longrightarrow> keeps_by v R (act_then m n)"
  unfolding act_then_def by (rule keeps_bind)

lemma keeps_catch:
  assumes "keeps_by v R m" "\<And>e. keeps_by v R (h e)"
  shows "keeps_by v R (act_catch m h)"
  unfolding keeps_def
proof
  fix s
  obtain s' r where m: "m s = (s', r)" by fastforce
  then have "R (v s) (v s')" using assms(1) unfolding keeps_def by (metis fst_conv)
  then show "R (v s) (v (fst (act_catch m h s)))"
    using assms(2) m R_trans unfolding keeps_def by (cases r) (auto simp: act_catch_def)
qed

lemma keeps_each: "(\<And>x. keeps_by v R (f x)) \<Longrightarrow> keeps_by v R (act_each f xs)"
  by (induction xs) (auto intro: keeps_then)

lemma keeps_lock:
  assumes "\<And>s b. v (s\<lparr>peersMutex := b\<rparr>) = v s" "keeps_by v R m"
  shows "keeps_by v R (with_peers_lock m)"
  unfolding keeps_def
proof
  fix s :: Node
  obtain s' r where m: "m (s\<lparr>peersMutex := True\<rparr>) = (s', r)" by fastforce
  then have "R (v (s\<lparr>peersMutex := True\<rparr>)) (v s')"
    using assms(2) unfolding keeps_def by (metis fst_conv)
  then have "R (v s) (v s')" by (simp add: assms(1))
  then show "R (v s) (v (fst (with_peers_lock m s)))"
    using m R_refl by (cases r) (auto simp: with_peers_lock_def assms(1))
qed

lemmas keeps_rules =
  keeps_return keeps_throw keeps_get keeps_lift keeps_bind keeps_then keeps_catch keeps_each

end

interpretation quiet: action_relation "(=)"
  by unfold_locales auto

lemma quiet_lock [keeps_intros]: "keeps (=) m \<Longrightarrow> keeps (=) (with_peers_lock m)"
  by (rule quiet.keeps_lock) (simp_all add: chain_view_def)

lemma chain_reachable_trans:
  "chain_reachable jt ossl s t \<Longrightarrow> chain_reachable jt ossl r s \<Longrightarrow> chain_reachable jt ossl r t"
  by (induction rule: chain_reachable.induct) (auto intro: chain_reachable.step)

interpretation growing: action_relation "chain_reachable jt ossl"
proof
  show "chain_reachable jt ossl v v" for v by (rule chain_reachable.refl)
  show "chain_reachable jt ossl u w" if "chain_reachable jt ossl u v" "chain_reachable jt ossl v w" for u v w
    using chain_reachable_trans[OF that(2,1)] .
qed

lemma quiet_if [keeps_intros]: "keeps_by v R m \<Longrightarrow> keeps_by v R n \<Longrightarrow> keeps_by v R (if b then m else n)"
  by simp

lemma quiet_update [keeps_intros]:
  "(\<And>s. blockchain (u s) = blockchain s \<and> disk (u s) = disk s) \<Longrightarrow> keeps (=) (act_update u)"
  by (simp add: keeps_def act_update_def chain_view_def)

lemma quiet_case_prod [keeps_intros]:
  "(\<And>a b. p = (a, b) \<Longrightarrow> keeps_by v R (f a b)) \<Longrightarrow> keeps_by v R (case p of (a, b) \<Rightarrow> f a b)"
  by (cases p) simp

lemma quiet_case_option [keeps_intros]:
  "keeps_by v R m \<Longrightarrow> (\<And>a. keeps_by v R (f a)) \<Longrightarrow> keeps_by v R (case p of None \<Rightarrow> m | Some a \<Rightarrow> f a)"
  by (cases p) simp_all

lemma quiet_let [keeps_intros]: "(\<And>x. keeps_by v R (f x)) \<Longrightarrow> keeps_by v R (let x = t in f x)"
  by simp

declare quiet.keeps_rules [keeps_intros]


section \<open>Most of the node does not touch the chain\<close>

lemma quiet_update_peer [keeps_intros]: "keeps (=) (update_peer i u)"
  unfolding update_peer_def by (intro keeps_intros) simp

lemma quiet_upd [keeps_intros]:
  "keeps (=) (upd_peerManager f)" "keeps (=) (upd_bootstrap g)" "keeps (=) (upd_connections h)"
  "keeps (=) (upd_scorer k)" "keeps (=) (begin_op op)" "keeps (=) (take_op op)" "keeps (=) reject_connection"
  unfolding upd_peerManager_def upd_bootstrap_def upd_connections_def upd_scorer_def begin_op_def take_op_def
    reject_connection_def
  by (intro keeps_intros; simp)+

lemma quiet_peer_send [keeps_intros]: "keeps (=) (peer_send env i msg)"
  unfolding peer_send_def by (intro keeps_intros)

lemma quiet_getPeerList [keeps_intros]: "keeps (=) getPeerList"
  unfolding getPeerList_def by (intro keeps_intros)

lemma quiet_connectedPeerScores [keeps_intros]: "keeps (=) connectedPeerScores"
  unfolding connectedPeerScores_def by (intro keeps_intros)

lemma quiet_refreshMetrics [keeps_intros]: "keeps (=) refreshMetrics"
  unfolding refreshMetrics_def by (intro keeps_intros) simp

lemma quiet_broadcast [keeps_intros]: "keeps (=) (broadcast env msg ex)"
  unfolding broadcast_def by (intro keeps_intros)

lemma quiet_close_first [keeps_intros]: "keeps (=) (close_first ep is)"
proof (induction "is")
  case (Cons i "is")
  show ?case unfolding close_first.simps by (intro keeps_intros Cons.IH)
qed (simp add: keeps_intros)

lemma quiet_quarantine [keeps_intros]: "keeps (=) (quarantine env ep)"
  unfolding quarantine_def by (intro keeps_intros)

lemma quiet_punish_first [keeps_intros]: "keeps (=) (punish_first env ep is)"
proof (induction "is")
  case (Cons i "is")
  show ?case unfolding punish_first.simps by (intro keeps_intros Cons.IH)
qed (simp add: keeps_intros)

lemma quiet_marks [keeps_intros]: "keeps (=) (mark_tx_seen i)" "keeps (=) (mark_block_seen i)"
  unfolding mark_tx_seen_def mark_block_seen_def by (intro keeps_intros; simp)+

lemma quiet_broadcasts [keeps_intros]:
  "keeps (=) (broadcastTransaction env tx)" "keeps (=) (broadcastBlock env b)"
  "keeps (=) (requestChainFromPeers env)" "keeps (=) (requestPeersFromAll env)" "keeps (=) (sendNodeAnnounce env i)"
  unfolding broadcastTransaction_def broadcastBlock_def requestChainFromPeers_def requestPeersFromAll_def
    sendNodeAnnounce_def
  by (intro keeps_intros)+

lemma quiet_reputation [keeps_intros]:
  "keeps (=) (penalizePeerByEndpoint env ep p)" "keeps (=) (rewardPeerByEndpoint ep r)" "keeps (=) (removePeer env i q)"
  unfolding penalizePeerByEndpoint_def rewardPeerByEndpoint_def removePeer_def
  by (intro keeps_intros; simp)+

lemma quiet_make_room [keeps_intros]: "keeps (=) (make_room d)"
  unfolding make_room_def drop_lowest_def by (intro keeps_intros)

lemma quiet_connectToPeer [keeps_intros]: "keeps (=) (connectToPeer env host port n)"
  unfolding connectToPeer_def isAlreadyConnected_def by (intro keeps_intros)

lemma quiet_allocate [keeps_intros]: "keeps (=) (allocate_peer p)" "keeps (=) (push_peer i)"
  unfolding allocate_peer_def push_peer_def by (intro keeps_intros; simp)+

lemma quiet_dialling [keeps_intros]:
  "keeps (=) (retryConnect env host port n)" "keeps (=) (resolve_done env ec host port n)"
  "keeps (=) (dial_endpoint env ep)" "keeps (=) (connectToBootstrapPeers env)"
  unfolding retryConnect_def resolve_done_def dial_endpoint_def connectToBootstrapPeers_def
  by (intro keeps_intros)+

lemma quiet_dial_done [keeps_intros]: "keeps (=) (dial_done env ec remote host port n)"
  unfolding dial_done_def by (intro keeps_intros)

lemma quiet_expansion [keeps_intros]: "keeps (=) (attemptRandomPeerExpansion env)"
  unfolding attemptRandomPeerExpansion_def by (intro keeps_intros)

lemma quiet_accept [keeps_intros]: "keeps (=) (accept_done env ec remote)"
  unfolding accept_done_def doAccept_def by (intro keeps_intros)

lemma quiet_received_peers [keeps_intros]: "keeps (=) (handleReceivedPeers env j)"
  unfolding handleReceivedPeers_def by (intro keeps_intros)

lemma quiet_callbacks [keeps_intros]: "keeps (=) (run_callbacks env evs)"
  unfolding run_callbacks_def by (intro keeps_intros) (auto split: chain_event.splits intro: keeps_intros)

lemma quiet_handlers [keeps_intros]:
  "keeps (=) (on_announce env i j)" "keeps (=) (send_topology env i)" "keeps (=) (on_register env i j)"
  "keeps (=) (on_peers_request env i)" "keeps (=) (remember_message env msg)"
  unfolding on_announce_def send_topology_def on_register_def on_peers_request_def remember_message_def
  by (intro keeps_intros; simp)+

lemma quiet_ticks [keeps_intros]:
  "keeps (=) (gossip_tick env)" "keeps (=) (rotation_tick env)" "keeps (=) sweep_closed"
  "keeps (=) (close_matching env ep is)" "keeps (=) (start_node env)"
  unfolding gossip_tick_def rotation_tick_def sweep_closed_def close_matching_def start_node_def
    startGossipTimer_def startPeerRotationTimer_def startHeartbeatTimer_def doAccept_def
  by (intro keeps_intros; simp)+

lemma quiet_heartbeat [keeps_intros]: "keeps (=) (heartbeat_tick env)"
  unfolding heartbeat_tick_def startHeartbeatTimer_def by (intro keeps_intros)

lemma quiet_complete: "keeps (=) (complete env ec remote op)"
  by (cases op) (simp_all add: keeps_intros)


section \<open>The chain only changes through its own operations\<close>

definition env_of :: "json_text \<Rightarrow> openssl \<Rightarrow> node_env \<Rightarrow> bool" where
  "env_of jt ossl env \<longleftrightarrow> ne_jt env = jt \<and> ne_ossl env = ossl"

abbreviation grows :: "json_text \<Rightarrow> openssl \<Rightarrow> 'a act \<Rightarrow> bool" where
  "grows jt ossl m \<equiv> keeps (chain_reachable jt ossl) m"

lemma chain_reachable_step: "chain_step jt ossl s s' \<Longrightarrow> chain_reachable jt ossl s s'"
  by (rule chain_reachable.step[OF chain_reachable.refl])

text \<open>A call of the chain: read it, store what the operation returns, go on.\<close>

lemma grows_call:
  assumes "\<And>s. chain_reachable jt ossl (chain_view s) (chain_view (u (g s) s))" "\<And>x. grows jt ossl (k x)"
  shows "grows jt ossl (act_bind (act_get g) (\<lambda>x. act_then (act_update (u x)) (k x)))"
  unfolding keeps_def
proof
  fix s
  have "chain_reachable jt ossl (chain_view (u (g s) s)) (chain_view (fst (k (g s) (u (g s) s))))"
    using assms(2) unfolding keeps_def by blast
  then show "chain_reachable jt ossl (chain_view s)
      (chain_view (fst (act_bind (act_get g) (\<lambda>x. act_then (act_update (u x)) (k x)) s)))"
    using assms(1)[of s] growing.R_trans
    by (auto simp: act_bind_def act_get_def act_then_def act_update_def)
qed

lemma grows_addTransaction:
  assumes "env_of jt ossl env"
  shows "grows jt ossl (call_addTransaction env tx)"
  unfolding call_addTransaction_def case_prod_beta
proof (rule grows_call)
  fix s :: Node
  obtain bc r ev where a: "addTransaction ossl (wall env) tx (blockchain s) = (bc, r, ev)"
    by (cases "addTransaction ossl (wall env) tx (blockchain s)")
  have "chain_reachable jt ossl (blockchain s, disk s) (bc, disk s)"
    by (rule chain_reachable_step) (rule chain_step.submit[OF a])
  then show "chain_reachable jt ossl (chain_view s)
      (chain_view (s\<lparr>blockchain := fst (addTransaction (ne_ossl env) (wall env) tx (blockchain s))\<rparr>))"
    using assms a by (simp add: chain_view_def env_of_def)
qed (intro growing.keeps_quiet keeps_intros)

lemma grows_call_chain:
  assumes "\<And>bc f bc' f' r ev. op bc f = (bc', f', r, ev) \<Longrightarrow> chain_step jt ossl (bc, f) (bc', f')"
  shows "grows jt ossl (call_chain env op)"
  unfolding call_chain_def case_prod_beta
proof (rule grows_call)
  fix s :: Node
  obtain bc f r ev where a: "op (blockchain s) (disk s) = (bc, f, r, ev)"
    by (cases "op (blockchain s) (disk s)")
  have "chain_reachable jt ossl (blockchain s, disk s) (bc, f)"
    by (rule chain_reachable_step) (rule assms[OF a])
  then show "chain_reachable jt ossl (chain_view s)
      (chain_view (s\<lparr>blockchain := fst (op (blockchain s) (disk s)),
                     disk := fst (snd (op (blockchain s) (disk s)))\<rparr>))"
    using a by (simp add: chain_view_def)
qed (intro growing.keeps_quiet keeps_intros)

lemma grows_handlers:
  assumes "env_of jt ossl env"
  shows "grows jt ossl (on_transaction env i k msg)" "grows jt ossl (on_block env i k msg)"
    "grows jt ossl (on_chain env k msg)"
proof -
  have a: "grows jt ossl (call_chain env (acceptBlock (ne_jt env) (ne_ossl env) (ne_io env) (wall env) b))" for b
    using assms by (intro grows_call_chain) (auto simp: env_of_def intro: chain_step.accept)
  have r: "grows jt ossl (call_chain env (replaceChain (ne_jt env) (ne_ossl env) (ne_io env) (wall env) c))" for c
    using assms by (intro grows_call_chain) (auto simp: env_of_def intro: chain_step.replace)
  note q = quiet_reputation[THEN growing.keeps_quiet] quiet_broadcast[THEN growing.keeps_quiet]
    quiet_marks[THEN growing.keeps_quiet] quiet_peer_send[THEN growing.keeps_quiet]
  show "grows jt ossl (on_transaction env i k msg)" "grows jt ossl (on_block env i k msg)"
    "grows jt ossl (on_chain env k msg)"
    unfolding on_transaction_def on_block_def on_chain_def
    by (intro growing.keeps_rules quiet_if q a r grows_addTransaction[OF assms])+
qed

lemma grows_dispatch:
  assumes "env_of jt ossl env"
  shows "grows jt ossl (dispatch env i k msg)"
proof (cases "msg_type msg \<in> {NEW_TRANSACTION, NEW_BLOCK, RESPONSE_CHAIN}")
  case True
  with grows_handlers[OF assms] show ?thesis by (auto simp: dispatch_def)
next
  case False
  have "keeps (=) (act_bind (act_get g) (\<lambda>j. peer_send env i (h j)))" for g :: "Node \<Rightarrow> json" and h
    by (intro keeps_intros)
  with False have "keeps (=) (dispatch env i k msg)"
    by (cases "msg_type msg") (simp_all add: dispatch_def keeps_intros)
  then show ?thesis by (rule growing.keeps_quiet)
qed

lemma grows_handleMessage:
  assumes "env_of jt ossl env"
  shows "grows jt ossl (handleMessage env i msg)"
proof -
  have q: "grows jt ossl (if msg_type msg \<noteq> PING \<and> msg_type msg \<noteq> PONG then remember_message env msg
      else act_return False)"
    by (rule growing.keeps_quiet) (intro keeps_intros)
  show ?thesis
    unfolding handleMessage_def case_prod_beta
    by (intro growing.keeps_rules quiet_if q grows_dispatch[OF assms]
        quiet_reputation[THEN growing.keeps_quiet] quiet_update_peer[THEN growing.keeps_quiet]
        quiet_refreshMetrics[THEN growing.keeps_quiet] quiet_upd[THEN growing.keeps_quiet])
qed

lemma grows_mine:
  assumes "env_of jt ossl env" "length (chain (blockchain s)) < 2 ^ 64"
  shows "chain_reachable jt ossl (chain_view s) (chain_view (fst (call_mine env now2 a s)))"
proof (cases "minePendingTransactions (ne_jt env) (ne_ossl env) (ne_io env) (wall env) now2 a (blockchain s) (disk s)")
  case None
  then show ?thesis by (simp add: call_mine_def act_bind_def act_get_def chain_reachable.refl)
next
  case (Some m)
  obtain bc d r ev where m: "m = (bc, d, r, ev)" by (cases m)
  have "chain_reachable jt ossl (chain_view s) (bc, d)"
    unfolding chain_view_def using assms Some m
    by (intro chain_reachable_step chain_step.mine[where env = "ne_io env"]) (auto simp: env_of_def)
  moreover have "chain_view (fst (act_then (run_callbacks env ev) (act_lift r) (s\<lparr>blockchain := bc, disk := d\<rparr>))) = (bc, d)"
  proof -
    have "keeps (=) (act_then (run_callbacks env ev) (act_lift r))" by (intro keeps_intros)
    then have "chain_view (s\<lparr>blockchain := bc, disk := d\<rparr>) =
        chain_view (fst (act_then (run_callbacks env ev) (act_lift r) (s\<lparr>blockchain := bc, disk := d\<rparr>)))"
      unfolding keeps_def by (rule spec)
    moreover have "chain_view (s\<lparr>blockchain := bc, disk := d\<rparr>) = (bc, d)" by (simp add: chain_view_def)
    ultimately show ?thesis by (rule trans[OF sym])
  qed
  ultimately show ?thesis
    using Some m by (simp add: call_mine_def act_bind_def act_get_def act_then_def act_update_def)
qed


section \<open>Runs of the node\<close>

text \<open>
  A run of the event loop: messages of any content from any peer at any time, completions of
  the operations the node has started with any outcome, and the local calls of the HTTP
  interface. Handlers may end in any way; a handler that blocks ends the run in fact.
\<close>

inductive node_step :: "json_text \<Rightarrow> openssl \<Rightarrow> Node \<Rightarrow> Node \<Rightarrow> bool" for jt ossl where
  message: "env_of jt ossl env \<Longrightarrow> node_step jt ossl s (fst (handleMessage env i msg s))"
| complete: "env_of jt ossl env \<Longrightarrow> op \<in> set (started s) \<Longrightarrow>
    node_step jt ossl s (fst (act_then (take_op op) (complete env ec remote op) s))"
| submit: "env_of jt ossl env \<Longrightarrow> node_step jt ossl s (fst (call_addTransaction env tx s))"
| mine: "env_of jt ossl env \<Longrightarrow> length (chain (blockchain s)) < 2 ^ 64 \<Longrightarrow>
    node_step jt ossl s (fst (call_mine env now2 a s))"
| starting: "env_of jt ossl env \<Longrightarrow> node_step jt ossl s (fst (start_node env s))"

inductive node_reachable :: "json_text \<Rightarrow> openssl \<Rightarrow> Node \<Rightarrow> Node \<Rightarrow> bool" for jt ossl where
  refl: "node_reachable jt ossl s s"
| step: "node_reachable jt ossl s t \<Longrightarrow> node_step jt ossl t u \<Longrightarrow> node_reachable jt ossl s u"

lemma node_step_grows: "node_step jt ossl s t \<Longrightarrow> chain_reachable jt ossl (chain_view s) (chain_view t)"
proof (induction rule: node_step.induct)
  case (message env s i msg)
  then show ?case using grows_handleMessage unfolding keeps_def by blast
next
  case (complete env op s ec remote)
  have "keeps (=) (act_then (take_op op) (complete env ec remote op))"
    by (intro keeps_intros quiet_complete)
  then have "grows jt ossl (act_then (take_op op) (complete env ec remote op))" by (rule growing.keeps_quiet)
  then show ?case unfolding keeps_def by blast
next
  case (submit env s tx)
  then show ?case using grows_addTransaction unfolding keeps_def by blast
next
  case (mine env s now2 a)
  then show ?case by (rule grows_mine)
next
  case (starting env s)
  have "grows jt ossl (start_node env)" by (rule growing.keeps_quiet) (rule quiet_ticks)
  then show ?case unfolding keeps_def by blast
qed

lemma node_reachable_grows: "node_reachable jt ossl s t \<Longrightarrow> chain_reachable jt ossl (chain_view s) (chain_view t)"
proof (induction rule: node_reachable.induct)
  case (step s t u)
  then show ?case using node_step_grows chain_reachable_trans by blast
qed (rule chain_reachable.refl)

lemma new_node_chain:
  assumes "new_node env jin gen port opts bc f = (Inr s, f')"
  shows "blockchain s = setOnTransactionAdded True (setOnBlockAdded True bc)" "disk s = f'"
  using assms by (auto simp: new_node_def split: prod.splits sum.splits)

lemma chain_inv_callbacks [simp]:
  "chain_inv ossl (setOnTransactionAdded x bc) = chain_inv ossl bc" "chain_inv ossl (setOnBlockAdded x bc) = chain_inv ossl bc"
  "engine_ok ossl (setOnTransactionAdded x bc) = engine_ok ossl bc" "engine_ok ossl (setOnBlockAdded x bc) = engine_ok ossl bc"
  "chain (setOnTransactionAdded x bc) = chain bc" "chain (setOnBlockAdded x bc) = chain bc"
  by (simp_all add: chain_inv_def engine_ok_def setOnTransactionAdded_def setOnBlockAdded_def)


section \<open>A concrete node\<close>

text \<open>The outside of a concrete node, and its construction.\<close>

definition demo_node_env :: node_env where
  "demo_node_env = \<lparr>ne_jt = demo_json, ne_ossl = demo_openssl, ne_io = no_faults, steady = 0, wall = 0,
     ne_shuffle = (\<lambda>xs. xs), ne_order = (\<lambda>xs. xs), jitter = (\<lambda>_. 0)\<rparr>"

lemma demo_new_node:
  assumes "bootstrapNodes opts = []"
  obtains s g where "new_node demo_node_env jin (Some (64, Some (64, 64))) port opts bc f = (Inr s, g)"
    "bootstrapPeers (bootstrapManager s) = []"
proof -
  have p: "\<exists>g. persist demo_json no_faults ni f = (g, Inr True)" for ni f
    by (simp add: persist_def demo_json_def)
  have c: "\<exists>ni' g. create_identity demo_json demo_openssl no_faults (Some (64, Some (64, 64))) port ip ni f = (ni', g, Inr True)"
    for ip ni f
    using p by (simp add: create_identity_def demo_new_wallet Let_def)
  have "\<exists>ni' g. loadOrCreate demo_json jin demo_openssl no_faults (Some (64, Some (64, 64))) port ip ni f = (ni', g, Inr True)"
    for ip ni f
  proof (cases "f (identityPath ni)")
    case None
    then show ?thesis using c by (simp add: loadOrCreate_def)
  next
    case (Some content)
    show ?thesis
    proof (cases "load_identity jin port ip content")
      case (Inl e)
      with Some c show ?thesis by (simp add: loadOrCreate_def)
    next
      case (Inr r)
      obtain g where "persist demo_json no_faults (ni\<lparr>id_record := r\<rparr>) f = (g, Inr True)" using p by blast
      with Some Inr show ?thesis by (simp add: loadOrCreate_def)
    qed
  qed
  then obtain ni' g where "loadOrCreate demo_json jin demo_openssl no_faults (Some (64, Some (64, 64))) port (publicIp opts)
      (new_node_identity (no_dataDir opts)) f = (ni', g, Inr True)"
    by blast
  with that show ?thesis by (simp add: assms new_node_def demo_node_env_def setBootstrapPeers_def)
qed


text \<open>The demo blocks survive JSON.\<close>

lemma coinbase_block_plain:
  assumes "merkleRoot b = computeMerkleRoot ossl b" "hash b = calculateHash ossl b" "transactions b = [c]"
    and "txID c = sha256 ossl m" "digest_ok ossl" "plain_tx c" "ascii (bk_timestamp b)" "ascii (previousHash b)"
  shows "plain_block b"
proof -
  have "merkleRoot b = txID c"
    using sha256_nonempty[OF assms(5)]
    by (simp add: assms(1,3,4) computeMerkleRoot_def merkle_leaf_def merkle_loop.simps[of _ "[_]"])
  then show ?thesis
    using assms(2-4,6-8) sha256_ascii by (simp add: plain_block_def calculateHash_def)
qed

lemma demo_genesis_plain:
  assumes "createGenesis demo_openssl d = Some g"
  shows "plain_block g"
proof (rule coinbase_block_plain)
  have v: "valid_genesis demo_openssl g" using genesis_valid[OF assms] by simp
  show "transactions g = [genesis_coinbase demo_openssl]" using genesis_valid[OF assms] by simp
  show "merkleRoot g = computeMerkleRoot demo_openssl g" "hash g = calculateHash demo_openssl g"
    using v by (simp_all add: valid_genesis_iff)
  show "txID (genesis_coinbase demo_openssl) = sha256 demo_openssl (buildTxCore (genesis_coinbase demo_openssl))"
    by (simp add: genesis_coinbase_def computeTxID_def buildTxCore_def)
  show "plain_tx (genesis_coinbase demo_openssl)"
    using sha256_ascii sha256_nonempty[OF demo_digest_ok]
    by (simp add: plain_tx_def tx_complete_def genesis_coinbase_def computeTxID_def empty_tx_def isCoinbase_def genesis_timestamp_def)
       (simp add: ascii_def)
  have "bk_timestamp g = genesis_timestamp"
    using mineBlock_valid(5)[OF assms[unfolded createGenesis_def Let_def]] by simp
  then show "ascii (bk_timestamp g)" by (simp add: ascii_def genesis_timestamp_def)
  show "ascii (previousHash g)" using v by (simp add: valid_genesis_iff ascii_def)
qed (rule demo_digest_ok)

lemma ascii_append [simp]: "ascii (xs @ ys) \<longleftrightarrow> ascii xs \<and> ascii ys"
  by (auto simp: ascii_def)

lemma ascii_dec: "ascii (dec n)" "ascii (dec2 n)"
proof -
  have "of_char c < (128 :: nat)" if "is_digit c" for c using that by (simp add: is_digit_def less_eq_char_nat)
  then show "ascii (dec n)" "ascii (dec2 n)" using dec_digits by (auto simp: ascii_def dec2_def)
qed

lemma format_now_ascii: "ascii (format_now t)"
  using ascii_dec by (auto simp: format_now_def put_time_def ascii_def)

lemma demo_mined_plain:
  assumes "mineBlock demo_openssl (new_block demo_openssl t i (hash p) [mining_coinbase demo_openssl t a] d) = Some b"
    and "ascii (hash p)" "ascii a" "a \<noteq> []"
  shows "plain_block b"
proof (rule coinbase_block_plain)
  note b = mineBlock_valid[OF assms(1)]
  show "transactions b = [mining_coinbase demo_openssl t a]" using b by simp
  show "merkleRoot b = computeMerkleRoot demo_openssl b" "hash b = calculateHash demo_openssl b"
    using b(1) by (simp_all add: isValid_iff)
  show "txID (mining_coinbase demo_openssl t a) = sha256 demo_openssl (buildTxCore (mining_coinbase demo_openssl t a))"
    by (simp add: mining_coinbase_def computeTxID_def buildTxCore_def)
  show "plain_tx (mining_coinbase demo_openssl t a)"
    using sha256_ascii format_now_ascii assms(3,4)
    by (simp add: plain_tx_def tx_complete_def mining_coinbase_def computeTxID_def empty_tx_def isCoinbase_def
        currentTimestamp_def kBlockReward_def) (simp add: ascii_def)
  show "ascii (bk_timestamp b)" "ascii (previousHash b)" using b format_now_ascii assms(2) by simp_all
qed (rule demo_digest_ok)

end
