(* ===== verification/Http_Server.thy ===== *)
theory Http_Server
  imports Node_Safety
begin

text \<open>
  \<^verbatim>\<open>include/network/http_server.h\<close>, \<^verbatim>\<open>src/network/http_server.cpp\<close>: the HTTP interface. A
  connection is a function from the bytes that arrive to the bytes that are sent; the handlers
  are actions on the server's state, which includes the node and, through it, the chain. An
  exception that no handler catches ends the action as thrown.
\<close>

section \<open>Data\<close>

record HttpRequest =
  rq_method :: string
  rq_path :: string
  rq_headers :: "string smap"
  rq_body :: string

record HttpResponse =
  statusCode :: nat
  statusText :: string
  contentType :: string
  rs_body :: string

definition default_response :: HttpResponse where
  "default_response = \<lparr>statusCode = 200, statusText = ''OK'', contentType = ''application/json'', rs_body = []\<rparr>"

record HttpServer =
  hs_node :: Node
  lastMineAt :: "string \<rightharpoonup> int"
  knownAddresses :: "string list"
  walletManager :: WalletManager

text \<open>
  The outside of one request: that of the node, the text of an exception, a key pair generated
  by OpenSSL, two random numbers, two readings of the system clock in nanoseconds, and a second
  reading of the steady clock.
\<close>

record http_env =
  he_node :: node_env
  what :: "exn \<Rightarrow> string"
  he_generated :: "(int \<times> ec_point) option"
  random1 :: u64
  random2 :: u64
  clock1 :: int
  clock2 :: int
  steady2 :: int

definition new_http_server :: "Node \<Rightarrow> HttpServer" where
  "new_http_server n =
     \<lparr>hs_node = n, lastMineAt = Map.empty, knownAddresses = [''GENESIS''], walletManager = new_wallet_manager\<rparr>"

type_synonym 'a http = "(HttpServer, 'a) action"

definition on_node :: "'a act \<Rightarrow> 'a http" where
  "on_node m = (\<lambda>s. case m (hs_node s) of (n, r) \<Rightarrow> (s\<lparr>hs_node := n\<rparr>, r))"

definition hs_chain :: "HttpServer \<Rightarrow> Blockchain" where
  "hs_chain s = blockchain (hs_node s)"

abbreviation jt_of :: "http_env \<Rightarrow> json_text" where
  "jt_of he \<equiv> ne_jt (he_node he)"

abbreviation ossl_of :: "http_env \<Rightarrow> openssl" where
  "ossl_of he \<equiv> ne_ossl (he_node he)"


section \<open>The wire format\<close>

definition crlf :: string where
  "crlf = [CHR 0x0D, CHR 0x0A]"

definition http_serialize :: "HttpResponse \<Rightarrow> string" where
  "http_serialize resp =
     ''HTTP/1.1 '' @ dec (statusCode resp) @ '' '' @ statusText resp @ crlf @
     ''Content-Type: '' @ contentType resp @ crlf @
     ''Content-Length: '' @ dec (length (rs_body resp)) @ crlf @
     ''Access-Control-Allow-Origin: *'' @ crlf @
     ''Access-Control-Allow-Methods: GET, POST, OPTIONS'' @ crlf @
     ''Access-Control-Allow-Headers: Content-Type'' @ crlf @
     ''Connection: close'' @ crlf @ crlf @ rs_body resp"

definition strip_cr :: "string \<Rightarrow> string" where
  "strip_cr line = (if line \<noteq> [] \<and> last line = CHR 0x0D then butlast line else line)"

definition parse_request_line :: "string \<Rightarrow> HttpRequest \<Rightarrow> HttpRequest" where
  "parse_request_line line req =
     (case str_find CHR '' '' line of
        None \<Rightarrow> req
      | Some sp1 \<Rightarrow>
          (case str_find CHR '' '' (drop (sp1 + 1) line) of
             None \<Rightarrow> req
           | Some n \<Rightarrow> req\<lparr>rq_method := take sp1 line, rq_path := take n (drop (sp1 + 1) line)\<rparr>))"

fun parse_headers :: "string list \<Rightarrow> string smap \<Rightarrow> string smap" where
  "parse_headers [] hs = hs"
| "parse_headers (l # ls) hs =
     (let line = strip_cr l in
      if line = [] then hs
      else case str_find CHR '':'' line of
             None \<Rightarrow> parse_headers ls hs
           | Some colon \<Rightarrow>
               parse_headers ls
                 (sm_put (map to_lower (take colon line))
                    (dropWhile (\<lambda>c. c = CHR '' '') (drop (colon + 1) line)) hs))"

definition parseRequest :: "string \<Rightarrow> HttpRequest" where
  "parseRequest raw =
     (let req = \<lparr>rq_method = [], rq_path = [], rq_headers = [], rq_body = []\<rparr> in
      case getlines CHR 0x0A raw of
        [] \<Rightarrow> req
      | l # ls \<Rightarrow> (parse_request_line (strip_cr l) req)\<lparr>rq_headers := parse_headers ls []\<rparr>)"

definition queryParam :: "string \<Rightarrow> string \<Rightarrow> string" where
  "queryParam p key =
     (case str_find CHR ''?'' p of
        None \<Rightarrow> []
      | Some q \<Rightarrow>
          (case find (\<lambda>pair. case str_find CHR ''='' pair of None \<Rightarrow> False | Some eq \<Rightarrow> take eq pair = key)
                  (getlines CHR ''&'' (drop (q + 1) p)) of
             None \<Rightarrow> []
           | Some pair \<Rightarrow> drop (length key + 1) pair))"

definition isLikelyHex :: "string \<Rightarrow> bool" where
  "isLikelyHex value \<longleftrightarrow> value \<noteq> [] \<and> list_all is_xdigit value"

definition trim :: "string \<Rightarrow> string" where
  "trim value = rev (dropWhile is_space (rev (dropWhile is_space value)))"

definition toLower :: "string \<Rightarrow> string" where
  "toLower value = map to_lower value"

text \<open>\<^verbatim>\<open>std::stoul\<close>; a minus sign negates the unsigned value.\<close>

definition stoul :: "string \<Rightarrow> u64 result" where
  "stoul s =
     (let (neg, t) = sign_split (dropWhile is_space s);
          ds = takeWhile is_digit t; n = undec 0 ds
      in if ds = [] then Inl (InvalidArgument ''stoul'')
         else if n \<ge> 2 ^ 64 then Inl (OutOfRange ''stoul'')
         else Inr (if neg then - of_nat n else of_nat n))"


section \<open>Responses\<close>

definition errorResponse :: "json_text \<Rightarrow> nat \<Rightarrow> string \<Rightarrow> string \<Rightarrow> string \<Rightarrow> HttpResponse result" where
  "errorResponse jt code text errorCode message =
     ebind (dump jt (-1) (jobj [(''error'', JStr message), (''errorCode'', JStr errorCode), (''message'', JStr message)]))
       (\<lambda>b. Inr (default_response\<lparr>statusCode := code, statusText := text, rs_body := b\<rparr>))"

definition respond :: "http_env \<Rightarrow> json \<Rightarrow> HttpResponse http" where
  "respond he j = act_lift (ebind (dump (jt_of he) 2 j) (\<lambda>b. Inr (default_response\<lparr>rs_body := b\<rparr>)))"

definition fail_with :: "http_env \<Rightarrow> nat \<Rightarrow> string \<Rightarrow> string \<Rightarrow> string \<Rightarrow> HttpResponse http" where
  "fail_with he code text errorCode message = act_lift (errorResponse (jt_of he) code text errorCode message)"

abbreviation bad_request :: "http_env \<Rightarrow> string \<Rightarrow> string \<Rightarrow> HttpResponse http" where
  "bad_request he errorCode message \<equiv> fail_with he 400 ''Bad Request'' errorCode message"

text \<open>The answer of the read-only handlers to an exception.\<close>

definition internal_error :: "http_env \<Rightarrow> exn \<Rightarrow> HttpResponse http" where
  "internal_error he e =
     act_lift (ebind (dump (jt_of he) (-1) (jobj [(''error'', JStr (what he e))])) (\<lambda>b.
       Inr (default_response\<lparr>statusCode := 500, statusText := ''Internal Server Error'', rs_body := b\<rparr>)))"

fun jputs :: "(string \<times> json) list \<Rightarrow> json \<Rightarrow> json result" where
  "jputs [] j = Inr j"
| "jputs ((k, v) # kvs) j = ebind (jput k v j) (jputs kvs)"

definition withTxAliases :: "json \<Rightarrow> json result" where
  "withTxAliases txJson =
     ebind (jvalue get_str ''txID'' [] txJson) (\<lambda>i.
     ebind (jput ''transactionId'' (JStr i) txJson) (\<lambda>row1.
     ebind (jvalue get_str ''fromAddress'' [] txJson) (\<lambda>a.
     ebind (jput ''sender'' (JStr a) row1) (\<lambda>row2.
     ebind (jvalue get_str ''toAddress'' [] txJson) (\<lambda>b.
       jput ''receiver'' (JStr b) row2)))))"

definition learn_address :: "string \<Rightarrow> unit http" where
  "learn_address a = act_update (\<lambda>s. s\<lparr>knownAddresses := List.insert a (knownAddresses s)\<rparr>)"

definition walletExists :: "string \<Rightarrow> HttpServer \<Rightarrow> bool" where
  "walletExists address s =
     (if \<not> isValidWalletAddress address then False
      else if address \<in> set (knownAddresses s) then True
      else if getBalanceForAddress (hs_chain s) address > 0 then True
      else bc_getTransactionsForAddress (hs_chain s) address \<noteq> [])"


section \<open>Wallet handlers\<close>

definition handleCreateWallet :: "http_env \<Rightarrow> HttpResponse http" where
  "handleCreateWallet he =
     act_catch
       (act_bind (act_lift (new_wallet (ossl_of he) (he_generated he))) (\<lambda>wallet.
        let address = addressFromPublicKey (ossl_of he) (w_publicKey wallet) in
        act_then (learn_address address)
          (respond he (jobj [(''publicKey'', JStr (w_publicKey wallet)), (''privateKey'', JStr (w_privateKey wallet)),
                             (''address'', JStr address),
                             (''message'', JStr ''Wallet created. Save your private key locally.'')]))))
       (\<lambda>e. fail_with he 500 ''Internal Server Error'' ''WALLET_CREATE_FAILED'' (what he e))"

definition private_key_field :: "json \<Rightarrow> string result" where
  "private_key_field j = ebind (jvalue get_str ''privateKey'' [] j) (\<lambda>k. Inr (toLower (trim k)))"

definition handleImportWallet :: "http_env \<Rightarrow> string \<Rightarrow> HttpResponse http" where
  "handleImportWallet he text =
     act_catch
       (act_bind (act_lift (ebind (parse (jt_of he) text) private_key_field)) (\<lambda>privateKey.
        if \<not> isValidPrivateKeyHex privateKey
        then bad_request he ''INVALID_PRIVATE_KEY'' ''Private key must be exactly 64 hexadecimal characters''
        else act_bind (act_lift (importWallet (ossl_of he) privateKey)) (\<lambda>wallet.
             let address = addressFromPublicKey (ossl_of he) (w_publicKey wallet) in
             act_then (learn_address address)
               (respond he (jobj [(''publicKey'', JStr (w_publicKey wallet)), (''address'', JStr address),
                                  (''message'', JStr ''Wallet imported'')])))))
       (\<lambda>e. bad_request he ''WALLET_IMPORT_FAILED'' (what he e))"

definition handleWalletLogin :: "http_env \<Rightarrow> string \<Rightarrow> HttpResponse http" where
  "handleWalletLogin he text =
     act_catch
       (act_bind (act_lift (ebind (parse (jt_of he) text) private_key_field)) (\<lambda>privateKey.
        if \<not> isValidPrivateKeyHex privateKey
        then bad_request he ''INVALID_PRIVATE_KEY'' ''Private key must be exactly 64 hexadecimal characters''
        else act_bind (act_lift (verifyPrivateKeyLogin (ossl_of he) (clock1 he) privateKey)) (\<lambda>r.
          case r of
            None \<Rightarrow> fail_with he 401 ''Unauthorized'' ''AUTH_FAILED'' ''Private key verification failed''
          | Some (token, address, pubKey) \<Rightarrow>
              act_then (learn_address address)
                (respond he (jobj [(''address'', JStr address), (''publicKey'', JStr pubKey), (''token'', JStr token),
                                   (''message'', JStr ''Wallet authenticated'')])))))
       (\<lambda>e. bad_request he ''AUTH_FAILED'' (what he e))"

definition handleLoginChallenge :: "http_env \<Rightarrow> string \<Rightarrow> HttpResponse http" where
  "handleLoginChallenge he text =
     act_catch
       (act_bind (act_lift (parse (jt_of he) text)) (\<lambda>j.
        act_bind (act_lift (jvalue get_str ''address'' [] j)) (\<lambda>address.
        act_bind (act_lift (jvalue get_str ''publicKey'' [] j)) (\<lambda>pubKey.
        if address = [] \<or> pubKey = [] then bad_request he ''AUTH_FAILED'' ''address and publicKey are required''
        else if \<not> isValidWalletAddress address then bad_request he ''INVALID_ADDRESS'' ''Wallet address format is invalid''
        else act_bind (act_get (\<lambda>s. createLoginChallenge (ossl_of he) (random1 he) (random2 he) (clock1 he) (clock2 he)
                         address pubKey (walletManager s))) (\<lambda>r.
             act_bind (act_lift r) (\<lambda>(m, challenge).
             act_then (act_update (\<lambda>s. s\<lparr>walletManager := m\<rparr>))
               (respond he (jobj [(''challenge'', JStr challenge), (''expiresInSec'', JInt 300)]))))))))
       (\<lambda>e. bad_request he ''AUTH_FAILED'' (what he e))"

definition handleVerifyLogin :: "http_env \<Rightarrow> string \<Rightarrow> HttpResponse http" where
  "handleVerifyLogin he text =
     act_catch
       (act_bind (act_lift (parse (jt_of he) text)) (\<lambda>j.
        act_bind (act_lift (jvalue get_str ''address'' [] j)) (\<lambda>address.
        act_bind (act_lift (jvalue get_str ''publicKey'' [] j)) (\<lambda>pubKey.
        act_bind (act_lift (jvalue get_str ''challenge'' [] j)) (\<lambda>challenge.
        act_bind (act_lift (jvalue get_str ''signature'' [] j)) (\<lambda>signature.
        if address = [] \<or> pubKey = [] \<or> challenge = [] \<or> signature = []
        then bad_request he ''AUTH_FAILED'' ''address, publicKey, challenge, signature are required''
        else if \<not> isValidWalletAddress address then bad_request he ''INVALID_ADDRESS'' ''Wallet address format is invalid''
        else act_bind (act_get (\<lambda>s. verifyLogin (ossl_of he) (clock1 he) address pubKey challenge signature
                         (walletManager s))) (\<lambda>(m, token).
             act_then (act_update (\<lambda>s. s\<lparr>walletManager := m\<rparr>))
             (case token of
                None \<Rightarrow> fail_with he 401 ''Unauthorized'' ''AUTH_FAILED'' ''Invalid login signature or expired challenge''
              | Some t \<Rightarrow> act_then (learn_address address)
                  (respond he (jobj [(''address'', JStr address), (''token'', JStr t)]))))))))))
       (\<lambda>e. bad_request he ''AUTH_FAILED'' (what he e))"


section \<open>Submitting and mining\<close>

text \<open>The fields of a submission: the transaction so far, the stated identifier, the signature.\<close>

definition send_request :: "json \<Rightarrow> (Transaction \<times> string \<times> string) result" where
  "send_request j =
     ebind (jvalue get_str ''fromAddress'' [] j) (\<lambda>a.
     ebind (jvalue get_str ''toAddress'' [] j) (\<lambda>b.
     ebind (jvalue get_str ''senderPublicKey'' [] j) (\<lambda>sk.
     ebind (jvalue get_str ''receiverPublicKey'' [] j) (\<lambda>rk.
     ebind (jvalue get_str ''payload'' [] j) (\<lambda>pl.
     ebind (jvalue get_str ''timestamp'' [] j) (\<lambda>ts.
     ebind (jvalue get_str ''txID'' [] j) (\<lambda>i.
     ebind (jvalue get_str ''digitalSignature'' [] j) (\<lambda>ds.
     ebind (jvalue get_str ''signature'' ds j) (\<lambda>sg.
     ebind (jvalue get_u64 ''amount'' 0 j) (\<lambda>am.
     ebind (jvalue get_u64 ''nonce'' 0 j) (\<lambda>n.
       Inr (empty_tx\<lparr>senderPublicKey := sk, receiverPublicKey := rk, fromAddress := trim a, toAddress := trim b,
              amount := am, tx_nonce := n, payload := pl, tx_timestamp := ts\<rparr>, i, sg))))))))))))"

text \<open>The checks before the transaction is built: the status, error code and message.\<close>

definition send_refusal :: "openssl \<Rightarrow> Transaction \<Rightarrow> string \<Rightarrow> HttpServer \<Rightarrow> (nat \<times> string \<times> string \<times> string) option" where
  "send_refusal ossl tx signature s =
     (if fromAddress tx = [] \<or> toAddress tx = [] \<or> senderPublicKey tx = [] \<or> signature = []
      then Some (400, ''Bad Request'', ''INVALID_TRANSACTION'',
                 ''Missing required fields: fromAddress,toAddress,senderPublicKey,signature'')
      else if amount tx = 0 then Some (400, ''Bad Request'', ''INVALID_TRANSACTION'', ''amount must be > 0'')
      else if length (payload tx) > 2048
      then Some (413, ''Payload Too Large'', ''INVALID_TRANSACTION'', ''payload too large'')
      else if \<not> isValidWalletAddress (fromAddress tx) \<or>
              fromAddress tx \<noteq> addressFromPublicKey ossl (senderPublicKey tx)
      then Some (400, ''Bad Request'', ''INVALID_ADDRESS'',
                 ''Sender address is invalid or does not match sender public key'')
      else if \<not> isValidWalletAddress (toAddress tx)
      then Some (400, ''Bad Request'', ''INVALID_ADDRESS'', ''Receiver address format is invalid'')
      else if \<not> walletExists (toAddress tx) s
      then Some (400, ''Bad Request'', ''RECEIVER_NOT_FOUND'', ''Receiver wallet does not exist'')
      else if getBalanceForAddress (hs_chain s) (fromAddress tx) < amount tx
      then Some (400, ''Bad Request'', ''INSUFFICIENT_BALANCE'', ''Insufficient balance'')
      else None)"

text \<open>Signed 64-bit arithmetic wraps here; the language leaves an overflow undefined.\<close>

definition pending_figures :: "string \<Rightarrow> Blockchain \<Rightarrow> u64 \<times> u64 \<times> int \<times> u64" where
  "pending_figures a bc =
     (let sent = pending_outgoing a (mempool bc); received = pending_incoming a (mempool bc);
          confirmed = getBalanceForAddress bc a
      in (sent, received, sint (confirmed + received - sent),
          highest_seen_nonce a (getLastNonceForAddress bc a) (mempool bc) + 1))"

definition accepted_json :: "Transaction \<Rightarrow> Blockchain \<Rightarrow> json result" where
  "accepted_json tx bc =
     ebind (withTxAliases (tx_toJson tx)) (\<lambda>t.
     ebind (jputs [(''status'', JStr ''pending''), (''blockHeight'', JNull), (''blockHash'', JStr [])] t) (\<lambda>txJson.
       case pending_figures (fromAddress tx) bc of (sent, received, bal, n) \<Rightarrow>
         Inr (jobj [(''message'', JStr ''Transaction accepted''), (''txID'', JStr (txID tx)),
                    (''transactionId'', JStr (txID tx)), (''transaction'', txJson),
                    (''wallet'', jobj [(''address'', JStr (fromAddress tx)),
                                       (''confirmedBalance'', JUInt (getBalanceForAddress bc (fromAddress tx))),
                                       (''pendingSent'', JUInt sent), (''pendingReceived'', JUInt received),
                                       (''pendingBalance'', JInt bal), (''nextNonce'', JUInt n)]),
                    (''mempoolSize'', JUInt (of_nat (length (mempool bc))))])))"

definition submit_tx :: "http_env \<Rightarrow> Transaction \<Rightarrow> HttpResponse http" where
  "submit_tx he tx =
     act_bind (on_node (call_addTransaction (he_node he) tx)) (\<lambda>accepted.
     if accepted then act_bind (act_get (\<lambda>s. accepted_json tx (hs_chain s))) (\<lambda>r.
                      act_bind (act_lift r) (respond he))
     else bad_request he ''INVALID_TRANSACTION''
            ''Transaction rejected (invalid signature, nonce replay, insufficient balance, expired, or double-spend)'')"

definition send_failure :: "http_env \<Rightarrow> exn \<Rightarrow> HttpResponse http" where
  "send_failure he e =
     (case e of
        JsonException n \<Rightarrow> bad_request he ''INVALID_TRANSACTION'' (''JSON parse error: '' @ what he e)
      | _ \<Rightarrow> fail_with he 500 ''Internal Server Error'' ''TX_SEND_FAILED'' (what he e))"

definition handleSendTransaction :: "http_env \<Rightarrow> string \<Rightarrow> HttpResponse http" where
  "handleSendTransaction he text =
     act_catch
       (act_bind (act_lift (ebind (parse (jt_of he) text) send_request)) (\<lambda>(tx0, i, signature).
        act_bind (act_get (send_refusal (ossl_of he) tx0 signature)) (\<lambda>refusal.
        case refusal of
          Some (code, st, ec, msg) \<Rightarrow> fail_with he code st ec msg
        | None \<Rightarrow>
            let tx = computeTxID (ossl_of he) (tx0\<lparr>tx_timestamp :=
                  (if tx_timestamp tx0 = [] then currentTimestamp (clock1 he) else tx_timestamp tx0)\<rparr>)
            in if i \<noteq> [] \<and> i \<noteq> txID tx then bad_request he ''INVALID_TRANSACTION'' ''txID mismatch''
               else submit_tx he (tx\<lparr>digitalSignature := signature\<rparr>))))
       (send_failure he)"

definition kMiningCooldownSeconds :: int where
  "kMiningCooldownSeconds = 30"

definition cooldown_response :: "json_text \<Rightarrow> int \<Rightarrow> HttpResponse result" where
  "cooldown_response jt remaining =
     ebind (errorResponse jt 429 ''Too Many Requests'' ''MINING_COOLDOWN_ACTIVE'' ''Mining cooldown active'') (\<lambda>r.
     ebind (dump jt (-1) (jobj [(''error'', JStr ''Mining cooldown active''), (''errorCode'', JStr ''MINING_COOLDOWN_ACTIVE''),
                                (''message'', JStr ''Mining cooldown active''),
                                (''cooldownRemainingSeconds'', JInt remaining)])) (\<lambda>b.
       Inr (r\<lparr>rs_body := b\<rparr>)))"

definition miner_field :: "json_text \<Rightarrow> string \<Rightarrow> string \<Rightarrow> string result" where
  "miner_field jt text p =
     ebind (if text \<noteq> [] \<and> hd text = CHR ''{''
            then ebind (parse jt text) (jvalue get_str ''minerAddress'' [])
            else Inr (queryParam p ''minerAddress'')) (\<lambda>a.
       Inr (if a = [] then ''GENESIS'' else a))"

definition mined_json :: "Block \<Rightarrow> string \<Rightarrow> nat \<Rightarrow> u64 \<Rightarrow> json" where
  "mined_json b minerAddress pending bal =
     jobj [(''message'', JStr ''Block mined successfully''), (''block'', block_toJson b),
           (''minerAddress'', JStr minerAddress), (''reward'', JInt 50),
           (''notification'', JStr ''50 PCN mined successfully''), (''cooldownSeconds'', JInt kMiningCooldownSeconds),
           (''mempoolTransactionsMined'', JUInt (of_nat pending)), (''rewardOnlyBlock'', JBool (pending = 0)),
           (''newBalance'', JUInt bal)]"

text \<open>The seconds since the address last mined; \<^const>\<open>None\<close> if it never did.\<close>

definition mine_cooldown :: "http_env \<Rightarrow> string \<Rightarrow> HttpServer \<Rightarrow> int option" where
  "mine_cooldown he a s =
     (case lastMineAt s a of
        None \<Rightarrow> None
      | Some t \<Rightarrow>
          let elapsed = age_seconds (steady (he_node he)) t
          in if elapsed < kMiningCooldownSeconds then Some (kMiningCooldownSeconds - elapsed) else None)"

definition mine_answer :: "http_env \<Rightarrow> string \<Rightarrow> nat \<Rightarrow> Block \<Rightarrow> HttpResponse http" where
  "mine_answer he minerAddress pending b =
     act_then (act_update (\<lambda>s. s\<lparr>lastMineAt := (lastMineAt s)(minerAddress \<mapsto> steady2 he)\<rparr>))
     (act_then (learn_address minerAddress)
     (act_bind (act_get (\<lambda>s. wm_getBalance (hs_chain s) minerAddress)) (\<lambda>bal.
        respond he (mined_json b minerAddress pending bal))))"

definition mine_for :: "http_env \<Rightarrow> string \<Rightarrow> HttpResponse http" where
  "mine_for he minerAddress =
     act_bind (act_get (mine_cooldown he minerAddress)) (\<lambda>cooldown.
       case cooldown of
         Some remaining \<Rightarrow> act_lift (cooldown_response (jt_of he) remaining)
       | None \<Rightarrow>
           act_bind (act_get (\<lambda>s. length (mempool (hs_chain s)))) (\<lambda>pending.
           act_bind (on_node (call_mine (he_node he) (clock2 he) minerAddress)) (mine_answer he minerAddress pending)))"

definition handleMine :: "http_env \<Rightarrow> string \<Rightarrow> string \<Rightarrow> HttpResponse http" where
  "handleMine he text p =
     act_catch
       (act_bind (act_lift (miner_field (jt_of he) text p)) (\<lambda>minerAddress.
        if minerAddress \<noteq> ''GENESIS'' \<and> \<not> isValidWalletAddress minerAddress
        then bad_request he ''INVALID_ADDRESS'' ''Miner address format is invalid''
        else mine_for he minerAddress))
       (\<lambda>e. fail_with he 500 ''Internal Server Error'' ''MINE_FAILED'' (what he e))"

definition handleTrade :: "http_env \<Rightarrow> string \<Rightarrow> HttpResponse http" where
  "handleTrade he text =
     fail_with he 501 ''Not Implemented'' ''TRADE_NOT_IMPLEMENTED'' ''Trade endpoint is not implemented yet''"


section \<open>Read-only handlers\<close>

text \<open>A handler that computes a JSON value from the state and answers with it.\<close>

definition answer_from :: "http_env \<Rightarrow> (HttpServer \<Rightarrow> json result) \<Rightarrow> HttpResponse http" where
  "answer_from he f =
     act_catch (act_bind (act_get f) (\<lambda>r. act_bind (act_lift r) (respond he))) (internal_error he)"

definition handleGetChain :: "http_env \<Rightarrow> HttpResponse http" where
  "handleGetChain he = answer_from he (\<lambda>s.
     Inr (jobj [(''length'', JUInt (of_nat (getChainLength (hs_chain s)))), (''chain'', chainToJson (hs_chain s))]))"

definition confirmed_row :: "Block \<Rightarrow> Transaction \<Rightarrow> json result" where
  "confirmed_row b tx =
     ebind (withTxAliases (tx_toJson tx)) (jputs [(''status'', JStr ''confirmed''),
       (''blockHeight'', JUInt (bk_index b)), (''blockHash'', JStr (hash b))])"

definition pending_row :: "Transaction \<Rightarrow> json result" where
  "pending_row tx =
     ebind (withTxAliases (tx_toJson tx)) (jputs [(''status'', JStr ''pending''),
       (''blockHeight'', JNull), (''blockHash'', JStr [])])"

definition confirmed_txs :: "Block list \<Rightarrow> (Block \<times> Transaction) list" where
  "confirmed_txs ch = concat (map (\<lambda>b. map (\<lambda>tx. (b, tx)) (transactions b)) ch)"

definition transactions_json :: "Block list \<Rightarrow> Transaction list \<Rightarrow> json result" where
  "transactions_json ch mp =
     (let ids = map (\<lambda>bt. txID (snd bt)) (confirmed_txs ch) in
      ebind (emap (\<lambda>(b, tx). confirmed_row b tx) (confirmed_txs ch)) (\<lambda>cs.
      ebind (emap pending_row (filter (\<lambda>tx. txID tx \<notin> set ids) mp)) (\<lambda>ps.
        Inr (jobj [(''count'', JUInt (of_nat (length (cs @ ps)))), (''transactions'', JArr (cs @ ps)),
                   (''confirmedTransactions'', JArr cs), (''pendingTransactions'', JArr ps)]))))"

definition handleGetTransactions :: "http_env \<Rightarrow> HttpResponse http" where
  "handleGetTransactions he = answer_from he (\<lambda>s. transactions_json (chain (hs_chain s)) (mempool (hs_chain s)))"

definition handleGetMempool :: "http_env \<Rightarrow> HttpResponse http" where
  "handleGetMempool he = answer_from he (\<lambda>s.
     ebind (emap (\<lambda>tx. ebind (withTxAliases (tx_toJson tx)) (jput ''status'' (JStr ''pending''))) (mempool (hs_chain s)))
       (\<lambda>rows. Inr (jobj [(''count'', JUInt (of_nat (length (mempool (hs_chain s))))), (''transactions'', JArr rows)])))"

definition balance_json :: "string \<Rightarrow> Blockchain \<Rightarrow> json" where
  "balance_json a bc =
     (case pending_figures a bc of (sent, received, bal, n) \<Rightarrow>
        jobj [(''address'', JStr a), (''balance'', JUInt (getBalanceForAddress bc a)),
              (''confirmedBalance'', JUInt (getBalanceForAddress bc a)), (''pendingBalance'', JInt bal),
              (''pendingSent'', JUInt sent), (''pendingReceived'', JUInt received), (''nextNonce'', JUInt n)])"

definition handleGetWalletBalance :: "http_env \<Rightarrow> string \<Rightarrow> HttpResponse http" where
  "handleGetWalletBalance he address =
     act_catch
       (if \<not> isValidWalletAddress address then bad_request he ''INVALID_ADDRESS'' ''Wallet address format is invalid''
        else act_then (learn_address address)
               (act_bind (act_get (\<lambda>s. balance_json address (hs_chain s))) (respond he)))
       (internal_error he)"

definition direction_of :: "string \<Rightarrow> Transaction \<Rightarrow> string" where
  "direction_of address tx =
     (if isCoinbase tx then ''reward'' else if fromAddress tx = address then ''sent'' else ''received'')"

text \<open>The block of an identifier is the last one that contains it.\<close>

definition tx_block_meta :: "Block list \<Rightarrow> string \<Rightarrow> (u64 \<times> string) option" where
  "tx_block_meta ch i = map_of (rev (map (\<lambda>(b, tx). (txID tx, (bk_index b, hash b))) (confirmed_txs ch))) i"

definition wallet_row :: "string \<Rightarrow> string \<Rightarrow> (u64 \<times> string) option \<Rightarrow> Transaction \<Rightarrow> json result" where
  "wallet_row address st meta tx =
     ebind (withTxAliases (tx_toJson tx)) (jputs
       [(''direction'', JStr (direction_of address tx)), (''status'', JStr st),
        (''blockHeight'', case meta of Some m \<Rightarrow> JUInt (fst m) | None \<Rightarrow> JNull),
        (''blockHash'', JStr (case meta of Some m \<Rightarrow> snd m | None \<Rightarrow> []))])"

definition wallet_transactions_json :: "string \<Rightarrow> Blockchain \<Rightarrow> json result" where
  "wallet_transactions_json address bc =
     (let txs = bc_getTransactionsForAddress bc address;
          pend = filter (\<lambda>tx. (fromAddress tx = address \<or> toAddress tx = address) \<and> txID tx \<notin> txID ` set txs) (mempool bc) in
      ebind (emap (\<lambda>tx. wallet_row address ''confirmed'' (tx_block_meta (chain bc) (txID tx)) tx) txs) (\<lambda>cs.
      ebind (emap (wallet_row address ''pending'' None) pend) (\<lambda>ps.
        Inr (jobj [(''address'', JStr address), (''count'', JUInt (of_nat (length (cs @ ps)))),
                   (''transactions'', JArr (cs @ ps)), (''confirmedTransactions'', JArr cs),
                   (''pendingTransactions'', JArr ps)]))))"

definition handleGetWalletTransactions :: "http_env \<Rightarrow> string \<Rightarrow> HttpResponse http" where
  "handleGetWalletTransactions he address =
     act_catch
       (if \<not> isValidWalletAddress address then bad_request he ''INVALID_ADDRESS'' ''Wallet address format is invalid''
        else act_bind (act_get (\<lambda>s. wallet_transactions_json address (hs_chain s))) (\<lambda>r.
             act_bind (act_lift r) (respond he)))
       (internal_error he)"

definition handleGetPeers :: "http_env \<Rightarrow> HttpResponse http" where
  "handleGetPeers he =
     act_catch
       (act_bind (on_node getPeerList) (\<lambda>ps.
          respond he (jobj [(''count'', JUInt (of_nat (length ps))), (''peers'', JArr (map JStr ps))])))
       (internal_error he)"

definition handleHealth :: "http_env \<Rightarrow> HttpResponse http" where
  "handleHealth he =
     act_catch
       (act_bind (on_node getPeerList) (\<lambda>ps.
        act_bind (act_get hs_chain) (\<lambda>bc.
          respond he (jobj [(''status'', JStr ''ok''), (''chainLength'', JUInt (of_nat (getChainLength bc))),
                            (''chainUpdateVersion'', JUInt (chainUpdateVersion bc)),
                            (''difficulty'', JUInt (ucast (bc_difficulty bc))),
                            (''peerCount'', JUInt (of_nat (length ps))),
                            (''mempoolSize'', JUInt (of_nat (length (mempool bc))))]))))
       (internal_error he)"

definition peer_score_json :: "string \<times> PeerInfo \<Rightarrow> json" where
  "peer_score_json kp =
     jobj [(''endpoint'', JStr (fst kp)), (''host'', JStr (pi_host (snd kp))),
           (''port'', JUInt (ucast (pi_port (snd kp)))), (''score'', JInt (score (snd kp))),
           (''banned'', JBool (banned (snd kp))), (''invalidBlockCount'', JInt (invalidBlockCount (snd kp)))]"

definition handleGetPeerScores :: "http_env \<Rightarrow> HttpResponse http" where
  "handleGetPeerScores he = answer_from he (\<lambda>s.
     let all = peerScorer (hs_node s)
     in Inr (jobj [(''count'', JUInt (of_nat (length all))), (''peers'', JArr (map peer_score_json all))]))"

definition handleNetworkStats :: "http_env \<Rightarrow> HttpResponse http" where
  "handleNetworkStats he = answer_from he (\<lambda>s. getNetworkStats (he_node he) (hs_node s))"


section \<open>Routing and connections\<close>

definition quoted :: "string \<Rightarrow> string" where
  "quoted s = CHR 0x22 # s @ [CHR 0x22]"

definition plain_response :: "nat \<Rightarrow> string \<Rightarrow> string \<Rightarrow> HttpResponse" where
  "plain_response code text b = default_response\<lparr>statusCode := code, statusText := text, rs_body := b\<rparr>"

definition after_prefix :: "string \<Rightarrow> string \<Rightarrow> string" where
  "after_prefix p s = drop (length p) s"

definition not_found_body :: string where
  "not_found_body = ''{'' @ quoted ''error'' @ '': '' @ quoted ''Endpoint not found'' @ ''}''"

definition handleRequest :: "http_env \<Rightarrow> HttpRequest \<Rightarrow> HttpResponse http" where
  "handleRequest he req =
     (let routePath = takeWhile (\<lambda>c. c \<noteq> CHR ''?'') (rq_path req); get = (rq_method req = ''GET'');
          post = (rq_method req = ''POST'') in
      if rq_method req = ''OPTIONS'' then act_return (plain_response 204 ''No Content'' [])
      else if post \<and> routePath = ''/wallet/create'' then handleCreateWallet he
      else if post \<and> routePath = ''/wallet/import'' then handleImportWallet he (rq_body req)
      else if post \<and> routePath = ''/wallet/login'' then handleWalletLogin he (rq_body req)
      else if post \<and> routePath = ''/wallet/loginChallenge'' then handleLoginChallenge he (rq_body req)
      else if post \<and> routePath = ''/wallet/verifyLogin'' then handleVerifyLogin he (rq_body req)
      else if post \<and> routePath = ''/transaction/send'' then handleSendTransaction he (rq_body req)
      else if post \<and> starts_with ''/mine'' routePath then handleMine he (rq_body req) (rq_path req)
      else if post \<and> routePath = ''/api/trade'' then handleTrade he (rq_body req)
      else if get \<and> routePath = ''/chain'' then handleGetChain he
      else if get \<and> routePath = ''/transactions'' then handleGetTransactions he
      else if get \<and> routePath = ''/mempool'' then handleGetMempool he
      else if get \<and> starts_with ''/wallet/balance/'' routePath
      then handleGetWalletBalance he (after_prefix ''/wallet/balance/'' routePath)
      else if get \<and> starts_with ''/wallet/transactions/'' routePath
      then handleGetWalletTransactions he (after_prefix ''/wallet/transactions/'' routePath)
      else if get \<and> routePath = ''/peers'' then handleGetPeers he
      else if get \<and> routePath = ''/peers/scores'' then handleGetPeerScores he
      else if get \<and> routePath = ''/network/stats'' then handleNetworkStats he
      else if get \<and> routePath = ''/health'' then handleHealth he
      else if get \<and> routePath = ''/status'' then handleHealth he
      else act_return (plain_response 404 ''Not Found'' not_found_body))"

text \<open>The first position of a substring.\<close>

fun str_find_sub :: "string \<Rightarrow> string \<Rightarrow> nat option" where
  "str_find_sub p [] = (if p = [] then Some 0 else None)"
| "str_find_sub p (c # s) = (if starts_with p (c # s) then Some 0 else map_option Suc (str_find_sub p s))"

definition MAX_BODY_SIZE :: u64 where
  "MAX_BODY_SIZE = 1 * 1024 * 1024"

definition write_response :: "HttpResponse http \<Rightarrow> string http" where
  "write_response m = act_bind m (\<lambda>resp. act_return (http_serialize resp))"

text \<open>
  A connection: \<open>data\<close> is what was read up to and beyond the end of the headers, \<open>next_bytes n\<close> the
  result of reading \<open>n\<close> further bytes, \<^const>\<open>None\<close> if that fails. The result is what is written back;
  a failed read of the headers writes nothing and is not modelled.
\<close>

definition handleConnection :: "http_env \<Rightarrow> string \<Rightarrow> (nat \<Rightarrow> string option) \<Rightarrow> string http" where
  "handleConnection he data next_bytes =
     (let headerEnd = (case str_find_sub (crlf @ crlf) data of Some i \<Rightarrow> i | None \<Rightarrow> 0);
          req = parseRequest (take (headerEnd + 4) data);
          extraBody = drop (headerEnd + 4) data
      in case sm_get (rq_headers req) ''content-length'' of
           None \<Rightarrow> write_response (handleRequest he req)
         | Some cl \<Rightarrow>
             (case stoul cl of
                Inl e \<Rightarrow> write_response (act_return (plain_response 400 ''Bad Request''
                           (''{'' @ quoted ''error'' @ '': '' @ quoted ''Invalid Content-Length header'' @ ''}'')))
              | Inr contentLen \<Rightarrow>
                  if contentLen > MAX_BODY_SIZE
                  then write_response (act_return (plain_response 413 ''Payload Too Large''
                         (''{'' @ quoted ''error'' @ '': '' @ quoted ''Request body too large (max 1MB)'' @ ''}'')))
                  else let n = unat contentLen; remaining = n - length extraBody
                       in if remaining > 0
                          then write_response (handleRequest he
                                 (case next_bytes remaining of
                                    None \<Rightarrow> req
                                  | Some b \<Rightarrow> req\<lparr>rq_body := extraBody @ b\<rparr>))
                          else write_response (handleRequest he (req\<lparr>rq_body := take n extraBody\<rparr>))))"

end
