(* ===== verification/Program.thy ===== *)
theory Program
  imports Http_Server
begin

text \<open>
  \<^verbatim>\<open>src/main.cpp\<close>: the configuration file, the command line, and the construction of the whole
  program. Signals, threads and the console are left out: after construction the program is
  its event loop.
\<close>

section \<open>Configuration\<close>

record PeerAddress =
  pa_host :: string
  pa_port :: u16

record Config =
  p2pPort :: u16
  httpPort :: u16
  cfg_difficulty :: u32
  cfg_dataDir :: string
  consensus :: string
  cfg_name :: string
  configPath :: string
  cfg_publicIp :: string
  cfg_peers :: "PeerAddress list"
  cfg_bootstrapNodes :: "PeerAddress list"
  cfg_maxOutbound :: u64
  cfg_maxInbound :: u64
  networkTimeouts :: NetworkTimeouts
  cfg_retryPolicy :: RetryPolicy

definition default_config :: Config where
  "default_config =
     \<lparr>p2pPort = 5000, httpPort = 8000, cfg_difficulty = 2, cfg_dataDir = ''./data'', consensus = ''pow'',
      cfg_name = ''PersonalBlockchain'', configPath = ''config.json'', cfg_publicIp = [], cfg_peers = [],
      cfg_bootstrapNodes = [], cfg_maxOutbound = 8, cfg_maxInbound = 32,
      networkTimeouts = default_timeouts, cfg_retryPolicy = default_retry_policy\<rparr>"

text \<open>\<^const>\<open>None\<close> stands for the result \<^verbatim>\<open>false\<close>; \<^verbatim>\<open>std::stoi\<close> may throw.\<close>

definition checked_address :: "string \<Rightarrow> int \<Rightarrow> PeerAddress option" where
  "checked_address host v =
     (let port = word_of_int v :: u16
      in if port > 0 then Some \<lparr>pa_host = host, pa_port = port\<rparr> else None)"

definition parseEndpoint :: "string \<Rightarrow> PeerAddress option result" where
  "parseEndpoint entry =
     (if entry = [] then Inr None
      else case str_rfind CHR '':'' entry of
             Some colonPos \<Rightarrow>
               if colonPos > 0
               then ebind (stoi (drop (colonPos + 1) entry)) (\<lambda>v. Inr (checked_address (take colonPos entry) v))
               else ebind (stoi entry) (\<lambda>v. Inr (checked_address ''127.0.0.1'' v))
           | None \<Rightarrow> ebind (stoi entry) (\<lambda>v. Inr (checked_address ''127.0.0.1'' v)))"

definition add_address :: "PeerAddress option \<Rightarrow> PeerAddress list \<Rightarrow> PeerAddress list" where
  "add_address a target = (case a of None \<Rightarrow> target | Some pa \<Rightarrow> target @ [pa])"

fun parse_entries :: "string list \<Rightarrow> PeerAddress list \<Rightarrow> PeerAddress list result" where
  "parse_entries [] target = Inr target"
| "parse_entries (e # es) target = ebind (parseEndpoint e) (\<lambda>a. parse_entries es (add_address a target))"

definition parsePeerList :: "string \<Rightarrow> PeerAddress list \<Rightarrow> PeerAddress list result" where
  "parsePeerList peersStr target =
     parse_entries (filter (\<lambda>e. e \<noteq> []) (getlines CHR '','' peersStr)) target"

text \<open>The strings of a JSON array, replacing a list of addresses.\<close>

definition config_addresses :: "json \<Rightarrow> string \<Rightarrow> PeerAddress list result" where
  "config_addresses j key =
     parse_entries (List.map_filter (\<lambda>item. case item of JStr e \<Rightarrow> Some e | _ \<Rightarrow> None) (jelems (jfield j key))) []"

definition has_array :: "json \<Rightarrow> string \<Rightarrow> bool" where
  "has_array j key \<longleftrightarrow> jcontains j key \<and> is_array (jfield j key)"

definition has_object :: "json \<Rightarrow> string \<Rightarrow> bool" where
  "has_object j key \<longleftrightarrow> jcontains j key \<and> is_object (jfield j key)"

definition load_basic :: "json \<Rightarrow> Config \<Rightarrow> Config result" where
  "load_basic j c =
     ebind (jvalue get_u16 ''p2p_port'' (p2pPort c) j) (\<lambda>p.
     ebind (jvalue get_u16 ''http_port'' (httpPort c) j) (\<lambda>h.
     ebind (jvalue get_u32 ''difficulty'' (cfg_difficulty c) j) (\<lambda>d.
     ebind (jvalue get_str ''data_dir'' (cfg_dataDir c) j) (\<lambda>dir.
     ebind (jvalue get_str ''consensus'' (consensus c) j) (\<lambda>cons.
     ebind (jvalue get_str ''name'' (cfg_name c) j) (\<lambda>n.
     ebind (jvalue get_str ''public_ip'' (cfg_publicIp c) j) (\<lambda>ip.
       Inr (c\<lparr>p2pPort := p, httpPort := h, cfg_difficulty := d, cfg_dataDir := dir, consensus := cons,
              cfg_name := n, cfg_publicIp := ip\<rparr>))))))))"

definition load_peers :: "json \<Rightarrow> Config \<Rightarrow> Config result" where
  "load_peers j c =
     ebind (if has_array j ''bootstrap_nodes'' then config_addresses j ''bootstrap_nodes'' else Inr (cfg_bootstrapNodes c)) (\<lambda>bs.
     ebind (if has_array j ''seed_peers'' then config_addresses j ''seed_peers''
            else if has_array j ''peers'' then config_addresses j ''peers'' else Inr (cfg_peers c)) (\<lambda>ps.
       Inr (c\<lparr>cfg_bootstrapNodes := bs, cfg_peers := ps\<rparr>)))"

definition load_limits :: "json \<Rightarrow> Config \<Rightarrow> Config result" where
  "load_limits j c =
     (if has_object j ''peer_limits'' then
        (let limits = jfield j ''peer_limits'' in
         ebind (jvalue get_u64 ''max_outbound_peers'' (cfg_maxOutbound c) limits) (\<lambda>out.
         ebind (jvalue get_u64 ''max_inbound_peers'' (cfg_maxInbound c) limits) (\<lambda>inb.
           Inr (c\<lparr>cfg_maxOutbound := out, cfg_maxInbound := inb\<rparr>))))
      else Inr c)"

definition load_timeouts :: "json \<Rightarrow> Config \<Rightarrow> Config result" where
  "load_timeouts j c =
     (if has_object j ''network_timeouts'' then
        (let t = jfield j ''network_timeouts''; nt = networkTimeouts c in
         ebind (jvalue get_int ''heartbeat_interval_sec'' (heartbeatIntervalSec nt) t) (\<lambda>v1.
         ebind (jvalue get_int ''heartbeat_timeout_sec'' (heartbeatTimeoutSec nt) t) (\<lambda>v2.
         ebind (jvalue get_int ''gossip_interval_sec'' (gossipIntervalSec nt) t) (\<lambda>v3.
         ebind (jvalue get_int ''peer_rotation_sec'' (peerRotationSec nt) t) (\<lambda>v4.
         ebind (jvalue get_int ''quarantine_sec'' (quarantineSec nt) t) (\<lambda>v5.
         ebind (jvalue get_int ''dedup_window_sec'' (dedupWindowSec nt) t) (\<lambda>v6.
           Inr (c\<lparr>networkTimeouts := \<lparr>heartbeatIntervalSec = v1, heartbeatTimeoutSec = v2, gossipIntervalSec = v3,
                   peerRotationSec = v4, quarantineSec = v5, dedupWindowSec = v6\<rparr>\<rparr>))))))))
      else Inr c)"

definition load_retry :: "json \<Rightarrow> Config \<Rightarrow> Config result" where
  "load_retry j c =
     (if has_object j ''retry_policy'' then
        (let r = jfield j ''retry_policy''; rp = cfg_retryPolicy c in
         ebind (jvalue get_int ''max_retries'' (maxRetries rp) r) (\<lambda>v1.
         ebind (jvalue get_int ''base_delay_ms'' (baseDelayMs rp) r) (\<lambda>v2.
         ebind (jvalue get_int ''max_delay_ms'' (maxDelayMs rp) r) (\<lambda>v3.
         ebind (jvalue get_int ''jitter_ms'' (jitterMs rp) r) (\<lambda>v4.
         ebind (jvalue get_int ''reconnect_cooldown_ms'' (reconnectCooldownMs rp) r) (\<lambda>v5.
           Inr (c\<lparr>cfg_retryPolicy := \<lparr>maxRetries = v1, baseDelayMs = v2, maxDelayMs = v3, jitterMs = v4,
                   reconnectCooldownMs = v5\<rparr>\<rparr>)))))))
      else Inr c)"

text \<open>The contents of the file, \<^const>\<open>None\<close> if it cannot be opened; \<open>jin\<close> reads JSON from a stream.\<close>

definition loadConfigFile :: "(string \<Rightarrow> json result) \<Rightarrow> string option \<Rightarrow> Config \<Rightarrow> Config result" where
  "loadConfigFile jin file c =
     (case file of
        None \<Rightarrow> Inr c
      | Some text \<Rightarrow>
          ebind (jin text) (\<lambda>j.
          ebind (load_basic j c) (\<lambda>c1.
          ebind (load_peers j c1) (\<lambda>c2.
          ebind (load_limits j c2) (\<lambda>c3.
          ebind (load_timeouts j c3) (\<lambda>c4. load_retry j c4))))))"


section \<open>The command line\<close>

fun find_config_path :: "string list \<Rightarrow> string \<Rightarrow> string" where
  "find_config_path (a # b # args) p =
     (if a = ''--config'' then find_config_path args b else find_config_path (b # args) p)"
| "find_config_path args p = p"

text \<open>One option with a value; \<^const>\<open>None\<close> if the option takes none.\<close>

definition set_option :: "string \<Rightarrow> string \<Rightarrow> Config \<Rightarrow> Config result option" where
  "set_option arg v c =
     (if arg = ''--port'' then Some (ebind (stoi v) (\<lambda>i. Inr (c\<lparr>p2pPort := word_of_int i\<rparr>)))
      else if arg = ''--http-port'' then Some (ebind (stoi v) (\<lambda>i. Inr (c\<lparr>httpPort := word_of_int i\<rparr>)))
      else if arg = ''--difficulty'' then Some (ebind (stoi v) (\<lambda>i. Inr (c\<lparr>cfg_difficulty := word_of_int i\<rparr>)))
      else if arg = ''--data-dir'' then Some (Inr (c\<lparr>cfg_dataDir := v\<rparr>))
      else if arg = ''--consensus'' then Some (Inr (c\<lparr>consensus := v\<rparr>))
      else if arg = ''--name'' then Some (Inr (c\<lparr>cfg_name := v\<rparr>))
      else if arg = ''--peers'' then Some (ebind (parsePeerList v (cfg_peers c)) (\<lambda>ps. Inr (c\<lparr>cfg_peers := ps\<rparr>)))
      else if arg = ''--bootstrap'' then Some (ebind (parsePeerList v []) (\<lambda>ps. Inr (c\<lparr>cfg_bootstrapNodes := ps\<rparr>)))
      else if arg = ''--public-ip'' then Some (Inr (c\<lparr>cfg_publicIp := v\<rparr>))
      else if arg = ''--max-outbound-peers'' then Some (ebind (stoul v) (\<lambda>n. Inr (c\<lparr>cfg_maxOutbound := n\<rparr>)))
      else if arg = ''--max-inbound-peers'' then Some (ebind (stoul v) (\<lambda>n. Inr (c\<lparr>cfg_maxInbound := n\<rparr>)))
      else None)"

text \<open>The second pass; \<^const>\<open>None\<close> means that the program exits after printing its help.\<close>

fun apply_args :: "string list \<Rightarrow> Config \<Rightarrow> Config option result" where
  "apply_args [] c = Inr (Some c)"
| "apply_args [arg] c = (if arg = ''--help'' \<or> arg = ''-h'' then Inr None else Inr (Some c))"
| "apply_args (arg # v # args) c =
     (case set_option arg v c of
        Some r \<Rightarrow> ebind r (\<lambda>c'. apply_args args c')
      | None \<Rightarrow> if arg = ''--help'' \<or> arg = ''-h'' then Inr None else apply_args (v # args) c)"

definition parseArgs :: "(string \<Rightarrow> json result) \<Rightarrow> (string \<Rightarrow> string option) \<Rightarrow> string list \<Rightarrow> Config option result" where
  "parseArgs jin read args =
     (let c = default_config\<lparr>configPath := find_config_path args (configPath default_config)\<rparr>
      in ebind (loadConfigFile jin (read (configPath c)) c) (apply_args args))"


section \<open>Construction of the program\<close>

definition node_options :: "Config \<Rightarrow> NodeOptions" where
  "node_options c =
     \<lparr>no_dataDir = cfg_dataDir c, publicIp = cfg_publicIp c,
      bootstrapNodes = map (\<lambda>p. pa_host p @ '':'' @ to_string (pa_port p)) (cfg_bootstrapNodes c),
      no_maxOutbound = unat (cfg_maxOutbound c), no_maxInbound = unat (cfg_maxInbound c),
      retryPolicy = cfg_retryPolicy c, timeouts = networkTimeouts c\<rparr>"

text \<open>
  Everything \<^verbatim>\<open>main\<close> does before the event loop runs: the server, or the exit because the chain
  is not valid. The engine is proof of work whatever \<^verbatim>\<open>config.consensus\<close> says.
\<close>

definition connect_peers :: "node_env \<Rightarrow> PeerAddress list \<Rightarrow> unit act" where
  "connect_peers env = act_each (\<lambda>p. connectToPeer env (pa_host p) (pa_port p) 0)"

definition start_program ::
  "node_env \<Rightarrow> (string \<Rightarrow> json result) \<Rightarrow> (int \<times> ec_point) option \<Rightarrow> Config \<Rightarrow> fsys \<Rightarrow>
   HttpServer option result option" where
  "start_program env jin generated c f =
     (case open_manager (ne_io env) (cfg_dataDir c) f of
        Inl e \<Rightarrow> Some (Inl e)
      | Inr (m, f1) \<Rightarrow>
          (case new_blockchain (ne_jt env) (ne_ossl env) (ne_io env) (wall env) (cfg_difficulty c)
                  (Some (PoWEngine (ne_ossl env) default_adjuster)) (Some m) f1 of
             None \<Rightarrow> None
           | Some (Inl e) \<Rightarrow> Some (Inl e)
           | Some (Inr (bc, f2)) \<Rightarrow>
               (case new_node env jin generated (p2pPort c) (node_options c) bc f2 of
                  (Inl e, f3) \<Rightarrow> Some (Inl e)
                | (Inr n, f3) \<Rightarrow>
                    (case act_then (start_node env) (connect_peers env (cfg_peers c)) n of
                       (n1, Returned u) \<Rightarrow>
                         if bc_isChainValid (ne_ossl env) (wall env) (blockchain n1)
                         then Some (Inr (Some (new_http_server n1))) else Some (Inr None)
                     | (n1, Thrown e) \<Rightarrow> Some (Inl e)
                     | (n1, Blocked) \<Rightarrow> None))))"

text \<open>What is left of \<^verbatim>\<open>main\<close> after the event loop was stopped by a signal.\<close>

definition shut_down :: "node_env \<Rightarrow> HttpServer \<Rightarrow> fsys result" where
  "shut_down env s = persistChain (ne_jt env) (ne_io env) (hs_chain s) (disk (hs_node s))"

end
