(* ===== verification/Node_Threats.thy ===== *)
theory Node_Threats
  imports Node_Safety
begin

text \<open>
  What a remote node can do to this one: how handlers end under messages that the code does not
  expect, and what happens when the connection slots are used up.
\<close>

section \<open>Evaluating actions\<close>

lemma act_simps [simp]:
  "act_bind (act_return x) k s = k x s"
  "act_bind (act_get g) k s = k (g s) s"
  "act_bind (act_update u) l s = l () (u s)"
  "act_bind (act_lift (Inr y)) k' s = k' y s"
  "act_bind (act_lift (Inl e)) k' s = (s, Thrown e)"
  "act_then (act_return x) n s = n s"
  "act_then (act_update u) n s = n (u s)"
  "act_then (act_lift (Inl e)) n s = (s, Thrown e)"
  "act_return z s = (s, Returned z)"
  "act_get h s = (s, Returned (h s))"
  "act_update u s = (u s, Returned ())"
  "act_bind (act_bind m1 k1) k2 s = act_bind m1 (\<lambda>x. act_bind (k1 x) k2) s"
  "act_then (act_bind m1 k3) n s = act_bind m1 (\<lambda>x. act_then (k3 x) n) s"
  "act_then (act_then m1 m2) n s = act_then m1 (act_then m2 n) s"
  "act_bind (act_then m1 m3) k4 s = act_then m1 (act_bind m3 k4) s"
  by (auto simp: act_bind_def act_then_def act_return_def act_get_def act_update_def act_lift_def act_throw_def
      split: prod.splits outcome.splits)

lemma act_bind_eval: "m s = (s', Returned x) \<Longrightarrow> act_bind m k s = k x s'"
  by (simp add: act_bind_def)

lemma act_then_eval: "m s = (s', Returned x) \<Longrightarrow> act_then m n s = n s'"
  by (simp add: act_then_def act_bind_def)

lemma act_then_stops: "m s = (s', Blocked) \<Longrightarrow> act_then m n s = (s', Blocked)"
  "m s = (s', Thrown e) \<Longrightarrow> act_then m n s = (s', Thrown e)"
  by (simp_all add: act_then_def act_bind_def)

lemma unlocked [simp]: "\<not> peersMutex s \<Longrightarrow> s\<lparr>peersMutex := False\<rparr> = (s :: Node)"
  by (cases s) simp

lemma lock_get [simp]:
  "\<not> peersMutex s \<Longrightarrow> with_peers_lock (act_get g) s = (s, Returned (g (s\<lparr>peersMutex := True\<rparr>)))"
  by (simp add: with_peers_lock_def)

lemma lock_held [simp]: "peersMutex s \<Longrightarrow> with_peers_lock m s = (s, Blocked)"
  by (simp add: with_peers_lock_def)

lemma the_peer_lock [simp]: "the_peer i (s\<lparr>peersMutex := b\<rparr>) = the_peer i s"
  by (simp add: the_peer_def)

definition connected_endpoints :: "Node \<Rightarrow> string list" where
  "connected_endpoints s = map (\<lambda>i. getEndpoint (the_peer i s)) (filter (\<lambda>i. isConnected (the_peer i s)) (peer_list s))"

lemma getPeerList_eval: "\<not> peersMutex s \<Longrightarrow> getPeerList s = (s, Returned (connected_endpoints s))"
  by (simp add: getPeerList_def connected_endpoints_def)

lemma getPeerList_blocked: "peersMutex s \<Longrightarrow> getPeerList s = (s, Blocked)"
  by (simp add: getPeerList_def)

lemma refreshMetrics_blocked: "peersMutex s \<Longrightarrow> refreshMetrics s = (s, Blocked)"
  by (simp add: refreshMetrics_def act_bind_def getPeerList_blocked)


section \<open>A message from a banned peer\<close>

lemma removePeer_blocks:
  assumes "\<not> peersMutex s"
  shows "snd (removePeer env i q s) = Blocked \<and> peersMutex (fst (removePeer env i q s))"
proof -
  have "snd (with_peers_lock (act_then (act_update u) refreshMetrics) t) = Blocked \<and>
      peersMutex (fst (with_peers_lock (act_then (act_update u) refreshMetrics) t))"
    if "\<not> peersMutex t" "\<And>x. peersMutex (u x) = peersMutex x" for t u
    using that by (simp add: with_peers_lock_def refreshMetrics_blocked)
  with assms show ?thesis
    by (simp add: removePeer_def quarantine_def upd_peerManager_def upd_connections_def)
qed


section \<open>Connection slots\<close>

lemma close_first_eval:
  "close_first ep is s = (case find (\<lambda>i. getEndpoint (the_peer i s) = ep) is of
     None \<Rightarrow> (s, Returned ()) | Some i \<Rightarrow> update_peer i close_peer s)"
  by (induction "is") simp_all

lemma update_peer_eval: "update_peer i u s = (s\<lparr>peer_object := (peer_object s)(i := u (peer_object s i))\<rparr>, Returned ())"
  by (simp add: update_peer_def)

lemma drop_lowest_eval:
  assumes "\<not> peersMutex s"
  shows "drop_lowest s =
    (let c = selectLowestScorePeerToDrop (map (\<lambda>ep. (ep, getScore ep (peerScorer s))) (connected_endpoints s))
     in if c = [] then (s, Returned ())
        else case find (\<lambda>i. getEndpoint (the_peer i s) = c) (peer_list s) of
               None \<Rightarrow> (s, Returned ()) | Some i \<Rightarrow> update_peer i close_peer s)"
  using assms
  by (auto simp: drop_lowest_def connectedPeerScores_def act_bind_eval[OF getPeerList_eval] Let_def with_peers_lock_def
      close_first_eval update_peer_eval split: option.splits)

lemma make_room_full:
  assumes "\<not> canAccept d (connectionManager s)" "\<not> peersMutex s"
  shows "make_room d s = (fst (drop_lowest s), Returned False)"
  using assms
  by (auto simp: make_room_def act_then_def act_bind_def drop_lowest_eval Let_def update_peer_eval split: option.splits)

lemma accept_full:
  assumes "\<not> canAccept INBOUND (connectionManager s)" "\<not> peersMutex s"
  shows "accept_done env False remote s =
    (let t = fst (drop_lowest s)
     in (t\<lparr>networkMetrics := incrementRejectedPeers (networkMetrics t), started := started t @ [Accept]\<rparr>, Returned ()))"
  by (simp add: accept_done_def act_bind_eval[where m = "make_room INBOUND" and s = s, OF make_room_full[OF assms]] reject_connection_def doAccept_def begin_op_def Let_def)

lemma getEndpoint_open:
  assumes "isConnected p" "remote_endpoint p = Some (a, rp)"
  shows "getEndpoint p \<noteq> []" "CHR '':'' \<in> set (getEndpoint p)"
  using assms by (simp_all add: getEndpoint_def isConnected_def Let_def)

lemma getEndpoint_closed: "\<not> isConnected p \<Longrightarrow> getEndpoint p = ''unknown''"
  by (simp add: getEndpoint_def isConnected_def split: option.splits)

text \<open>One of the peers with the lowest score is closed, and nothing else changes.\<close>

lemma drop_lowest_closes:
  assumes "\<not> peersMutex s" "connected_endpoints s \<noteq> []"
    and "\<And>i. i \<in> set (peer_list s) \<Longrightarrow> isConnected (the_peer i s) \<Longrightarrow> remote_endpoint (the_peer i s) \<noteq> None"
  obtains i where "i \<in> set (peer_list s)" "isConnected (the_peer i s)"
    "\<And>ep. ep \<in> set (connected_endpoints s) \<Longrightarrow>
       getScore (getEndpoint (the_peer i s)) (peerScorer s) \<le> getScore ep (peerScorer s)"
    "drop_lowest s = update_peer i close_peer s"
proof -
  let ?scores = "map (\<lambda>ep. (ep, getScore ep (peerScorer s))) (connected_endpoints s)"
  let ?c = "selectLowestScorePeerToDrop ?scores"
  obtain v where v: "(?c, v) \<in> set ?scores" "\<forall>x \<in> set ?scores. v \<le> snd x"
    using selectLowestScorePeerToDrop_minimal[of ?scores] assms(2) by auto
  then obtain j where j: "j \<in> set (peer_list s)" "isConnected (the_peer j s)" "?c = getEndpoint (the_peer j s)"
    by (auto simp: connected_endpoints_def)
  obtain a rp where "remote_endpoint (the_peer j s) = Some (a, rp)" using assms(3)[OF j(1,2)] by auto
  then have c: "?c \<noteq> []" "CHR '':'' \<in> set ?c" using getEndpoint_open[OF j(2)] j(3) by simp_all
  have "find (\<lambda>i. getEndpoint (the_peer i s) = ?c) (peer_list s) \<noteq> None"
    using j(1,3) by (auto simp: find_None_iff)
  then obtain i where f: "find (\<lambda>i. getEndpoint (the_peer i s) = ?c) (peer_list s) = Some i" by auto
  then have i: "i \<in> set (peer_list s)" "getEndpoint (the_peer i s) = ?c"
    by (auto simp: find_Some_iff in_set_conv_nth)
  have "isConnected (the_peer i s)"
  proof (rule ccontr)
    assume "\<not> isConnected (the_peer i s)"
    then have "?c = ''unknown''" using getEndpoint_closed i(2) by metis
    with c(2) show False by simp
  qed
  moreover have "drop_lowest s = update_peer i close_peer s"
    using c(1) f by (simp add: drop_lowest_eval[OF assms(1)] Let_def)
  moreover have "getScore (getEndpoint (the_peer i s)) (peerScorer s) \<le> getScore ep (peerScorer s)"
    if "ep \<in> set (connected_endpoints s)" for ep
    using v that i(2) by auto
  ultimately show ?thesis using that i(1) by blast
qed


section \<open>Identifiers that were seen\<close>

lemma seen_insert_mem:
  assumes "length xs < bound"
  shows "x \<in> set (seen_insert bound x xs)"
proof -
  have "length (insort_insert x xs) \<le> bound"
    using assms by (simp add: insort_insert_key_def length_insort)
  then show ?thesis by (simp add: seen_insert_def set_insort_insert Let_def)
qed

lemma mark_block_seen_eval:
  "mark_block_seen h s =
    (if h \<in> set (seenBlockHashes s) then (s, Returned True)
     else (s\<lparr>seenBlockHashes := seen_insert 1000 h (seenBlockHashes s)\<rparr>, Returned False))"
  by (simp add: mark_block_seen_def)

lemma on_block_seen:
  assumes "block_fromJson (ne_ossl env) (msg_payload m) = Inr b" "hash b \<in> set (seenBlockHashes s)"
  shows "on_block env i k m s = (s, Returned ())"
  using assms by (simp add: on_block_def act_catch_def mark_block_seen_def)

lemma on_block_stale:
  assumes "block_fromJson (ne_ossl env) (msg_payload m) = Inr b" "hash b \<notin> set (seenBlockHashes s)"
    and "bk_index b < of_nat (length (chain (blockchain s)))"
  shows "on_block env i k m s = (s\<lparr>seenBlockHashes := seen_insert 1000 (hash b) (seenBlockHashes s)\<rparr>, Returned ())"
proof -
  have m: "mark_block_seen (hash b) s =
      (s\<lparr>seenBlockHashes := seen_insert 1000 (hash b) (seenBlockHashes s)\<rparr>, Returned False)"
    using assms(2) by (simp add: mark_block_seen_eval)
  have "bk_index b \<noteq> of_nat (length (chain (blockchain s)))" "\<not> of_nat (length (chain (blockchain s))) \<le> bk_index b"
    using assms(3) by auto
  then show ?thesis
    using assms(1)
    by (simp add: on_block_def act_catch_def
        act_bind_eval[where m = "mark_block_seen (hash b)" and s = s, OF m])
qed


section \<open>Properties\<close>

text \<open>
  C38. A banned peer can hang the node: a message from a connection whose endpoint is banned
  makes \<^verbatim>\<open>removePeer\<close> lock \<^verbatim>\<open>peersMutex_\<close> a second time, so the handler never returns, and the
  mutex stays locked, so that from then on no broadcast and no peer list returns either.
\<close>

theorem banned_peer_blocks_node:
  assumes "\<not> peersMutex s" "isBanned (getEndpoint (the_peer i s)) (peerScorer s)"
  shows "let (s', r) = handleMessage env i msg s
    in r = Blocked \<and> snd (broadcast env' msg' ex s') = Blocked \<and> snd (getPeerList s') = Blocked"
proof -
  have "handleMessage env i msg s = removePeer env i True s"
    using assms(2) by (simp add: handleMessage_def)
  then show ?thesis
    using removePeer_blocks[OF assms(1), of env i True]
    by (auto simp: broadcast_def getPeerList_blocked Let_def split: prod.splits)
qed

text \<open>
  A node announcement or registration whose payload is not a JSON object makes the handler
  throw: the exception of the JSON library is caught nowhere and leaves the event loop.
\<close>

theorem malformed_announce_escapes:
  assumes "\<not> isBanned (getEndpoint (the_peer i s)) (peerScorer s)"
    and "\<not> snd (isRateLimited (steady env) 100 (the_peer i s))"
    and "msg_type msg = NODE_ANNOUNCE \<or> msg_type msg = REGISTER_NODE" "\<not> is_object (msg_payload msg)"
    and "dump (ne_jt env) (-1) (msg_payload msg) = Inr text" "messageDedup s = []"
  shows "snd (handleMessage env i msg s) = Thrown (JsonException 306)"
proof -
  have j: "jvalue g k d (msg_payload msg) = Inl (JsonException 306)" for g :: "json \<Rightarrow> 'a result" and k d
    using assms(4) by (simp add: jvalue_def is_object_def split: json.splits)
  obtain p where p: "isRateLimited (steady env) 100 (the_peer i s) = (p, False)"
    using assms(2) by (cases "isRateLimited (steady env) 100 (the_peer i s)") auto
  show ?thesis
    using assms(1,3,5,6)
    by (auto simp: handleMessage_def p update_peer_def remember_message_def sm_get_def Let_def upd_scorer_def
        dispatch_def on_announce_def on_register_def j)
qed

text \<open>
  When all inbound slots are taken, a new connection costs the node an established one and
  is refused all the same: dropping the peer with the lowest score closes its socket but does
  not free its slot, so the new connection is counted as rejected, the list of peers and the
  slots stay as they are, and one peer with the lowest score has been closed.
\<close>

theorem full_node_drops_and_rejects:
  assumes "\<not> peersMutex s" "maxInboundPeers (connectionManager s) \<le> inboundCount (connectionManager s)"
    and "connected_endpoints s \<noteq> []"
    and "\<forall>i \<in> set (peer_list s). isConnected (the_peer i s) \<longrightarrow> remote_endpoint (the_peer i s) \<noteq> None"
  shows "\<exists>s'. accept_done env False remote s = (s', Returned ()) \<and>
    peer_list s' = peer_list s \<and> connectionManager s' = connectionManager s \<and>
    rejectedPeers (networkMetrics s') = rejectedPeers (networkMetrics s) + 1 \<and>
    (\<exists>i \<in> set (peer_list s). isConnected (the_peer i s) \<and> \<not> isConnected (the_peer i s') \<and>
       (\<forall>ep \<in> set (connected_endpoints s).
          getScore (getEndpoint (the_peer i s)) (peerScorer s) \<le> getScore ep (peerScorer s)))"
proof -
  have "\<not> canAccept INBOUND (connectionManager s)" using assms(2) by (simp add: canAccept_iff)
  note a = accept_full[OF this assms(1), of env remote]
  obtain i where i: "i \<in> set (peer_list s)" "isConnected (the_peer i s)"
    "\<And>ep. ep \<in> set (connected_endpoints s) \<Longrightarrow>
       getScore (getEndpoint (the_peer i s)) (peerScorer s) \<le> getScore ep (peerScorer s)"
    "drop_lowest s = update_peer i close_peer s"
    using drop_lowest_closes[OF assms(1,3)] assms(4) by blast
  obtain s' where s': "accept_done env False remote s = (s', Returned ())"
    "s' = s\<lparr>peer_object := (peer_object s)(i := close_peer (peer_object s i)),
      networkMetrics := incrementRejectedPeers (networkMetrics s), started := started s @ [Accept]\<rparr>"
    by (simp add: a Let_def i(4) update_peer_eval)
  have "\<not> isConnected (the_peer i s')" by (simp add: s'(2) the_peer_def close_peer_def isConnected_def)
  then show ?thesis
    using i(1-3) s'(1) by (intro exI[of _ s'] conjI bexI[of _ i]) (simp_all add: s'(2) incrementRejectedPeers_def)
qed



section \<open>Examples\<close>

text \<open>A node with one peer, at the address h and port 5.\<close>

definition demo_node :: "scorer \<Rightarrow> nat \<Rightarrow> Node" where
  "demo_node scores inbound =
     \<lparr>blockchain = (empty_blockchain 1 None None)\<lparr>chain := [default_block]\<rparr>, disk = Map.empty,
      self_port = 7000, options = default_options, peersMutex = False, peer_list = [0],
      peer_object = (\<lambda>_. new_peer (Some (''h'', 5))), next_object = 1, seenTxIDs = [], seenBlockHashes = [],
      messageDedup = [], peerScorer = scores, nodeIdentity = new_node_identity ''d'',
      peerManager = new_peer_manager, bootstrapManager = new_bootstrap_manager,
      connectionManager = registerConnection (''h:'' @ to_string (5 :: u16)) INBOUND (new_connection_manager 8 inbound),
      networkMetrics = new_network_metrics 0, started = []\<rparr>"

lemma demo_node_peer: "getEndpoint (the_peer i (demo_node sc n)) = ''h:'' @ to_string (5 :: u16)"
  "isConnected (the_peer i (demo_node sc n))" "remote_endpoint (the_peer i (demo_node sc n)) = Some (''h'', 5)"
  "snd (isRateLimited 0 100 (the_peer i (demo_node sc n))) = False"
  by (simp_all add: demo_node_def the_peer_def new_peer_def getEndpoint_def isConnected_def isRateLimited_def Let_def)

lemma demo_node_fields: "peer_list (demo_node sc n) = [0]" "\<not> peersMutex (demo_node sc n)"
  "length (chain (blockchain (demo_node sc n))) = 1" "seenBlockHashes (demo_node sc n) = []"
  "inboundCount (connectionManager (demo_node sc n)) = 1" "maxInboundPeers (connectionManager (demo_node sc n)) = n"
  by (simp_all add: demo_node_def registerConnection_def new_connection_manager_def inboundCount_def)

theorem banned_peer_blocks_node_witness:
  "\<exists>s. isBanned (getEndpoint (the_peer 0 s)) (peerScorer s) \<and>
     snd (handleMessage demo_node_env 0 demo_ping s) = Blocked"
proof -
  let ?s = "demo_node [(''h:'' @ to_string (5 :: u16), (new_peer_info 0 ''h'' 5)\<lparr>banned := True\<rparr>)] 1"
  have b: "isBanned (getEndpoint (the_peer 0 ?s)) (peerScorer ?s)" "\<not> peersMutex ?s"
    unfolding demo_node_peer by (simp_all add: demo_node_def isBanned_def sm_get_def)
  from banned_peer_blocks_node[OF b(2,1), of demo_node_env demo_ping] b(1) show ?thesis
    by (auto simp: split_beta Let_def)
qed

theorem malformed_announce_escapes_witness:
  "snd (handleMessage demo_node_env 0 \<lparr>msg_type = NODE_ANNOUNCE, msg_payload = JArr []\<rparr> (demo_node [] 1)) =
     Thrown (JsonException 306)"
proof -
  obtain t where "dump demo_json (-1) (JArr []) = Inr t" by (simp add: demo_json_def)
  with malformed_announce_escapes[of 0 "demo_node [] 1" demo_node_env "\<lparr>msg_type = NODE_ANNOUNCE, msg_payload = JArr []\<rparr>" t]
  show ?thesis
    unfolding demo_node_peer by (simp add: demo_node_peer demo_node_env_def is_object_def isBanned_def sm_get_def) (simp add: demo_node_def)
qed

theorem full_node_drops_and_rejects_witness:
  "\<exists>s s'. isConnected (the_peer 0 s) \<and> accept_done demo_node_env False (Some (''x'', 9)) s = (s', Returned ()) \<and>
     \<not> isConnected (the_peer 0 s') \<and> connectionManager s' = connectionManager s"
proof -
  let ?s = "demo_node [] 1"
  have i: "maxInboundPeers (connectionManager ?s) \<le> inboundCount (connectionManager ?s)"
    unfolding demo_node_fields by simp
  have c: "connected_endpoints ?s \<noteq> []" by (simp add: connected_endpoints_def demo_node_fields demo_node_peer)
  have r: "\<forall>i \<in> set (peer_list ?s). isConnected (the_peer i ?s) \<longrightarrow> remote_endpoint (the_peer i ?s) \<noteq> None"
    by (simp add: demo_node_peer)
  from full_node_drops_and_rejects[OF demo_node_fields(2) i c r, of demo_node_env "Some (''x'', 9)"] show ?thesis
    by - (rule exI[of _ ?s], auto simp: demo_node_peer demo_node_fields)
qed


end
