(* ===== verification/Http_Safety.thy ===== *)
theory Http_Safety
  imports Http_Server Node_Threats
begin

text \<open>
  What requests to the HTTP interface can and cannot change: effects on the chain, accepted
  submissions, mining requests, read-only requests, and requests that end the server.
\<close>

section \<open>Requests and the chain\<close>

definition http_view :: "HttpServer \<Rightarrow> Blockchain \<times> fsys" where
  "http_view s = chain_view (hs_node s)"

lemma keeps_on_node:
  assumes "keeps R m"
  shows "keeps_by http_view R (on_node m)"
  unfolding keeps_def
proof
  fix s :: HttpServer
  have "R (chain_view (hs_node s)) (chain_view (fst (m (hs_node s))))"
    using assms unfolding keeps_def by (rule spec)
  then show "R (http_view s) (http_view (fst (on_node m s)))"
    by (cases "m (hs_node s)") (simp add: on_node_def http_view_def)
qed

lemma quiet_http_update [keeps_intros]:
  "(\<And>s. hs_node (u s) = hs_node s) \<Longrightarrow> keeps_by http_view (=) (act_update u)"
  by (simp add: keeps_def act_update_def http_view_def)

lemma quiet_responses [keeps_intros]:
  "keeps_by v (=) (respond he j)" "keeps_by v (=) (fail_with he c t ec msg)" "keeps_by v (=) (internal_error he e)"
  "keeps_by v (=) (send_failure he e)"
  unfolding respond_def fail_with_def internal_error_def send_failure_def
  by (auto split: exn.splits)

lemma quiet_learn [keeps_intros]: "keeps_by http_view (=) (learn_address a)"
  unfolding learn_address_def by (intro keeps_intros) simp

lemma quiet_answer [keeps_intros]: "keeps_by v (=) (answer_from he f)"
  unfolding answer_from_def by (intro keeps_intros)

lemma quiet_on_peers [keeps_intros]: "keeps_by http_view (=) (on_node getPeerList)"
  by (intro keeps_on_node quiet_getPeerList)

lemma quiet_wallet_handlers:
  "keeps_by http_view (=) (handleCreateWallet he)" "keeps_by http_view (=) (handleImportWallet he t)"
  "keeps_by http_view (=) (handleWalletLogin he t)" "keeps_by http_view (=) (handleLoginChallenge he t)"
  "keeps_by http_view (=) (handleVerifyLogin he t)"
  unfolding handleCreateWallet_def handleImportWallet_def handleWalletLogin_def handleLoginChallenge_def
    handleVerifyLogin_def
  by (intro keeps_intros; simp)+

lemma quiet_readers:
  "keeps_by http_view (=) (handleTrade he t)" "keeps_by http_view (=) (handleGetChain he)"
  "keeps_by http_view (=) (handleGetTransactions he)" "keeps_by http_view (=) (handleGetMempool he)"
  "keeps_by http_view (=) (handleGetWalletBalance he a)" "keeps_by http_view (=) (handleGetWalletTransactions he a)"
  "keeps_by http_view (=) (handleGetPeers he)" "keeps_by http_view (=) (handleGetPeerScores he)"
  "keeps_by http_view (=) (handleNetworkStats he)" "keeps_by http_view (=) (handleHealth he)"
  unfolding handleTrade_def handleGetChain_def handleGetTransactions_def handleGetMempool_def
    handleGetWalletBalance_def handleGetWalletTransactions_def handleGetPeers_def handleGetPeerScores_def
    handleNetworkStats_def handleHealth_def
  by (intro keeps_intros; simp)+

lemma grows_send:
  assumes "env_of jt ossl (he_node he)"
  shows "keeps_by http_view (chain_reachable jt ossl) (handleSendTransaction he t)"
proof -
  have q: "keeps_by http_view (chain_reachable jt ossl) m" if "keeps_by http_view (=) m" for m :: "'x http"
    using that by (rule growing.keeps_quiet)
  have s: "keeps_by http_view (chain_reachable jt ossl) (submit_tx he tx)" for tx
    unfolding submit_tx_def
    by (intro growing.keeps_rules quiet_if keeps_on_node grows_addTransaction[OF assms] q quiet_responses)
  show ?thesis
    unfolding handleSendTransaction_def case_prod_beta Let_def
    by (intro growing.keeps_rules quiet_if quiet_case_option s q quiet_responses)
qed

lemma quiet_mine_answer: "keeps_by http_view (=) (mine_answer he a n b)"
  unfolding mine_answer_def by (intro keeps_intros) simp

lemma act_lift_state [simp]: "fst (act_lift r s) = s"
  by (cases r) (simp_all add: act_lift_def act_throw_def act_return_def)

lemma fail_with_state [simp]: "fst (fail_with he code t ec msg s) = s"
  by (simp add: fail_with_def)

lemma fst_catch: "(\<And>e s1. fst (h e s1) = s1) \<Longrightarrow> fst (act_catch m h s) = fst (m s)"
  by (cases "m s"; cases "snd (m s)") (auto simp: act_catch_def)

text \<open>A mining request changes the state only through \<^const>\<open>mine_for\<close>.\<close>

lemma handleMine_state:
  "fst (handleMine he text p s) = s \<or>
   (\<exists>a. miner_field (jt_of he) text p = Inr a \<and> fst (handleMine he text p s) = fst (mine_for he a s))"
proof -
  have "fst (handleMine he text p s) = fst (act_bind (act_lift (miner_field (jt_of he) text p)) (\<lambda>a.
        if a \<noteq> ''GENESIS'' \<and> \<not> isValidWalletAddress a
        then bad_request he ''INVALID_ADDRESS'' ''Miner address format is invalid'' else mine_for he a) s)"
    unfolding handleMine_def by (rule fst_catch) (rule fail_with_state)
  then show ?thesis
    by (cases "miner_field (jt_of he) text p") (auto simp: act_bind_def act_lift_def act_throw_def act_return_def)
qed

lemma grows_mine_for:
  assumes "env_of jt ossl (he_node he)" "length (chain (hs_chain s)) < 2 ^ 64"
  shows "chain_reachable jt ossl (http_view s) (http_view (fst (mine_for he a s)))"
proof -
  obtain n r where m: "call_mine (he_node he) (clock2 he) a (hs_node s) = (n, r)" by fastforce
  have "chain_reachable jt ossl (http_view s) (chain_view n)"
    using grows_mine[OF assms(1), of "hs_node s" "clock2 he" a] assms(2) m by (simp add: http_view_def hs_chain_def)
  moreover have "http_view (fst (mine_answer he a k b (s\<lparr>hs_node := n\<rparr>))) = chain_view n" for k b
  proof -
    have "http_view (s\<lparr>hs_node := n\<rparr>) = http_view (fst (mine_answer he a k b (s\<lparr>hs_node := n\<rparr>)))"
      using quiet_mine_answer[of he a k b] unfolding keeps_def by (rule spec)
    then show ?thesis by (simp add: http_view_def)
  qed
  ultimately show ?thesis
    by (cases r) (simp_all add: mine_for_def act_bind_def on_node_def m http_view_def chain_reachable.refl split: option.split)
qed

lemma grows_handleMine:
  assumes "env_of jt ossl (he_node he)" "length (chain (hs_chain s)) < 2 ^ 64"
  shows "chain_reachable jt ossl (http_view s) (http_view (fst (handleMine he t p s)))"
  using handleMine_state[of he t p s] grows_mine_for[OF assms] by (auto intro: chain_reachable.refl)

lemma grows_handleRequest:
  assumes "env_of jt ossl (he_node he)" "length (chain (hs_chain s)) < 2 ^ 64"
  shows "chain_reachable jt ossl (http_view s) (http_view (fst (handleRequest he req s)))"
proof -
  define P where "P m \<longleftrightarrow> chain_reachable jt ossl (http_view s) (http_view (fst (m s)))" for m :: "HttpResponse http"
  have P_if: "P m \<Longrightarrow> P n \<Longrightarrow> P (if b then m else n)" for m n b by simp
  have P_quiet: "P m" if "keeps_by http_view (=) m" for m
    using growing.keeps_quiet[OF that] unfolding keeps_def P_def by (rule spec)
  have P_send: "P (handleSendTransaction he x)" for x
    using grows_send[OF assms(1)] unfolding keeps_def P_def by (rule spec)
  have P_mine: "P (handleMine he x y)" for x y
    unfolding P_def by (rule grows_handleMine[OF assms])
  have "P (handleRequest he req)"
    unfolding handleRequest_def Let_def
    by (intro P_if P_send P_mine P_quiet quiet_wallet_handlers quiet_readers quiet.keeps_return)
  then show ?thesis by (simp add: P_def)
qed

lemma write_response_state: "fst (write_response m s) = fst (m s)"
  by (auto simp: write_response_def act_bind_def act_return_def split: prod.splits outcome.splits)

lemma grows_connection:
  assumes "env_of jt ossl (he_node he)" "length (chain (hs_chain s)) < 2 ^ 64"
  shows "chain_reachable jt ossl (http_view s) (http_view (fst (handleConnection he data next_bytes s)))"
  using grows_handleRequest[OF assms] chain_reachable.refl
  by (simp add: handleConnection_def Let_def write_response_state act_return_def split: option.split sum.split)


section \<open>Submissions and mining requests\<close>

lemma call_addTransaction_result:
  assumes "call_addTransaction env tx n = (n', Returned r)"
  shows "blockchain n' = fst (addTransaction (ne_ossl env) (wall env) tx (blockchain n)) \<and>
    r = fst (snd (addTransaction (ne_ossl env) (wall env) tx (blockchain n)))"
proof -
  obtain bc b ev where a: "addTransaction (ne_ossl env) (wall env) tx (blockchain n) = (bc, b, ev)"
    by (cases "addTransaction (ne_ossl env) (wall env) tx (blockchain n)")
  let ?n = "n\<lparr>blockchain := bc\<rparr>"
  have q: "chain_view ?n = chain_view (fst (run_callbacks env ev ?n))"
    using quiet_callbacks[of env ev] unfolding keeps_def by (rule spec)
  obtain n1 o1 where c: "run_callbacks env ev ?n = (n1, o1)" by fastforce
  have "n' = n1 \<and> r = b"
    using assms by (cases o1) (auto simp: call_addTransaction_def a act_then_def act_bind_def c act_return_def)
  with q c a show ?thesis by (simp add: chain_view_def)
qed

lemma fail_with_status: "fail_with he code t ec msg s = (s', Returned resp) \<Longrightarrow> s' = s \<and> statusCode resp = code"
  by (auto simp: fail_with_def act_lift_def errorResponse_def act_throw_def act_return_def split: sum.splits)

lemma send_failure_status: "send_failure he e s = (s', Returned resp) \<Longrightarrow> statusCode resp = 400 \<or> statusCode resp = 500"
  by (auto simp: send_failure_def split: exn.splits dest: fail_with_status)

lemma submit_tx_ok:
  assumes "submit_tx he tx s = (s', Returned resp)" "statusCode resp = 200"
  shows "hs_chain s' = fst (addTransaction (ossl_of he) (wall (he_node he)) tx (hs_chain s)) \<and>
    admissible (ossl_of he) (wall (he_node he)) tx (hs_chain s)"
proof -
  obtain n r where c: "call_addTransaction (he_node he) tx (hs_node s) = (n, r)" by fastforce
  obtain b where b: "r = Returned b"
    using assms(1) c by (cases r) (auto simp: submit_tx_def act_bind_def on_node_def)
  note a = call_addTransaction_result[OF c[unfolded b]]
  have "b"
  proof (rule ccontr)
    assume "\<not> b"
    then have "statusCode resp = 400"
      using assms(1) c b by (auto simp: submit_tx_def act_bind_def on_node_def dest: fail_with_status)
    with assms(2) show False by simp
  qed
  moreover have "s' = s\<lparr>hs_node := n\<rparr>"
  proof -
    have k: "keeps_by (\<lambda>x. x) (=) (act_bind (act_get (\<lambda>s. accepted_json tx (hs_chain s))) (\<lambda>r. act_bind (act_lift r) (respond he)))"
      by (intro keeps_intros)
    have "s\<lparr>hs_node := n\<rparr> = fst (act_bind (act_get (\<lambda>s. accepted_json tx (hs_chain s)))
        (\<lambda>r. act_bind (act_lift r) (respond he)) (s\<lparr>hs_node := n\<rparr>))"
      using k unfolding keeps_def by (rule spec)
    then show ?thesis using assms(1) c b \<open>b\<close> by (simp add: submit_tx_def act_bind_def on_node_def)
  qed
  ultimately show ?thesis using a by (auto simp: hs_chain_def addTransaction_eq split: if_splits)
qed


lemma jput_jobj [simp]: "jput k v (jobj kvs) = Inr (jobj (kvs @ [(k, v)]))"
  by (simp add: jput_def jobj_def)

lemma accepted_json_total: "\<exists>j. accepted_json tx bc = Inr j"
  by (simp add: accepted_json_def withTxAliases_def tx_toJson_def split: prod.split)

lemma catch_returned:
  assumes "act_catch m h s = (s', Returned x)" "\<And>e s1. h e s1 = (s', Returned x) \<Longrightarrow> \<not> P x" "P x"
  shows "m s = (s', Returned x)"
  using assms by (cases "m s"; cases "snd (m s)") (auto simp: act_catch_def)

definition built_tx :: "http_env \<Rightarrow> Transaction \<Rightarrow> string \<Rightarrow> Transaction" where
  "built_tx he tx0 signature =
     (computeTxID (ossl_of he) (tx0\<lparr>tx_timestamp :=
        (if tx_timestamp tx0 = [] then currentTimestamp (clock1 he) else tx_timestamp tx0)\<rparr>))
      \<lparr>digitalSignature := signature\<rparr>"

lemma built_tx_fields [simp]:
  "fromAddress (built_tx he tx0 sg) = fromAddress tx0" "toAddress (built_tx he tx0 sg) = toAddress tx0"
  "amount (built_tx he tx0 sg) = amount tx0" "payload (built_tx he tx0 sg) = payload tx0"
  "senderPublicKey (built_tx he tx0 sg) = senderPublicKey tx0" "tx_nonce (built_tx he tx0 sg) = tx_nonce tx0"
  "digitalSignature (built_tx he tx0 sg) = sg"
  by (simp_all add: built_tx_def computeTxID_def)

lemma sent_ok:
  assumes "handleSendTransaction he text s = (s', Returned resp)" "statusCode resp = 200"
  obtains tx0 i sg where "ebind (parse (jt_of he) text) send_request = Inr (tx0, i, sg)"
    "send_refusal (ossl_of he) tx0 sg s = None" "i = [] \<or> i = txID (built_tx he tx0 sg)"
    "submit_tx he (built_tx he tx0 sg) s = (s', Returned resp)"
proof -
  let ?q = "ebind (parse (jt_of he) text) send_request"
  have b: "act_bind (act_lift ?q) (\<lambda>(tx0, i, signature).
        act_bind (act_get (send_refusal (ossl_of he) tx0 signature)) (\<lambda>refusal.
        case refusal of
          Some (code, st, ec, msg) \<Rightarrow> fail_with he code st ec msg
        | None \<Rightarrow>
            let tx = computeTxID (ossl_of he) (tx0\<lparr>tx_timestamp :=
                  (if tx_timestamp tx0 = [] then currentTimestamp (clock1 he) else tx_timestamp tx0)\<rparr>)
            in if i \<noteq> [] \<and> i \<noteq> txID tx then bad_request he ''INVALID_TRANSACTION'' ''txID mismatch''
               else submit_tx he (tx\<lparr>digitalSignature := signature\<rparr>))) s = (s', Returned resp)"
    using assms(1)[unfolded handleSendTransaction_def]
  proof (rule catch_returned[where P = "\<lambda>r. statusCode r = 200"])
    fix e s1 assume "send_failure he e s1 = (s', Returned resp)"
    then show "statusCode resp \<noteq> 200" using send_failure_status by fastforce
  qed (rule assms(2))
  then obtain tx0 i sg where q: "?q = Inr (tx0, i, sg)"
    by (cases ?q) (auto simp: act_bind_def act_lift_def act_throw_def)
  have n: "send_refusal (ossl_of he) tx0 sg s = None"
  proof (rule ccontr)
    assume "send_refusal (ossl_of he) tx0 sg s \<noteq> None"
    then obtain code st ec msg where r: "send_refusal (ossl_of he) tx0 sg s = Some (code, st, ec, msg)" by auto
    then have "code \<noteq> 200" by (auto simp: send_refusal_def split: if_splits)
    moreover have "fail_with he code st ec msg s = (s', Returned resp)" using b by (simp add: q r)
    ultimately show False using fail_with_status assms(2) by fastforce
  qed
  have "\<not> (i \<noteq> [] \<and> i \<noteq> txID (built_tx he tx0 sg))"
  proof
    assume "i \<noteq> [] \<and> i \<noteq> txID (built_tx he tx0 sg)"
    then have "bad_request he ''INVALID_TRANSACTION'' ''txID mismatch'' s = (s', Returned resp)"
      using b by (simp add: q n built_tx_def Let_def)
    then show False using fail_with_status assms(2) by fastforce
  qed
  then have i: "i = [] \<or> i = txID (built_tx he tx0 sg)" by blast
  have t: "submit_tx he (built_tx he tx0 sg) s = (s', Returned resp)"
    using i
  proof
    assume "i = []"
    with b show ?thesis by (simp add: q n built_tx_def Let_def)
  next
    assume "i = txID (built_tx he tx0 sg)"
    with b show ?thesis by (simp add: q n built_tx_def Let_def)
  qed
  show ?thesis using that[OF q n i t] .
qed

lemma sent_eq:
  assumes "ebind (parse (jt_of he) text) send_request = Inr (tx0, [], sg)" "send_refusal (ossl_of he) tx0 sg s = None"
  shows "handleSendTransaction he text s = act_catch (submit_tx he (built_tx he tx0 sg)) (send_failure he) s"
  unfolding handleSendTransaction_def assms(1)
  by (simp add: act_catch_def assms(2) built_tx_def Let_def)


section \<open>Reading requests\<close>

abbreviation pure_http :: "'a http \<Rightarrow> bool" where
  "pure_http m \<equiv> keeps_by (\<lambda>s. s) (=) m"

lemma pure_state: "pure_http m \<Longrightarrow> fst (m s) = s"
  by (simp add: keeps_def)

lemma pure_getPeerList: "pure_http (on_node getPeerList)"
  unfolding keeps_def
proof
  fix s :: HttpServer
  show "s = fst (on_node getPeerList s)"
    by (cases "peersMutex (hs_node s)") (simp_all add: on_node_def getPeerList_def with_peers_lock_def act_get_def)
qed

lemma pure_readers:
  "pure_http (handleGetChain he)" "pure_http (handleGetTransactions he)" "pure_http (handleGetMempool he)"
  "pure_http (handleGetWalletTransactions he a)" "pure_http (handleGetPeers he)" "pure_http (handleGetPeerScores he)"
  "pure_http (handleNetworkStats he)" "pure_http (handleHealth he)"
  unfolding handleGetChain_def handleGetTransactions_def handleGetMempool_def handleGetWalletTransactions_def
    handleGetPeers_def handleGetPeerScores_def handleNetworkStats_def handleHealth_def
  by (intro keeps_intros pure_getPeerList)+

lemma handleGetWalletBalance_state:
  "fst (handleGetWalletBalance he a s) =
     (if isValidWalletAddress a then s\<lparr>knownAddresses := List.insert a (knownAddresses s)\<rparr> else s)"
proof -
  let ?s = "s\<lparr>knownAddresses := List.insert a (knownAddresses s)\<rparr>"
  let ?rest = "act_bind (act_get (\<lambda>s. balance_json a (hs_chain s))) (respond he)"
  have "pure_http (act_catch ?rest (internal_error he))" by (intro keeps_intros)
  note r1 = pure_state[OF this, of ?s]
  have "pure_http (act_catch (bad_request he ec m) (internal_error he))" for ec m by (intro keeps_intros)
  note r2 = pure_state[OF this, of _ _ s]
  show ?thesis
  proof (cases "isValidWalletAddress a")
    case True
    then have "handleGetWalletBalance he a s = act_catch ?rest (internal_error he) ?s"
      by (simp add: handleGetWalletBalance_def act_catch_def act_then_def act_bind_def learn_address_def act_update_def)
    with True r1 show ?thesis by simp
  next
    case False
    with r2 show ?thesis by (simp add: handleGetWalletBalance_def)
  qed
qed


section \<open>Mining requests\<close>

lemma call_mine_result:
  assumes "call_mine env now2 a n = (n', Returned b)"
  shows "\<exists>d ev. minePendingTransactions (ne_jt env) (ne_ossl env) (ne_io env) (wall env) now2 a (blockchain n) (disk n) =
    Some (blockchain n', d, Inr b, ev)"
proof -
  obtain bc d r ev where m: "minePendingTransactions (ne_jt env) (ne_ossl env) (ne_io env) (wall env) now2 a
      (blockchain n) (disk n) = Some (bc, d, r, ev)"
    using assms by (auto simp: call_mine_def act_bind_def act_get_def split: option.splits)
  let ?n = "n\<lparr>blockchain := bc, disk := d\<rparr>"
  have q: "chain_view ?n = chain_view (fst (run_callbacks env ev ?n))"
    using quiet_callbacks[of env ev] unfolding keeps_def by (rule spec)
  obtain n1 o1 where c: "run_callbacks env ev ?n = (n1, o1)" by fastforce
  have "n' = n1 \<and> r = Inr b"
    using assms by (cases o1; cases r)
      (auto simp: call_mine_def act_bind_def act_get_def m act_then_def act_update_def c act_lift_def act_throw_def act_return_def)
  with q c m show ?thesis by (auto simp: chain_view_def)
qed

lemma mined_ok:
  assumes "handleMine he text p s = (s', Returned resp)" "statusCode resp = 200"
  obtains a n b where "miner_field (jt_of he) text p = Inr a" "call_mine (he_node he) (clock2 he) a (hs_node s) = (n, Returned b)"
    "lastMineAt s' a = Some (steady2 he)" "hs_node s' = n"
proof -
  have b: "act_bind (act_lift (miner_field (jt_of he) text p)) (\<lambda>a.
        if a \<noteq> ''GENESIS'' \<and> \<not> isValidWalletAddress a
        then bad_request he ''INVALID_ADDRESS'' ''Miner address format is invalid'' else mine_for he a) s = (s', Returned resp)"
    using assms(1)[unfolded handleMine_def]
  proof (rule catch_returned[where P = "\<lambda>r. statusCode r = 200"])
    fix e s1 assume "fail_with he 500 ''Internal Server Error'' ''MINE_FAILED'' (what he e) s1 = (s', Returned resp)"
    then show "statusCode resp \<noteq> 200" using fail_with_status by fastforce
  qed (rule assms(2))
  obtain a where a: "miner_field (jt_of he) text p = Inr a"
    using b by (cases "miner_field (jt_of he) text p") (auto simp: act_bind_def act_lift_def act_throw_def)
  have "\<not> (a \<noteq> ''GENESIS'' \<and> \<not> isValidWalletAddress a)"
  proof
    assume "a \<noteq> ''GENESIS'' \<and> \<not> isValidWalletAddress a"
    then have "bad_request he ''INVALID_ADDRESS'' ''Miner address format is invalid'' s = (s', Returned resp)"
      using b a by simp
    then show False using fail_with_status assms(2) by fastforce
  qed
  then have f: "mine_for he a s = (s', Returned resp)" using b a by (auto split: if_splits)
  have "mine_cooldown he a s = None"
  proof (rule ccontr)
    assume "mine_cooldown he a s \<noteq> None"
    then obtain r where "mine_cooldown he a s = Some r" by auto
    with f have "act_lift (cooldown_response (jt_of he) r) s = (s', Returned resp)" by (simp add: mine_for_def)
    then have "cooldown_response (jt_of he) r = Inr resp"
      by (cases "cooldown_response (jt_of he) r") (auto simp: act_lift_def act_throw_def act_return_def)
    with assms(2) show False by (auto simp: cooldown_response_def errorResponse_def)
  qed
  with f have c: "act_bind (on_node (call_mine (he_node he) (clock2 he) a))
      (mine_answer he a (length (mempool (hs_chain s)))) s = (s', Returned resp)"
    by (simp add: mine_for_def)
  obtain n r where m: "call_mine (he_node he) (clock2 he) a (hs_node s) = (n, r)" by fastforce
  then obtain blk where blk: "r = Returned blk" using c by (cases r) (auto simp: act_bind_def on_node_def)
  let ?s1 = "s\<lparr>hs_node := n, lastMineAt := (lastMineAt s)(a \<mapsto> steady2 he),
      knownAddresses := List.insert a (knownAddresses s)\<rparr>"
  let ?rest = "act_bind (act_get (\<lambda>s. wm_getBalance (hs_chain s) a)) (\<lambda>bal.
      respond he (mined_json blk a (length (mempool (hs_chain s))) bal))"
  have "pure_http ?rest" by (intro keeps_intros)
  then have "fst (?rest ?s1) = ?s1" by (rule pure_state)
  moreover have "?rest ?s1 = (s', Returned resp)"
    using c by (simp add: mine_answer_def act_bind_def on_node_def m blk act_then_def act_update_def learn_address_def)
  ultimately have "s' = ?s1" by simp
  with that[OF a m[unfolded blk]] show ?thesis by simp
qed

lemma cooling_down:
  assumes "miner_field (jt_of he) text p = Inr a" "lastMineAt s a = Some t"
    "t \<le> steady (he_node he)" "steady (he_node he) < t + 30 * 1000000000"
  shows "fst (handleMine he text p s) = s"
proof -
  have "(steady (he_node he) - t) div 1000000000 < 30"
    using assms(3,4) by linarith
  then have c: "\<exists>r. mine_cooldown he a s = Some r"
    using assms(2,3) by (simp add: mine_cooldown_def age_seconds_def kMiningCooldownSeconds_def Let_def)
  then have "fst (mine_for he a s) = s" by (auto simp: mine_for_def)
  with handleMine_state[of he "text" p s] assms(1) show ?thesis by auto
qed


section \<open>A concrete server\<close>

definition demo_http_env :: http_env where
  "demo_http_env = \<lparr>he_node = demo_node_env, what = (\<lambda>e. ''failed''), he_generated = Some (65, Some (65, 65)),
     random1 = 1, random2 = 2, clock1 = 0, clock2 = 0, steady2 = 0\<rparr>"

lemma demo_http_node [simp]: "he_node demo_http_env = demo_node_env"
  by (simp add: demo_http_env_def)

text \<open>A server whose chain has paid one address, and a transfer sent to it.\<close>

definition demo_server :: HttpServer where
  "demo_server = (new_http_server ((demo_node [] 8)\<lparr>blockchain := (empty_blockchain 1 None None)
     \<lparr>stateManager := apply_tx (mining_coinbase demo_openssl 0 demo_from) clear_state\<rparr>\<rparr>))\<lparr>knownAddresses := [demo_from]\<rparr>"

definition demo_send :: json where
  "demo_send = jobj [(''fromAddress'', JStr demo_from), (''toAddress'', JStr demo_from), (''senderPublicKey'', JStr ''22''),
     (''amount'', JUInt 5), (''nonce'', JUInt 1), (''payload'', JStr ''hi''),
     (''signature'', JStr (digitalSignature (demo_tx demo_from 5 1 ''hi'' (currentTimestamp 0))))]"

lemma demo_from_eq: "demo_from = ''PCN_'' @ replicate 40 CHR ''0''"
proof -
  have "take 40 (take 62 (sha256 demo_openssl m)) = replicate 40 CHR ''0''" for m
    by (simp add: demo_sha256_zero)
  then show ?thesis by (simp add: demo_from_def deriveAddressV2_def)
qed

lemma demo_server_state:
  "getBalance (stateManager (hs_chain demo_server)) demo_from = 50"
  "getLastNonce (stateManager (hs_chain demo_server)) demo_from = 0"
  "spentTxIDs (stateManager (hs_chain demo_server)) = {}" "mempool (hs_chain demo_server) = []"
  "knownAddresses demo_server = [demo_from]" "demo_from \<noteq> []"
proof -
  have st: "stateManager (hs_chain demo_server) = apply_tx (mining_coinbase demo_openssl 0 demo_from) clear_state"
    "mempool (hs_chain demo_server) = []" "knownAddresses demo_server = [demo_from]" "demo_from \<noteq> []"
    by (simp_all add: hs_chain_def demo_server_def new_http_server_def empty_blockchain_def demo_from_eq)
  then show "getBalance (stateManager (hs_chain demo_server)) demo_from = 50"
    "getLastNonce (stateManager (hs_chain demo_server)) demo_from = 0"
    "spentTxIDs (stateManager (hs_chain demo_server)) = {}" "mempool (hs_chain demo_server) = []"
    "knownAddresses demo_server = [demo_from]" "demo_from \<noteq> []"
    by (simp_all add: getLastNonce_apply_tx spent_apply_tx) (simp add: apply_tx_def getBalance_debit getBalance_credit)
qed

lemma demo_send_admissible:
  "admissible demo_openssl 0 (demo_tx demo_from 5 1 ''hi'' (currentTimestamp 0)) (hs_chain demo_server)"
proof -
  obtain g where g: "get_time (format_now 0) = Some g" "timegm g = 0"
    using format_now_parsed[of 0] by auto
  have "\<not> isExpired 0 300 (demo_tx demo_from 5 1 ''hi'' (currentTimestamp 0))"
    using g by (subst isExpired_in_range[of _ g]) (simp_all add: tdiv_def currentTimestamp_def)
  then show ?thesis
    by (simp add: admissible_def verify_demo_tx demo_server_state pending_incoming_def pending_outgoing_def highest_seen_nonce_def)
      (simp add: demo_from_def)
qed

lemma demo_send_parsed:
  obtains text0 where "parse demo_json text0 = Inr demo_send"
proof -
  have "of_char c < (128 :: nat)" if "is_xdigit c" for c
    using that by (auto simp: is_xdigit_def is_digit_iff less_eq_char_nat)
  then have "ascii (bytesToHex bs)" for bs
    by (auto simp: ascii_def bytesToHex_def dest!: hex_byte_xdigits)
  then have "ascii (digitalSignature (demo_tx demo_from 5 1 ''hi'' (currentTimestamp 0)))"
    by (simp add: demo_tx_def demo_signed_def Let_def)
  moreover have "ascii demo_from" by (simp add: ascii_def demo_from_eq)
  ultimately have "json_plain demo_send"
    unfolding demo_send_def by (intro json_plain_jobj) (simp add: ascii_def)
  with demo_json_ok that show ?thesis unfolding json_text_ok_def by blast
qed

lemma demo_send_request:
  "\<exists>tx0. send_request demo_send = Inr (tx0, [], digitalSignature (demo_tx demo_from 5 1 ''hi'' (currentTimestamp 0))) \<and>
    tx_timestamp tx0 = [] \<and>
    built_tx (demo_http_env) tx0 (digitalSignature (demo_tx demo_from 5 1 ''hi'' (currentTimestamp 0))) =
      demo_tx demo_from 5 1 ''hi'' (currentTimestamp 0)"
proof -
  have "trim demo_from = demo_from" by (simp add: trim_def demo_from_eq is_space_def)
  then show ?thesis
    by (simp add: send_request_def demo_send_def)
      (simp add: built_tx_def computeTxID_def demo_tx_def demo_signed_def Let_def demo_http_env_def demo_node_env_def
        buildTxCore_def empty_tx_def)
qed


section \<open>Properties\<close>

text \<open>
  C10. What acceptance means: when \<^verbatim>\<open>POST /transaction/send\<close> answers with status 200, exactly one
  transaction, the one described by the body, was appended to the mempool and the chain did not
  change; its signature verifies under the stated public key, its sender address is derived
  from that key, its amount is positive and at most the sender's balance, the receiver is known,
  its nonce is the next one, it has not expired, and its identifier is new.
\<close>

theorem accepted_submission:
  assumes "handleSendTransaction he text s = (s', Returned resp)" "statusCode resp = 200"
  shows "\<exists>tx0 i sg tx. ebind (parse (jt_of he) text) send_request = Inr (tx0, i, sg) \<and>
    tx = (computeTxID (ossl_of he) (tx0\<lparr>tx_timestamp :=
        (if tx_timestamp tx0 = [] then currentTimestamp (clock1 he) else tx_timestamp tx0)\<rparr>))\<lparr>digitalSignature := sg\<rparr> \<and>
    mempool (hs_chain s') = mempool (hs_chain s) @ [tx] \<and> chain (hs_chain s') = chain (hs_chain s) \<and>
    stateManager (hs_chain s') = stateManager (hs_chain s) \<and>
    verify_tx (ossl_of he) tx \<and> \<not> isCoinbase tx \<and>
    fromAddress tx = deriveAddressV2 (ossl_of he) (senderPublicKey tx) \<and>
    0 < amount tx \<and> amount tx \<le> getBalance (stateManager (hs_chain s)) (fromAddress tx) \<and>
    isValidWalletAddress (toAddress tx) \<and> walletExists (toAddress tx) s \<and> length (payload tx) \<le> 2048 \<and>
    tx_nonce tx = highest_seen_nonce (fromAddress tx)
      (getLastNonce (stateManager (hs_chain s)) (fromAddress tx)) (mempool (hs_chain s)) + 1 \<and>
    \<not> isExpired (wall (he_node he)) 300 tx \<and> \<not> isDoubleSpend (stateManager (hs_chain s)) (txID tx) \<and>
    txID tx \<notin> txID ` set (mempool (hs_chain s))"
proof -
  obtain tx0 i sg where q: "ebind (parse (jt_of he) text) send_request = Inr (tx0, i, sg)"
    and n: "send_refusal (ossl_of he) tx0 sg s = None"
    and t: "submit_tx he (built_tx he tx0 sg) s = (s', Returned resp)"
    using assms by (rule sent_ok)
  let ?tx = "built_tx he tx0 sg"
  have a: "admissible (ossl_of he) (wall (he_node he)) ?tx (hs_chain s)"
    and c: "hs_chain s' = fst (addTransaction (ossl_of he) (wall (he_node he)) ?tx (hs_chain s))"
    using submit_tx_ok[OF t assms(2)] by blast+
  have r: "0 < amount ?tx" "amount ?tx \<le> getBalance (stateManager (hs_chain s)) (fromAddress ?tx)"
      "isValidWalletAddress (toAddress ?tx)" "walletExists (toAddress ?tx) s" "length (payload ?tx) \<le> 2048"
    using n by (auto simp: send_refusal_def getBalanceForAddress_def word_gt_0 split: if_splits)
  have s': "hs_chain s' = (hs_chain s)\<lparr>mempool := mempool (hs_chain s) @ [?tx],
      chainUpdateVersion := chainUpdateVersion (hs_chain s) + 1\<rparr>"
    using a by (simp add: c addTransaction_eq)
  show ?thesis
  proof (intro exI conjI)
    show "ebind (parse (jt_of he) text) send_request = Inr (tx0, i, sg)" by (rule q)
    show "?tx = (computeTxID (ossl_of he) (tx0\<lparr>tx_timestamp := (if tx_timestamp tx0 = []
        then currentTimestamp (clock1 he) else tx_timestamp tx0)\<rparr>))\<lparr>digitalSignature := sg\<rparr>"
      by (rule built_tx_def)
  qed (use a r in \<open>simp_all add: s' admissible_def isDoubleSpend_def\<close>)
qed

theorem accepted_submission_witness:
  "\<exists>text0 s' resp. handleSendTransaction (demo_http_env) text0 demo_server = (s', Returned resp) \<and>
     statusCode resp = 200 \<and> length (mempool (hs_chain s')) = 1"
proof -
  let ?he = "demo_http_env"
  let ?tx = "demo_tx demo_from 5 1 ''hi'' (currentTimestamp 0)"
  obtain text0 where p: "parse demo_json text0 = Inr demo_send" by (rule demo_send_parsed)
  obtain tx0 where t: "send_request demo_send = Inr (tx0, [], digitalSignature ?tx)"
      "built_tx ?he tx0 (digitalSignature ?tx) = ?tx"
    using demo_send_request by blast
  have f: "fromAddress tx0 = demo_from" "toAddress tx0 = demo_from" "amount tx0 = 5" "payload tx0 = ''hi''"
      "senderPublicKey tx0 = ''22''"
    using built_tx_fields(1-5)[of ?he tx0 "digitalSignature ?tx", unfolded t(2)] by simp_all
  have a: "admissible demo_openssl 0 ?tx (hs_chain demo_server)" by (rule demo_send_admissible)
  have sg: "digitalSignature ?tx \<noteq> []" using a by (auto simp: admissible_def verify_tx_def)
  have ad: "isValidWalletAddress demo_from" "addressFromPublicKey demo_openssl ''22'' = demo_from"
    by (simp add: isValidWalletAddress_def demo_from_eq starts_with_def is_xdigit_def is_digit_iff list_all_iff)
      (simp add: addressFromPublicKey_def demo_from_def deriveAddressV2_def)
  have n: "send_refusal demo_openssl tx0 (digitalSignature ?tx) demo_server = None"
    using sg ad by (simp add: send_refusal_def f walletExists_def getBalanceForAddress_def demo_server_state)
  obtain n1 where c: "call_addTransaction (he_node ?he) ?tx (hs_node demo_server) = (n1, Returned True)"
    using a by (simp add: call_addTransaction_def act_bind_def act_get_def act_then_def act_update_def act_return_def
        run_callbacks_def addTransaction_eq demo_http_env_def demo_node_env_def hs_chain_def demo_server_def new_http_server_def
        empty_blockchain_def)
  obtain aj where aj: "accepted_json ?tx (blockchain n1) = Inr aj"
    using accepted_json_total by blast
  obtain s' resp where "submit_tx ?he ?tx demo_server = (s', Returned resp)" "statusCode resp = 200"
    using c aj by (simp add: submit_tx_def on_node_def act_bind_def act_get_def hs_chain_def respond_def act_lift_def
        act_return_def demo_http_env_def demo_node_env_def demo_json_def default_response_def)
  moreover have "ne_jt demo_node_env = demo_json" "ne_ossl demo_node_env = demo_openssl" by (simp_all add: demo_node_env_def)
  then have "handleSendTransaction ?he text0 demo_server = act_catch (submit_tx ?he ?tx) (send_failure ?he) demo_server"
    using p t(1) n sent_eq[of ?he text0 tx0 "digitalSignature (demo_tx demo_from 5 1 ''hi'' (currentTimestamp 0))" demo_server]
    by (simp add: t(2))
  ultimately have r: "handleSendTransaction ?he text0 demo_server = (s', Returned resp)" "statusCode resp = 200"
    by (simp_all add: act_catch_def)
  have "length (mempool (hs_chain s')) = 1"
    using accepted_submission[OF r] by (auto simp: hs_chain_def demo_server_def new_http_server_def empty_blockchain_def)
  with r show ?thesis by blast
qed

text \<open>
  C31. Reading does not write: a GET request, for any path and in any state, leaves the node with
  its chain, mempool, peers and files, the mining times and the wallet sessions exactly as they
  were. The one thing it can change is the set of known addresses: the balance query adds the
  address it was asked about, if that is well formed, so that the address then passes as an
  existing receiver.
\<close>

theorem get_requests_read_only:
  assumes "rq_method req = ''GET''"
  shows "fst (handleRequest he req s) = s \<or>
    (\<exists>a. takeWhile (\<lambda>c. c \<noteq> CHR ''?'') (rq_path req) = ''/wallet/balance/'' @ a \<and> isValidWalletAddress a \<and>
       fst (handleRequest he req s) = s\<lparr>knownAddresses := List.insert a (knownAddresses s)\<rparr> \<and>
       walletExists a (fst (handleRequest he req s)))"
proof -
  let ?p = "takeWhile (\<lambda>c. c \<noteq> CHR ''?'') (rq_path req)"
  define P where "P m \<longleftrightarrow> fst (m s) = s \<or>
    (\<exists>a. ?p = ''/wallet/balance/'' @ a \<and> isValidWalletAddress a \<and>
       fst (m s) = s\<lparr>knownAddresses := List.insert a (knownAddresses s)\<rparr> \<and> walletExists a (fst (m s)))"
    for m :: "HttpResponse http"
  have P_if: "(b \<Longrightarrow> P m) \<Longrightarrow> P n \<Longrightarrow> P (if b then m else n)" for m n b by simp
  have P_pure: "P m" if "pure_http m" for m
    using pure_state[OF that] by (simp add: P_def)
  have P_balance: "P (handleGetWalletBalance he (after_prefix ''/wallet/balance/'' ?p))"
    if "starts_with ''/wallet/balance/'' ?p"
  proof -
    let ?a = "after_prefix ''/wallet/balance/'' ?p"
    have p: "?p = ''/wallet/balance/'' @ ?a"
      using that append_take_drop_id[of "length ''/wallet/balance/''" ?p]
      unfolding starts_with_def after_prefix_def by metis
    show ?thesis
    proof (cases "isValidWalletAddress ?a")
      case True
      then have q: "fst (handleGetWalletBalance he ?a s) = s\<lparr>knownAddresses := List.insert ?a (knownAddresses s)\<rparr>"
        by (simp add: handleGetWalletBalance_state)
      have "walletExists ?a (fst (handleGetWalletBalance he ?a s))"
        using True by (simp add: q walletExists_def)
      then show ?thesis unfolding P_def by (intro disjI2 exI conjI) (rule p True q | assumption)+
    next
      case False
      then show ?thesis by (simp add: P_def handleGetWalletBalance_state)
    qed
  qed
  have "P (handleRequest he req)"
    unfolding handleRequest_def Let_def
    by (intro P_if P_balance P_pure pure_readers quiet.keeps_return) (simp_all add: assms)
  then show ?thesis by (simp add: P_def)
qed

theorem get_requests_read_only_witness:
  "hs_node (fst (handleRequest demo_http_env
     \<lparr>rq_method = ''GET'', rq_path = ''/wallet/balance/me'', rq_headers = [], rq_body = []\<rparr> demo_server)) =
     hs_node demo_server"
  using get_requests_read_only[of "\<lparr>rq_method = ''GET'', rq_path = ''/wallet/balance/me'', rq_headers = [], rq_body = []\<rparr>"
      demo_http_env demo_server] by auto

text \<open>
  C30. Mining requests are rate limited: an answered mining request for an address extends the
  chain by exactly one block and takes at most its share of the mempool, and in every later
  state that remembers its time, a further request for that address within 30 seconds of its end
  changes nothing at all.
\<close>

theorem mining_is_rate_limited:
  assumes "handleMine he text p s = (s1, Returned resp)" "statusCode resp = 200"
  shows "\<exists>a b. miner_field (jt_of he) text p = Inr a \<and> chain (hs_chain s1) = chain (hs_chain s) @ [b] \<and>
    mempool (hs_chain s1) = drop MAX_TXS_PER_BLOCK (mempool (hs_chain s)) \<and>
    (\<forall>he2 text2 p2 s2. miner_field (jt_of he2) text2 p2 = Inr a \<longrightarrow> lastMineAt s2 a = lastMineAt s1 a \<longrightarrow>
       steady2 he \<le> steady (he_node he2) \<longrightarrow>
       steady (he_node he2) < steady2 he + 30 * 1000000000 \<longrightarrow>
       fst (handleMine he2 text2 p2 s2) = s2)"
proof -
  obtain a n b where a: "miner_field (jt_of he) text p = Inr a"
    "call_mine (he_node he) (clock2 he) a (hs_node s) = (n, Returned b)"
    "lastMineAt s1 a = Some (steady2 he)" "hs_node s1 = n"
    using assms by (rule mined_ok)
  from call_mine_result[OF a(2)] obtain d ev where
    m: "minePendingTransactions (jt_of he) (ossl_of he) (ne_io (he_node he)) (wall (he_node he)) (clock2 he) a
      (hs_chain s) (disk (hs_node s)) = Some (hs_chain s1, d, Inr b, ev)"
    unfolding hs_chain_def a(4) by blast
  have "fst (handleMine he2 text2 p2 s2) = s2"
    if "miner_field (jt_of he2) text2 p2 = Inr a" "lastMineAt s2 a = lastMineAt s1 a"
      "steady2 he \<le> steady (he_node he2)" "steady (he_node he2) < steady2 he + 30 * 1000000000"
    for he2 text2 p2 s2
    using cooling_down[OF that(1), of s2 "steady2 he"] that a(3) by simp
  with a(1) mine_result[OF m] show ?thesis by auto
qed

lemma demo_miner_field: "miner_field jt [] (''/mine?minerAddress='' @ demo_from) = Inr demo_from"
  by (simp add: miner_field_def queryParam_def demo_from_eq numeral_eq_Suc)

theorem mining_is_rate_limited_witness:
  "\<exists>s s1 resp. handleMine (demo_http_env) [] (''/mine?minerAddress='' @ demo_from) s = (s1, Returned resp) \<and>
     length (chain (hs_chain s1)) = 2 \<and>
     fst (handleMine (demo_http_env\<lparr>he_node := demo_node_env\<lparr>steady := 29999999999\<rparr>\<rparr>) [] (''/mine?minerAddress='' @ demo_from) s1) = s1"
proof -
  let ?he = "demo_http_env" and ?p = "''/mine?minerAddress='' @ demo_from"
  obtain g bc0 where n: "createGenesis demo_openssl 1 = Some g"
    "new_blockchain demo_json demo_openssl no_faults 0 1 None None Map.empty = Some (Inr (bc0, Map.empty))"
    "chain bc0 = [g]" "mempool bc0 = []" "consensusEngine bc0 = None" "storage bc0 = None"
    "stateManager bc0 = rebuildState [g]" "bc_difficulty bc0 = 1"
    by (rule demo_new_blockchain[of 0 None])
  let ?bc = "bc0\<lparr>onBlockAdded := False, onBlockAccepted := False\<rparr>"
  let ?s = "new_http_server ((demo_node [] 8)\<lparr>blockchain := ?bc\<rparr>)"
  obtain b bc1 where m: "minePendingTransactions demo_json demo_openssl no_faults 0 0 demo_from ?bc Map.empty =
      Some (bc1, Map.empty, Inr b, (if onBlockAdded ?bc then [BlockAdded b] else []) @
        (if onBlockAccepted ?bc then [BlockAccepted b] else []))"
    by (rule demo_mined[of g ?bc Map.empty]) (simp_all add: n)
  let ?n1 = "(demo_node [] 8)\<lparr>blockchain := bc1\<rparr>"
  have c: "call_mine (he_node ?he) (clock2 ?he) demo_from (hs_node ?s) = (?n1, Returned b)"
    using m[simplified] by (simp add: call_mine_def act_bind_def act_get_def act_then_def act_update_def act_lift_def act_return_def
        run_callbacks_def demo_http_env_def demo_node_env_def new_http_server_def demo_node_def)
  have "isValidWalletAddress demo_from"
    by (simp add: isValidWalletAddress_def demo_from_eq starts_with_def is_xdigit_def is_digit_iff list_all_iff)
  moreover have "\<exists>s1 resp. mine_for ?he demo_from ?s = (s1, Returned resp) \<and> statusCode resp = 200"
    using c by (simp add: mine_for_def mine_answer_def act_bind_def act_then_def on_node_def act_get_def act_update_def
        learn_address_def respond_def act_lift_def act_return_def demo_http_env_def demo_node_env_def demo_json_def
        default_response_def mine_cooldown_def new_http_server_def)
  ultimately obtain s1 resp where r: "handleMine ?he [] ?p ?s = (s1, Returned resp)" "statusCode resp = 200"
    unfolding handleMine_def demo_miner_field by (auto simp: act_catch_def)
  from mining_is_rate_limited[OF r] obtain a b' where a: "miner_field (jt_of ?he) [] ?p = Inr a"
    "chain (hs_chain s1) = chain (hs_chain ?s) @ [b']"
    "\<forall>he2 text2 p2 s2. miner_field (jt_of he2) text2 p2 = Inr a \<longrightarrow> lastMineAt s2 a = lastMineAt s1 a \<longrightarrow>
       steady2 ?he \<le> steady (he_node he2) \<longrightarrow>
       steady (he_node he2) < steady2 ?he + 30 * 1000000000 \<longrightarrow> fst (handleMine he2 text2 p2 s2) = s2"
    by blast
  have "length (chain (hs_chain s1)) = 2" using a(2) n(3) by (simp add: hs_chain_def new_http_server_def)
  moreover have "fst (handleMine (demo_http_env\<lparr>he_node := demo_node_env\<lparr>steady := 29999999999\<rparr>\<rparr>) [] ?p s1) = s1"
    using a(1) by (intro a(3)[rule_format]) (simp_all add: demo_miner_field demo_node_env_def demo_http_env_def)
  ultimately show ?thesis using r(1) by blast
qed

text \<open>
  \<open>refuses\<close>: serialising fails on every object that holds a string ending in \<open>m\<close>, as the JSON
  library documents for strings that are not valid UTF-8.
\<close>

definition refuses :: "json_text \<Rightarrow> string \<Rightarrow> bool" where
  "refuses jt m \<longleftrightarrow> (\<forall>i kvs k pre. ascii pre \<longrightarrow> (k, JStr (pre @ m)) \<in> set kvs \<longrightarrow> dump jt i (JObj kvs) = Inl (JsonException 316))"

lemma refused_error:
  assumes "refuses (jt_of he) m" "ascii pre"
  shows "fail_with he code t ec (pre @ m) s = (s, Thrown (JsonException 316))"
proof -
  have "jobj [(''error'', JStr (pre @ m)), (''errorCode'', JStr ec), (''message'', JStr (pre @ m))] =
      JObj [(''error'', JStr (pre @ m)), (''errorCode'', JStr ec), (''message'', JStr (pre @ m))]"
    by (simp add: jobj_def)
  moreover have "dump (jt_of he) (-1) (JObj [(''error'', JStr (pre @ m)), (''errorCode'', JStr ec), (''message'', JStr (pre @ m))]) =
      Inl (JsonException 316)"
    using assms unfolding refuses_def by (meson list.set_intros(1))
  ultimately show ?thesis by (auto simp: fail_with_def errorResponse_def act_lift_def act_throw_def)
qed

text \<open>
  If the body of a wallet or transaction request is not valid JSON and the text of the parser's
  exception cannot itself be serialised, the error answer throws out of the handler.
\<close>

lemma unprintable_error_escapes:
  assumes "rq_method req = ''POST''"
    and "rq_path req \<in> {''/wallet/import'', ''/wallet/login'', ''/wallet/loginChallenge'', ''/wallet/verifyLogin'',
      ''/transaction/send''}"
    and "parse (jt_of he) (rq_body req) = Inl (JsonException n)" "refuses (jt_of he) (what he (JsonException n))"
  shows "handleRequest he req s = (s, Thrown (JsonException 316))"
proof -
  note w = refused_error[OF assms(4), of "[]", simplified]
  have d: "ascii []" "ascii ''JSON parse error: ''" by (simp_all add: ascii_def)
  have "m s = (s, Thrown (JsonException 316))"
    if "m \<in> {handleImportWallet he (rq_body req), handleWalletLogin he (rq_body req),
      handleLoginChallenge he (rq_body req), handleVerifyLogin he (rq_body req), handleSendTransaction he (rq_body req)}" for m
    using that w d(1) refused_error[OF assms(4) d(2)]
    by (auto simp: handleImportWallet_def handleWalletLogin_def handleLoginChallenge_def handleVerifyLogin_def
        handleSendTransaction_def send_failure_def act_catch_def act_bind_def act_lift_def act_throw_def assms(3))
  moreover have "handleRequest he req \<in> {handleImportWallet he (rq_body req), handleWalletLogin he (rq_body req),
      handleLoginChallenge he (rq_body req), handleVerifyLogin he (rq_body req), handleSendTransaction he (rq_body req)}"
    using assms(1,2) by (auto simp: handleRequest_def)
  ultimately show ?thesis by blast
qed

end
