(* ===== verification/Program_Safety.thy ===== *)
theory Program_Safety
  imports Program Http_Safety
begin

text \<open>
  The whole program: its runs from the start, in which messages, timers and requests come in any
  order, and what a stop and a new start keep.
\<close>

section \<open>Runs of the program\<close>

inductive program_step :: "json_text \<Rightarrow> openssl \<Rightarrow> HttpServer \<Rightarrow> HttpServer \<Rightarrow> bool" for jt ossl where
  network: "node_step jt ossl (hs_node s) n \<Longrightarrow> program_step jt ossl s (s\<lparr>hs_node := n\<rparr>)"
| request: "env_of jt ossl (he_node he) \<Longrightarrow> length (chain (hs_chain s)) < 2 ^ 64 \<Longrightarrow>
    program_step jt ossl s (fst (handleConnection he data next_bytes s))"

inductive program_reachable :: "json_text \<Rightarrow> openssl \<Rightarrow> HttpServer \<Rightarrow> HttpServer \<Rightarrow> bool" for jt ossl where
  refl: "program_reachable jt ossl s s"
| step: "program_reachable jt ossl s t \<Longrightarrow> program_step jt ossl t u \<Longrightarrow> program_reachable jt ossl s u"

lemma program_reachable_grows:
  "program_reachable jt ossl s t \<Longrightarrow> chain_reachable jt ossl (http_view s) (http_view t)"
proof (induction rule: program_reachable.induct)
  case (step s t u)
  have "chain_reachable jt ossl (http_view t) (http_view u)"
    using step(2)
  proof cases
    case (network n)
    then show ?thesis using node_step_grows[OF network(2)] by (simp add: http_view_def)
  next
    case (request he data next_bytes)
    then show ?thesis using grows_connection by simp
  qed
  with step.IH show ?case using chain_reachable_trans by blast
qed (rule chain_reachable.refl)

lemma start_program_chain:
  assumes "start_program env jin gen c f = Some (Inr (Some s))"
  obtains bc f2 g where "new_blockchain (ne_jt env) (ne_ossl env) (ne_io env) (wall env) (cfg_difficulty c)
      (Some (PoWEngine (ne_ossl env) default_adjuster)) (Some (new_manager (cfg_dataDir c)))
      (recoverTempFiles (ne_io env) (new_manager (cfg_dataDir c)) f) = Some (Inr (bc, f2))"
    "http_view s = (setOnTransactionAdded True (setOnBlockAdded True bc), g)"
proof -
  obtain m f1 where m: "open_manager (ne_io env) (cfg_dataDir c) f = Inr (m, f1)"
    using assms by (auto simp: start_program_def split: sum.splits)
  then have mf: "m = new_manager (cfg_dataDir c)" "f1 = recoverTempFiles (ne_io env) (new_manager (cfg_dataDir c)) f"
    by (auto simp: open_manager_def Let_def)
  obtain bc f2 where b: "new_blockchain (ne_jt env) (ne_ossl env) (ne_io env) (wall env) (cfg_difficulty c)
      (Some (PoWEngine (ne_ossl env) default_adjuster)) (Some m) f1 = Some (Inr (bc, f2))"
    using assms m by (auto simp: start_program_def split: sum.splits option.splits)
  obtain n f3 where n: "new_node env jin gen (p2pPort c) (node_options c) bc f2 = (Inr n, f3)"
    using assms m b by (auto simp: start_program_def split: sum.splits prod.splits)
  let ?a = "act_then (start_node env) (connect_peers env (cfg_peers c))"
  have s: "s = new_http_server (fst (?a n))"
    using assms m b n by (auto simp: start_program_def split: prod.splits outcome.splits if_splits)
  have "keeps (=) ?a" unfolding connect_peers_def by (intro keeps_intros)
  then have "chain_view n = chain_view (fst (?a n))" unfolding keeps_def by (rule spec)
  then have "http_view s = (setOnTransactionAdded True (setOnBlockAdded True bc), f3)"
    using new_node_chain[OF n] by (simp add: s http_view_def new_http_server_def chain_view_def)
  with b that show ?thesis by (simp add: mf)
qed


section \<open>Stopping and starting again\<close>

text \<open>Writing a file touches nothing but the file, its temporary copy and its backup.\<close>

lemma atomicWrite_frame:
  assumes "q \<noteq> p" "q \<noteq> p @ ''.tmp''" "q \<noteq> p @ ''.bak''"
  shows "fst (atomicWrite no_faults p new f) q = f q"
  using assms by (auto simp: atomicWrite_def atomicWrite_run_def install_def fs_rename_def fs_remove_def Let_def)

lemma callback_fields [simp]:
  "storage (setOnTransactionAdded x bc) = storage bc" "storage (setOnBlockAdded x bc) = storage bc"
  "consensusEngine (setOnTransactionAdded x bc) = consensusEngine bc" "consensusEngine (setOnBlockAdded x bc) = consensusEngine bc"
  "stateManager (setOnTransactionAdded x bc) = stateManager bc" "stateManager (setOnBlockAdded x bc) = stateManager bc"
  "mempool (setOnTransactionAdded x bc) = mempool bc" "mempool (setOnBlockAdded x bc) = mempool bc"
  by (simp_all add: setOnTransactionAdded_def setOnBlockAdded_def)

lemma persists_cong:
  "f (chainFilePath m) = g (chainFilePath m) \<Longrightarrow> persists jt ossl m ch f \<longleftrightarrow> persists jt ossl m ch g"
  by (simp add: persists_def)

lemma persistChain_persists:
  assumes "persistChain jt no_faults bc f = Inr f'" "storage bc = Some (new_manager dir)"
    and "json_text_ok jt" "\<forall>b \<in> set (chain bc). plain_block b"
  shows "persists jt ossl (new_manager dir) (chain bc) f'"
proof -
  let ?m = "new_manager dir"
  obtain g where g: "saveChain jt no_faults ?m (chain bc) f = Inr (g, True)" "persists jt ossl ?m (chain bc) g"
    using saveChain_persists[OF assms(3,4)] by blast
  obtain s b where "atomicWrite no_faults (stateFilePath ?m) s g = (f', b)"
    using assms(1,2) g(1) by (auto simp: persistChain_def saveState_def)
  then have "f' = fst (atomicWrite no_faults (stateFilePath ?m) s g)" by simp
  then have "f' (chainFilePath ?m) = g (chainFilePath ?m)"
    by (simp only:) (rule atomicWrite_frame; simp add: new_manager_def)
  then show ?thesis using g(2) persists_cong by blast
qed

lemma recovery_persists:
  assumes "persists jt ossl (new_manager dir) ch f"
  shows "persists jt ossl (new_manager dir) ch (recoverTempFiles no_faults (new_manager dir) f)"
proof -
  have "f (chainFilePath (new_manager dir)) \<noteq> None" using assms by (auto simp: persists_def)
  then have "recoverTempFiles no_faults (new_manager dir) f (chainFilePath (new_manager dir)) = f (chainFilePath (new_manager dir))"
    by (auto simp: recoverTempFiles_def recover_one_def fs_remove_def fs_rename_def Let_def new_manager_def)
  then show ?thesis using assms by (simp add: persists_def)
qed

lemma new_blockchain_persisted:
  assumes "persists jt ossl m ch f" "\<forall>b \<in> set ch. plain_block b" "validateChainAgainstConsensus ossl eng now ch"
    and "new_blockchain jt ossl no_faults now d eng (Some m) f = Some (Inr (bc, f'))"
  shows "chain bc = ch \<and> stateManager bc = rebuildState ch \<and> mempool bc = []"
proof -
  have "ch \<noteq> []" using assms(3) by (auto simp: validateChainAgainstConsensus_def)
  then show ?thesis
    using assms(3,4) load_persisted[OF assms(1,2)] by (auto simp: new_blockchain_def empty_blockchain_def)
qed


section \<open>Configured addresses\<close>

definition address_ok :: "PeerAddress \<Rightarrow> bool" where
  "address_ok p \<longleftrightarrow> pa_host p \<noteq> [] \<and> pa_port p \<noteq> 0"

definition config_ok :: "Config \<Rightarrow> bool" where
  "config_ok c \<longleftrightarrow> list_all address_ok (cfg_peers c) \<and> list_all address_ok (cfg_bootstrapNodes c)"

lemma parseEndpoint_ok: "Program.parseEndpoint e = Inr (Some p) \<Longrightarrow> address_ok p"
  by (auto simp: Program.parseEndpoint_def checked_address_def address_ok_def Let_def word_gt_0
      split: if_splits option.splits sum.splits)

lemma parse_entries_ok:
  "parse_entries es target = Inr r \<Longrightarrow> list_all address_ok target \<Longrightarrow> list_all address_ok r"
proof (induction es arbitrary: target)
  case (Cons e es)
  then obtain a where "Program.parseEndpoint e = Inr a" "parse_entries es (add_address a target) = Inr r" by auto
  moreover have "list_all address_ok (add_address a target)"
    using Cons.prems(2) parseEndpoint_ok calculation(1) by (auto simp: add_address_def split: option.split)
  ultimately show ?case using Cons.IH by blast
qed simp

lemma config_addresses_ok: "config_addresses j k = Inr r \<Longrightarrow> list_all address_ok r"
  unfolding config_addresses_def by (erule parse_entries_ok) simp

lemma load_steps_ok:
  "load_basic j c = Inr c' \<Longrightarrow> config_ok c \<Longrightarrow> config_ok c'"
  "load_peers j c = Inr c' \<Longrightarrow> config_ok c \<Longrightarrow> config_ok c'"
  "load_limits j c = Inr c' \<Longrightarrow> config_ok c \<Longrightarrow> config_ok c'"
  "load_timeouts j c = Inr c' \<Longrightarrow> config_ok c \<Longrightarrow> config_ok c'"
  "load_retry j c = Inr c' \<Longrightarrow> config_ok c \<Longrightarrow> config_ok c'"
  by (auto simp: load_basic_def load_peers_def load_limits_def load_timeouts_def load_retry_def config_ok_def Let_def
      split: if_splits dest: config_addresses_ok)

lemma loadConfigFile_ok: "loadConfigFile jin file c = Inr c' \<Longrightarrow> config_ok c \<Longrightarrow> config_ok c'"
  by (auto simp: loadConfigFile_def split: option.splits dest!: load_steps_ok)

lemma set_option_ok:
  assumes "set_option arg v c = Some (Inr c')" "config_ok c"
  shows "config_ok c'"
  using assms by (auto simp: set_option_def config_ok_def parsePeerList_def split: if_splits dest: parse_entries_ok)

lemma apply_args_ok: "apply_args args c = Inr (Some c') \<Longrightarrow> config_ok c \<Longrightarrow> config_ok c'"
proof (induction args c rule: apply_args.induct)
  case (3 arg v args c)
  then show ?case by (auto split: option.splits if_splits dest: set_option_ok)
qed (auto split: if_splits)


section \<open>A concrete program\<close>

definition demo_config :: Config where
  "demo_config = default_config\<lparr>p2pPort := 7000, cfg_difficulty := 1\<rparr>"

lemma demo_chain:
  obtains bc f2 where
    "new_blockchain demo_json demo_openssl no_faults 0 1 (Some (PoWEngine demo_openssl default_adjuster)) (Some m) f =
       Some (Inr (bc, f2))"
    "bc_isChainValid demo_openssl 0 bc" "f = Map.empty \<longrightarrow> (\<exists>g. createGenesis demo_openssl 1 = Some g \<and> chain bc = [g])"
proof -
  let ?eng = "Some (PoWEngine demo_openssl default_adjuster)"
  obtain g where g: "createGenesis demo_openssl 1 = Some g" by (rule demo_new_blockchain[of 0 None])
  have d: "dump demo_json i j = Inr (demo_dump j)" for i j by (simp add: demo_json_def)
  have "\<exists>bc f2. new_blockchain demo_json demo_openssl no_faults 0 1 ?eng (Some m) f = Some (Inr (bc, f2))"
    by (simp add: new_blockchain_def g saveChain_def d Let_def)
  then obtain bc f2 where b: "new_blockchain demo_json demo_openssl no_faults 0 1 ?eng (Some m) f = Some (Inr (bc, f2))"
    by blast
  have i: "chain_inv demo_openssl bc" "consensusEngine bc = ?eng" using new_blockchain_inv[OF b] by blast+
  have "bc_isChainValid demo_openssl 0 bc \<and>
      (f = Map.empty \<longrightarrow> (\<exists>g. createGenesis demo_openssl 1 = Some g \<and> chain bc = [g]))"
    using b
  proof (cases rule: new_blockchain_cases)
    case (loaded m)
    have "f \<noteq> Map.empty"
    proof
      assume "f = Map.empty"
      then have "chain bc = []" by (simp add: loaded(3) loadChain_def readFile_def)
      with loaded(4) show False by (simp add: validateChainAgainstConsensus_def)
    qed
    with loaded(4) i(2) show ?thesis by (simp add: bc_isChainValid_def)
  next
    case (fresh g)
    have "chain bc = [g]" by (subst fresh(2)) (simp add: bc_applyBlockState_def)
    with i fresh(1) show ?thesis
      by (simp add: bc_isChainValid_def validateChainAgainstConsensus_def chain_inv_def del: isChainValid.simps)
  qed
  with b that show ?thesis by blast
qed

text \<open>With a working disk the program starts whatever its directory contains.\<close>

lemma demo_start:
  obtains s where "start_program demo_node_env jin (Some (64, Some (64, 64))) demo_config f = Some (Inr (Some s))"
    "f = Map.empty \<longrightarrow> (\<exists>g. createGenesis demo_openssl 1 = Some g \<and> chain (hs_chain s) = [g])"
proof -
  let ?m = "new_manager ''./data''"
  let ?eng = "Some (PoWEngine demo_openssl default_adjuster)"
  let ?f = "recoverTempFiles no_faults ?m f"
  have m: "open_manager no_faults ''./data'' f = Inr (?m, ?f)"
    by (simp add: open_manager_def ensureDirectory_def Let_def)
  obtain bc f2 where b: "new_blockchain demo_json demo_openssl no_faults 0 1 ?eng (Some ?m) ?f = Some (Inr (bc, f2))"
      "bc_isChainValid demo_openssl 0 bc" "?f = Map.empty \<longrightarrow> (\<exists>g. createGenesis demo_openssl 1 = Some g \<and> chain bc = [g])"
    by (rule demo_chain)
  obtain n f3 where n: "new_node demo_node_env jin (Some (64, Some (64, 64))) 7000 default_options bc f2 = (Inr n, f3)"
    "bootstrapPeers (bootstrapManager n) = []"
    by (rule demo_new_node[of default_options]) (simp add: default_options_def)
  let ?a = "act_then (start_node demo_node_env) (connect_peers demo_node_env [])"
  obtain n1 where a: "?a n = (n1, Returned ())"
    using n(2) by (simp add: start_node_def connect_peers_def doAccept_def startHeartbeatTimer_def startGossipTimer_def
        startPeerRotationTimer_def connectToBootstrapPeers_def begin_op_def act_then_def act_bind_def act_update_def
        act_get_def act_return_def)
  have "keeps (=) ?a" unfolding connect_peers_def by (intro keeps_intros)
  then have "chain_view n = chain_view (fst (?a n))" unfolding keeps_def by (rule spec)
  then have n1: "blockchain n1 = setOnTransactionAdded True (setOnBlockAdded True bc)"
    using new_node_chain(1)[OF n(1)] by (simp add: a chain_view_def)
  then have "bc_isChainValid demo_openssl 0 (blockchain n1)"
    using b(2) by (simp add: bc_isChainValid_def setOnTransactionAdded_def setOnBlockAdded_def)
  moreover have "node_options demo_config = default_options"
    by (simp add: node_options_def demo_config_def default_config_def default_options_def)
  ultimately have "start_program demo_node_env jin (Some (64, Some (64, 64))) demo_config f =
      Some (Inr (Some (new_http_server n1)))"
    using m b(1) n(1) a
    by (simp add: start_program_def demo_config_def default_config_def) (simp add: demo_node_env_def)
  moreover have "f = Map.empty \<longrightarrow>
      (\<exists>g. createGenesis demo_openssl 1 = Some g \<and> chain (hs_chain (new_http_server n1)) = [g])"
  proof
    assume "f = Map.empty"
    then have "?f = Map.empty" by (simp add: recoverTempFiles_def recover_one_def)
    with b(3) show "\<exists>g. createGenesis demo_openssl 1 = Some g \<and> chain (hs_chain (new_http_server n1)) = [g]"
      by (simp add: hs_chain_def new_http_server_def n1)
  qed
  ultimately show ?thesis by (rule that)
qed

lemma started_valid:
  assumes "start_program env jin gen c f = Some (Inr (Some s))"
  shows "bc_isChainValid (ne_ossl env) (wall env) (hs_chain s)"
  using assms
  by (auto simp: start_program_def hs_chain_def new_http_server_def
      split: sum.splits option.splits prod.splits outcome.splits if_splits)

section \<open>Properties\<close>

text \<open>
  C1. Nothing that reaches a running program damages its chain: from its start on an empty or
  filled data directory, whatever bytes its peers and its HTTP clients send and in whatever order,
  however its connections, timers, clocks and disk behave, the chain stays valid and never
  gets shorter, the state stays the one rebuilt from it, and the mempool holds only verified,
  unspent transactions with distinct identifiers.
\<close>

theorem program_keeps_chain_invariant:
  assumes "start_program env jin gen c f = Some (Inr (Some s))"
    and "program_reachable (ne_jt env) (ne_ossl env) s t"
  shows "isChainValid (ne_ossl env) (chain (hs_chain t)) \<and>
    stateManager (hs_chain t) = rebuildState (chain (hs_chain t)) \<and>
    length (chain (hs_chain s)) \<le> length (chain (hs_chain t)) \<and>
    (\<forall>tx \<in> set (mempool (hs_chain t)). \<not> isCoinbase tx \<and> verify_tx (ne_ossl env) tx \<and>
       fromAddress tx = deriveAddressV2 (ne_ossl env) (senderPublicKey tx) \<and>
       \<not> isDoubleSpend (stateManager (hs_chain t)) (txID tx)) \<and>
    distinct (map txID (mempool (hs_chain t)))"
proof -
  obtain bc f2 g where b: "new_blockchain (ne_jt env) (ne_ossl env) (ne_io env) (wall env) (cfg_difficulty c)
      (Some (PoWEngine (ne_ossl env) default_adjuster)) (Some (new_manager (cfg_dataDir c)))
      (recoverTempFiles (ne_io env) (new_manager (cfg_dataDir c)) f) = Some (Inr (bc, f2))"
    and v: "http_view s = (setOnTransactionAdded True (setOnBlockAdded True bc), g)"
    using assms(1) by (rule start_program_chain)
  have "chain_inv (ne_ossl env) bc \<and> engine_ok (ne_ossl env) bc"
    using new_blockchain_inv[OF b] program_engine_ok[of "ne_ossl env" bc] by (auto simp: program_engine_def)
  then have "chain_inv (ne_ossl env) (hs_chain t)" "length (chain (hs_chain s)) \<le> length (chain (hs_chain t))"
    using reachable_inv[OF program_reachable_grows[OF assms(2)]] v
    by (simp_all add: http_view_def hs_chain_def chain_view_def)
  then show ?thesis by (auto simp: chain_inv_def mempool_tx_ok_def isDoubleSpend_def)
qed

theorem program_keeps_chain_invariant_witness:
  "\<exists>s. start_program demo_node_env demo_jin (Some (64, Some (64, 64))) demo_config Map.empty = Some (Inr (Some s)) \<and>
     isChainValid demo_openssl (chain (hs_chain
       (fst (handleConnection demo_http_env (''POST /wallet/create'' @ crlf @ crlf) (\<lambda>_. None) s))))"
proof -
  obtain s where s: "start_program demo_node_env demo_jin (Some (64, Some (64, 64))) demo_config Map.empty = Some (Inr (Some s))"
    "\<exists>g. createGenesis demo_openssl 1 = Some g \<and> chain (hs_chain s) = [g]"
    by (rule demo_start[of demo_jin Map.empty, simplified simp_thms])
  let ?t = "fst (handleConnection demo_http_env (''POST /wallet/create'' @ crlf @ crlf) (\<lambda>_. None) s)"
  have "env_of demo_json demo_openssl (he_node demo_http_env)"
    by (simp add: env_of_def demo_http_env_def demo_node_env_def)
  then have "program_step demo_json demo_openssl s ?t"
    by (rule program_step.request) (use s(2) in auto)
  then have "program_reachable demo_json demo_openssl s ?t"
    by (rule program_reachable.step[OF program_reachable.refl])
  then have "isChainValid demo_openssl (chain (hs_chain ?t))"
    using program_keeps_chain_invariant[OF s(1), of ?t] by (simp add: demo_node_env_def del: isChainValid.simps)
  with s(1) show ?thesis by blast
qed



text \<open>
  C33. Every configured peer address is well formed, whatever the configuration file and the
  command line contain: if the program gets as far as a configuration, each peer and bootstrap
  address in it has a host and a port other than 0, and the text form that is handed to the
  node is read back by the peer manager as exactly that host and port.
\<close>

theorem configured_addresses:
  assumes "parseArgs jin read args = Inr (Some c)" "p \<in> set (cfg_peers c) \<union> set (cfg_bootstrapNodes c)"
  shows "pa_host p \<noteq> [] \<and> pa_port p \<noteq> 0 \<and>
    Peer_Manager.parseEndpoint (pa_host p @ '':'' @ to_string (pa_port p)) = Some (pa_host p, pa_port p)"
proof -
  let ?c = "default_config\<lparr>configPath := find_config_path args (configPath default_config)\<rparr>"
  obtain c1 where c1: "loadConfigFile jin (read (configPath ?c)) ?c = Inr c1" "apply_args args c1 = Inr (Some c)"
    using assms(1) by (auto simp: parseArgs_def Let_def)
  have "config_ok ?c" by (simp add: config_ok_def default_config_def)
  then have "config_ok c" by (rule apply_args_ok[OF c1(2) loadConfigFile_ok[OF c1(1)]])
  then have "address_ok p" using assms(2) by (auto simp: config_ok_def list_all_iff)
  then show ?thesis using parseEndpoint_roundtrip by (simp add: address_ok_def)
qed

theorem configured_addresses_witness:
  "\<exists>c. parseArgs (\<lambda>_. Inl (JsonException 101)) (\<lambda>_. None) [''--peers'', ''h:5''] = Inr (Some c) \<and>
     (\<forall>p \<in> set (cfg_peers c). pa_host p \<noteq> [] \<and> pa_port p \<noteq> 0) \<and> cfg_peers c \<noteq> []"
proof -
  have "stoi ''5'' = Inr 5" by code_simp
  then have "parsePeerList ''h:5'' [] = Inr [\<lparr>pa_host = ''h'', pa_port = 5\<rparr>]"
    by (simp add: parsePeerList_def Program.parseEndpoint_def checked_address_def add_address_def Let_def)
  then obtain c where c: "parseArgs (\<lambda>_. Inl (JsonException 101)) (\<lambda>_. None) [''--peers'', ''h:5''] = Inr (Some c)"
    "cfg_peers c \<noteq> []"
    by (simp add: parseArgs_def loadConfigFile_def set_option_def default_config_def Let_def)
  with configured_addresses[OF c(1)] show ?thesis by blast
qed

end
