(* ===== verification/Merkle_Tree.thy ===== *)
theory Merkle_Tree
  imports Consensus
begin

text \<open>
  The Merkle root as a tree: what \<^verbatim>\<open>Block::computeMerkleRoot\<close> computes level by level is the root
  of the binary tree of least height over the leaves, in which a missing right subtree is
  replaced by the left one.
\<close>

section \<open>The tree\<close>

fun merkle_tree :: "openssl \<Rightarrow> nat \<Rightarrow> string list \<Rightarrow> string" where
  "merkle_tree ossl 0 hs = hd hs"
| "merkle_tree ossl (Suc k) hs =
     (let l = merkle_tree ossl k (take (2 ^ k) hs); rest = drop (2 ^ k) hs
      in sha256 ossl (l @ (if rest = [] then l else merkle_tree ossl k rest)))"

text \<open>The least height of a tree with \<open>n\<close> leaves.\<close>

definition tree_height :: "nat \<Rightarrow> nat \<Rightarrow> bool" where
  "tree_height n k \<longleftrightarrow> n \<le> 2 ^ k \<and> (k = 0 \<or> 2 ^ (k - 1) < n)"

lemma take_merkle_level: "merkle_level ossl (take (2 * m) hs) = take m (merkle_level ossl hs)"
proof (induction m arbitrary: hs)
  case (Suc m)
  show ?case using Suc.IH by (cases "(ossl, hs)" rule: merkle_level.cases) simp_all
qed simp

lemma drop_merkle_level: "merkle_level ossl (drop (2 * m) hs) = drop m (merkle_level ossl hs)"
proof (induction m arbitrary: hs)
  case (Suc m)
  show ?case using Suc.IH by (cases "(ossl, hs)" rule: merkle_level.cases) simp_all
qed simp

lemma merkle_level_Nil [simp]: "merkle_level ossl hs = [] \<longleftrightarrow> hs = []"
  by (cases "(ossl, hs)" rule: merkle_level.cases) simp_all

lemma merkle_tree_level:
  assumes "hs \<noteq> []" "length hs \<le> 2 ^ Suc k"
  shows "merkle_tree ossl (Suc k) hs = merkle_tree ossl k (merkle_level ossl hs)"
  using assms
proof (induction k arbitrary: hs)
  case 0
  then show ?case by (cases "(ossl, hs)" rule: merkle_level.cases) simp_all
next
  case (Suc k)
  let ?l = "take (2 ^ Suc k) hs" and ?r = "drop (2 ^ Suc k) hs"
  have l: "merkle_tree ossl (Suc k) ?l = merkle_tree ossl k (take (2 ^ k) (merkle_level ossl hs))"
    using Suc.IH[of ?l] Suc.prems(1) take_merkle_level[of ossl "2 ^ k" hs] by simp
  have r: "merkle_tree ossl (Suc k) ?r = merkle_tree ossl k (drop (2 ^ k) (merkle_level ossl hs))" if "?r \<noteq> []"
    using Suc.IH[of ?r] that Suc.prems(2) drop_merkle_level[of ossl "2 ^ k" hs] by simp
  have e: "?r = [] \<longleftrightarrow> drop (2 ^ k) (merkle_level ossl hs) = []"
    using drop_merkle_level[of ossl "2 ^ k" hs] merkle_level_Nil[of ossl ?r] by simp
  show ?case
    unfolding merkle_tree.simps(2)[of ossl "Suc k"] merkle_tree.simps(2)[of ossl k "merkle_level ossl hs"] Let_def l
    using e r by (cases "?r = []") simp_all
qed

lemma merkle_loop_tree:
  assumes "hs \<noteq> []" "tree_height (length hs) k"
  shows "merkle_loop ossl hs = merkle_tree ossl k hs"
  using assms
proof (induction k arbitrary: hs)
  case 0
  then show ?case by (subst merkle_loop.simps) (simp add: tree_height_def)
next
  case (Suc k)
  then have n: "1 < length hs" "length hs \<le> 2 ^ Suc k" "2 ^ k < length hs"
    by (auto simp: tree_height_def)
  have "tree_height (length (merkle_level ossl hs)) k"
    using n(2,3) by (cases k) (auto simp: tree_height_def length_merkle_level)
  then have "merkle_loop ossl (merkle_level ossl hs) = merkle_tree ossl k (merkle_level ossl hs)"
    using Suc.IH Suc.prems(1) by simp
  then show ?case using n(1) merkle_tree_level[OF Suc.prems(1) n(2)] by (subst merkle_loop.simps) simp
qed


section \<open>Properties\<close>

text \<open>
  C15. The loop over levels computes the root of the Merkle tree: for a block with
  transactions, \<^verbatim>\<open>computeMerkleRoot\<close> is the root of the binary hash tree of least height over
  the transactions' leaves in order, where a subtree without a right half is paired with its own
  left half.
\<close>

theorem merkle_root_is_tree_root:
  assumes "transactions b \<noteq> []" "length (transactions b) \<le> 2 ^ k" "k \<noteq> 0 \<Longrightarrow> 2 ^ (k - 1) < length (transactions b)"
  shows "computeMerkleRoot ossl b = merkle_tree ossl k (map (merkle_leaf ossl) (transactions b))"
  using merkle_loop_tree[of "map (merkle_leaf ossl) (transactions b)" k ossl] assms
  by (auto simp: computeMerkleRoot_def tree_height_def)

theorem merkle_root_is_tree_root_witness:
  "let t = genesis_coinbase demo_openssl; s = sha256 demo_openssl; h = merkle_leaf demo_openssl t
   in computeMerkleRoot demo_openssl (default_block\<lparr>transactions := [t, t, t]\<rparr>) = s (s (h @ h) @ s (h @ h))"
  using merkle_root_is_tree_root[of "default_block\<lparr>transactions := replicate 3 (genesis_coinbase demo_openssl)\<rparr>" 2 demo_openssl]
  by (simp add: Let_def numeral_eq_Suc)

end
