(* ===== verification/Ledger_Safety.thy ===== *)
theory Ledger_Safety
  imports Blockchain
begin

text \<open>
  What the checks of \<^verbatim>\<open>addTransaction\<close> are worth as an accounting system
  (\<^verbatim>\<open>src/core/blockchain.cpp\<close>, \<^verbatim>\<open>src/state/state_manager.cpp\<close>): a node that only submits and
  mines keeps a ledger without overdrafts and without gaps in the nonces; blocks from peers are
  not held to either rule.
\<close>

section \<open>Transactions the sender can pay\<close>

text \<open>
  A transfer is payable when the sender holds the amount before the receiver is credited. Unlike
  \<^const>\<open>covered\<close> this survives any increase of the balances.
\<close>

definition payable :: "Transaction \<Rightarrow> StateManager \<Rightarrow> bool" where
  "payable tx s \<longleftrightarrow> \<not> isCoinbase tx \<and> fromAddress tx \<noteq> [] \<and> unat (amount tx) \<le> funds s (fromAddress tx)"

fun payable_seq :: "Transaction list \<Rightarrow> StateManager \<Rightarrow> bool" where
  "payable_seq [] s = True"
| "payable_seq (tx # txs) s = (payable tx s \<and> payable_seq txs (apply_tx tx s))"

definition room :: "StateManager \<Rightarrow> bool" where
  "room s \<longleftrightarrow> finite (dom (balances s)) \<and> 2 * total_supply s < 2 ^ 64"

lemma payable_seq_append:
  "payable_seq (xs @ ys) s \<longleftrightarrow> payable_seq xs s \<and> payable_seq ys (fold apply_tx xs s)"
  by (induction xs arbitrary: s) auto

lemma payable_seqD: "payable_seq txs s \<Longrightarrow> tx \<in> set txs \<Longrightarrow> \<not> isCoinbase tx \<and> fromAddress tx \<noteq> []"
  by (induction txs arbitrary: s) (auto simp: payable_def)

lemma payable_covered:
  assumes "payable tx s" "room s"
  shows "covered tx s"
proof -
  have le: "funds s b \<le> total_supply s" for b using assms(2) funds_le_supply by (simp add: room_def)
  have "funds s a + tx_in tx a < 2 ^ 64 \<and> tx_out tx a \<le> funds s a + tx_in tx a" for a
    using assms le[of a] le[of "fromAddress tx"]
    by (auto simp: payable_def tx_in_def tx_out_def room_def)
  then show ?thesis by (simp add: covered_def)
qed

lemma payable_room:
  assumes "payable tx s" "room s"
  shows "room (apply_tx tx s) \<and> total_supply (apply_tx tx s) \<le> total_supply s"
proof -
  have "tx_minted tx \<le> tx_burned tx" using assms(1) by (simp add: tx_minted_def tx_burned_def payable_def)
  then have "total_supply (apply_tx tx s) \<le> total_supply s"
    using supply_apply_tx[OF payable_covered[OF assms]] assms(2) by (simp add: room_def)
  then show ?thesis using assms(2) by (simp add: room_def dom_apply_tx)
qed

lemma payable_seq_covered: "payable_seq txs s \<Longrightarrow> room s \<Longrightarrow> covered_seq txs s"
  by (induction txs arbitrary: s) (auto simp: payable_covered payable_room)

lemma payable_seq_room:
  "payable_seq txs s \<Longrightarrow> room s \<Longrightarrow>
   room (fold apply_tx txs s) \<and> total_supply (fold apply_tx txs s) \<le> total_supply s"
proof (induction txs arbitrary: s)
  case (Cons tx txs)
  then show ?case using payable_room[of tx s] by fastforce
qed simp

lemma payable_seq_mono:
  assumes "payable_seq txs s" "\<And>a. funds s a \<le> funds s' a" "room s" "room s'"
  shows "payable_seq txs s'"
  using assms
proof (induction txs arbitrary: s s')
  case (Cons tx txs)
  have p: "payable tx s" using Cons.prems(1) by simp
  have p': "payable tx s'" using p Cons.prems(2)[of "fromAddress tx"] by (simp add: payable_def)
  have "funds (apply_tx tx s) a \<le> funds (apply_tx tx s') a" for a
    using funds_apply_tx[OF payable_covered[OF p Cons.prems(3)], of a]
      funds_apply_tx[OF payable_covered[OF p' Cons.prems(4)], of a] Cons.prems(2)[of a] by simp
  then have "payable_seq txs (apply_tx tx s')"
    using Cons.IH[of "apply_tx tx s" "apply_tx tx s'"] Cons.prems p p' payable_room by simp
  with p' show ?case by simp
qed simp


section \<open>What the node computes from the mempool\<close>

text \<open>
  The 64-bit sums over the pending transactions may wrap; what is left of an address's balance
  after them is nevertheless exact, because it is computed modulo \<open>2^64\<close> and fits.
\<close>

lemma pending_incoming_nat:
  assumes "a \<noteq> []"
  shows "fold (\<lambda>p acc. if toAddress p = a then acc + amount p else acc) txs n =
    n + of_nat (txs_in txs a)"
  using assms by (induction txs arbitrary: n) (auto simp: tx_in_def)

lemma pending_outgoing_nat:
  assumes "a \<noteq> []" "\<forall>p \<in> set txs. \<not> isCoinbase p"
  shows "fold (\<lambda>p acc. if fromAddress p = a then acc + amount p else acc) txs n =
    n + of_nat (txs_out txs a)"
  using assms by (induction txs arbitrary: n) (auto simp: tx_out_def)

lemma available_exact:
  assumes "payable_seq txs s" "room s" "a \<noteq> []"
  shows "getBalance s a + pending_incoming a txs - pending_outgoing a txs =
    getBalance (fold apply_tx txs s) a"
proof -
  have "\<forall>p \<in> set txs. \<not> isCoinbase p" using payable_seqD[OF assms(1)] by blast
  then have p: "pending_incoming a txs = of_nat (txs_in txs a)" "pending_outgoing a txs = of_nat (txs_out txs a)"
    using assms(3) by (simp_all add: pending_incoming_def pending_outgoing_def pending_incoming_nat
        pending_outgoing_nat)
  have "funds (fold apply_tx txs s) a + txs_out txs a = funds s a + txs_in txs a"
    using assms(1,2) payable_seq_covered funds_covered_seq by blast
  then have "(of_nat (funds (fold apply_tx txs s) a) :: u64) + of_nat (txs_out txs a) =
      of_nat (funds s a) + of_nat (txs_in txs a)" by (simp flip: of_nat_add)
  then show ?thesis by (simp add: p funds_def algebra_simps)
qed

lemma highest_seen_nonce_filter:
  assumes "a \<noteq> []" "\<forall>p \<in> set txs. \<not> isCoinbase p"
  shows "highest_seen_nonce a n txs = fold max (map tx_nonce (filter (spends_from a) txs)) n"
  using assms(2) unfolding highest_seen_nonce_def
  by (induction txs arbitrary: n) (use assms(1) in \<open>auto simp: spends_from_def max.commute\<close>)


section \<open>Nonces without gaps\<close>

definition consecutive_nonces :: "Transaction list \<Rightarrow> string \<Rightarrow> bool" where
  "consecutive_nonces txs a \<longleftrightarrow>
     map tx_nonce (filter (spends_from a) txs) = map of_nat [1..<Suc (length (filter (spends_from a) txs))]"

lemma fold_max_upt: "n < 2 ^ 64 \<Longrightarrow> fold max (map of_nat [1..<Suc n]) (0 :: u64) = of_nat n"
proof (induction n)
  case (Suc n)
  have "(of_nat n :: u64) \<le> of_nat (Suc n)"
    using Suc.prems by (simp only: word_le_nat_alt unat_of_nat) (simp add: take_bit_nat_eq_self)
  then have "max (of_nat (Suc n)) (of_nat n :: u64) = of_nat (Suc n)" by (rule max_absorb1)
  moreover have "fold max (map of_nat [1..<Suc (Suc n)]) (0 :: u64) =
      max (of_nat (Suc n)) (fold max (map of_nat [1..<Suc n]) 0)" by simp
  ultimately show ?case using Suc by simp
qed simp

lemma consecutive_nonces_coinbase [simp]:
  "isCoinbase c \<Longrightarrow> consecutive_nonces (xs @ c # ys) a = consecutive_nonces (xs @ ys) a"
  by (simp add: consecutive_nonces_def spends_from_def)

lemma consecutive_nonces_snoc:
  assumes "consecutive_nonces txs a"
    and "spends_from a tx \<Longrightarrow> tx_nonce tx = of_nat (length (filter (spends_from a) txs)) + 1"
  shows "consecutive_nonces (txs @ [tx]) a"
  using assms by (auto simp: consecutive_nonces_def algebra_simps)

text \<open>The nonce that \<^const>\<open>addTransaction\<close> expects is the number of transactions sent so far.\<close>

lemma expected_nonce:
  assumes "consecutive_nonces (chain_txs c @ mp) a" "a \<noteq> []" "\<forall>p \<in> set mp. \<not> isCoinbase p"
    and "length (chain_txs c @ mp) < 2 ^ 64"
  shows "highest_seen_nonce a (getLastNonce (rebuildState c) a) mp =
    of_nat (length (filter (spends_from a) (chain_txs c @ mp)))"
proof -
  let ?l = "filter (spends_from a) (chain_txs c @ mp)"
  have "highest_seen_nonce a (getLastNonce (rebuildState c) a) mp = fold max (map tx_nonce ?l) 0"
    using assms(2,3) by (simp add: highest_seen_nonce_filter getLastNonce_rebuild)
  also have "\<dots> = fold max (map of_nat [1..<Suc (length ?l)]) 0"
    using assms(1) by (simp only: consecutive_nonces_def)
  also have "\<dots> = of_nat (length ?l)"
    using assms(4) length_filter_le[of "spends_from a" "chain_txs c @ mp"] by (intro fold_max_upt) linarith
  finally show ?thesis .
qed


section \<open>A node that only submits and mines\<close>

inductive own_step ::
  "json_text \<Rightarrow> openssl \<Rightarrow> Blockchain \<times> fsys \<Rightarrow> Blockchain \<times> fsys \<Rightarrow> bool" for jt ossl where
  submit: "addTransaction ossl now tx bc = (bc', r, ev) \<Longrightarrow> own_step jt ossl (bc, f) (bc', f)"
| mine: "minePendingTransactions jt ossl env now1 now2 a bc f = Some (bc', f', r, ev) \<Longrightarrow>
    own_step jt ossl (bc, f) (bc', f')"
| persist: "persistChain jt env bc f = Inr f' \<Longrightarrow> own_step jt ossl (bc, f) (bc, f')"

inductive own_run ::
  "json_text \<Rightarrow> openssl \<Rightarrow> Blockchain \<times> fsys \<Rightarrow> Blockchain \<times> fsys \<Rightarrow> bool" for jt ossl where
  refl: "own_run jt ossl s s"
| step: "own_run jt ossl s s' \<Longrightarrow> own_step jt ossl s' s'' \<Longrightarrow> own_run jt ossl s s''"

inductive_cases own_stepE: "own_step jt ossl (bc, f) s'"

definition ledger_txs :: "Blockchain \<Rightarrow> Transaction list" where
  "ledger_txs bc = chain_txs (chain bc) @ mempool bc"

text \<open>
  The supply is at most 50 per block. The number of transactions, which is at least the number
  of blocks, bounds it: with fewer than \<open>2^57\<close> of them no 64-bit sum of two balances wraps.
\<close>

definition ledger_inv :: "Blockchain \<Rightarrow> bool" where
  "ledger_inv bc \<longleftrightarrow> stateManager bc = rebuildState (chain bc) \<and>
     covered_seq (chain_txs (chain bc)) clear_state \<and> payable_seq (mempool bc) (stateManager bc) \<and>
     total_supply (stateManager bc) \<le> 50 * length (chain bc) \<and>
     length (chain bc) \<le> length (chain_txs (chain bc)) \<and> (\<forall>a. consecutive_nonces (ledger_txs bc) a)"

lemma ledger_invD:
  assumes "ledger_inv bc"
  shows "stateManager bc = rebuildState (chain bc)" "covered_seq (chain_txs (chain bc)) clear_state"
    "payable_seq (mempool bc) (stateManager bc)" "total_supply (stateManager bc) \<le> 50 * length (chain bc)"
    "length (chain bc) \<le> length (chain_txs (chain bc))" "consecutive_nonces (ledger_txs bc) a"
  using assms unfolding ledger_inv_def by blast+

lemma ledger_inv_room:
  assumes "ledger_inv bc" "length (ledger_txs bc) < 2 ^ 57"
  shows "room (stateManager bc)"
proof -
  have "stateManager bc = rebuildState (chain bc)" using assms(1) by (simp add: ledger_inv_def)
  then have "finite (dom (balances (stateManager bc)))" by (simp only: finite_dom_rebuild)
  moreover have "total_supply (stateManager bc) \<le> 50 * length (chain bc)"
      "length (chain bc) \<le> length (chain_txs (chain bc))"
    using ledger_invD(4,5)[OF assms(1)] .
  ultimately show ?thesis using assms(2) by (simp add: room_def ledger_txs_def)
qed

lemma addTransaction_ledger:
  assumes "ledger_inv bc" "addTransaction ossl now tx bc = (bc', r, ev)" "length (ledger_txs bc) < 2 ^ 57"
  shows "ledger_inv bc'"
proof (cases "admissible ossl now tx bc")
  case True
  let ?a = "fromAddress tx"
  have bc': "bc' = bc\<lparr>mempool := mempool bc @ [tx], chainUpdateVersion := chainUpdateVersion bc + 1\<rparr>"
    using assms(2) True by (simp add: addTransaction_eq)
  note inv = assms(1)[unfolded ledger_inv_def]
  have room: "room (stateManager bc)" using assms(1,3) by (rule ledger_inv_room)
  have pm: "payable_seq (mempool bc) (stateManager bc)" using inv by blast
  then have nc: "\<forall>p \<in> set (mempool bc). \<not> isCoinbase p" using payable_seqD by blast
  have a: "?a \<noteq> []" using True by (simp add: admissible_def deriveAddressV2_def)
  have "amount tx \<le> getBalance (fold apply_tx (mempool bc) (stateManager bc)) ?a"
    using True unfolding available_exact[OF pm room a, symmetric] admissible_def Let_def by blast
  then have "payable tx (fold apply_tx (mempool bc) (stateManager bc))"
    using True a by (simp add: payable_def admissible_def funds_def word_le_nat_alt)
  with pm have p: "payable_seq (mempool bc @ [tx]) (stateManager bc)" by (simp add: payable_seq_append)
  have "consecutive_nonces (ledger_txs bc @ [tx]) b" for b
  proof (rule consecutive_nonces_snoc)
    show "consecutive_nonces (ledger_txs bc) b" using inv by blast
    assume "spends_from b tx"
    then have b: "b = ?a" by (simp add: spends_from_def)
    have "tx_nonce tx = highest_seen_nonce ?a (getLastNonce (stateManager bc) ?a) (mempool bc) + 1"
      using True by (simp add: admissible_def)
    then show "tx_nonce tx = of_nat (length (filter (spends_from b) (ledger_txs bc))) + 1"
      using expected_nonce[of "chain bc" "mempool bc" ?a] inv a nc assms(3) by (simp add: b ledger_txs_def)
  qed
  with p show ?thesis
    using ledger_invD(1,2,4,5)[OF assms(1)] by (simp add: ledger_inv_def bc' ledger_txs_def)
qed (use assms in \<open>auto simp: addTransaction_eq\<close>)


text \<open>Mining moves the oldest pending transactions behind a new reward; the state absorbs them.\<close>

lemma mined_ledger:
  assumes "ledger_inv bc" "length (ledger_txs bc) + 1 < 2 ^ 57"
    and "isCoinbase c" "amount c = 50" "transactions b = c # take n (mempool bc)"
    and "chain bc' = chain bc @ [b]" "mempool bc' = drop n (mempool bc)"
    and "stateManager bc' = applyBlockState b (stateManager bc)"
  shows "ledger_inv bc'"
proof -
  let ?s = "stateManager bc" and ?s1 = "apply_tx c (stateManager bc)"
  note inv = ledger_invD[OF assms(1)]
  have room: "room ?s" using assms(1,2) by (intro ledger_inv_room) simp_all
  have small: "total_supply ?s + 50 < 2 ^ 63"
    using ledger_invD(4,5)[OF assms(1)] assms(2) by (simp add: ledger_txs_def)
  have "funds ?s a + tx_in c a < 2 ^ 64 \<and> tx_out c a = 0" for a
    using small funds_le_supply[of ?s a] room assms(3,4) by (auto simp: tx_in_def tx_out_def room_def)
  then have cov: "covered c ?s" by (simp add: covered_def)
  have "total_supply ?s1 + tx_burned c = total_supply ?s + tx_minted c"
    using cov room by (simp add: supply_apply_tx room_def)
  then have s1: "total_supply ?s1 \<le> total_supply ?s + 50" using assms(4) by (simp add: tx_minted_def split: if_splits)
  then have room1: "room ?s1" using room small by (simp add: room_def dom_apply_tx)
  have "funds ?s a \<le> funds ?s1 a" for a using funds_apply_tx[OF cov, of a] assms(3) by (simp add: tx_out_def)
  then have "payable_seq (take n (mempool bc) @ drop n (mempool bc)) ?s1"
    using payable_seq_mono[of "mempool bc" ?s ?s1] inv(3) room room1 by simp
  then have pay: "payable_seq (take n (mempool bc)) ?s1"
      "payable_seq (drop n (mempool bc)) (fold apply_tx (take n (mempool bc)) ?s1)"
    by (simp_all only: payable_seq_append)
  have st: "stateManager bc' = fold apply_tx (take n (mempool bc)) ?s1"
    by (simp add: assms(5,8) applyBlockState_def)
  have rebuild: "stateManager bc' = rebuildState (chain bc')"
    using inv(1) by (simp add: assms(6,8) rebuild_snoc_state)
  have "fold apply_tx (chain_txs (chain bc)) clear_state = ?s"
    using inv(1) by (simp add: rebuildState_transactions chain_txs_def)
  then have "covered_seq (chain_txs (chain bc')) clear_state"
    using inv(2) cov payable_seq_covered[OF pay(1) room1]
    by (simp add: assms(5,6) chain_txs_def covered_seq_append)
  moreover have "total_supply (stateManager bc') \<le> 50 * length (chain bc')"
    using payable_seq_room[OF pay(1) room1] s1 inv(4) by (simp add: st assms(6))
  moreover have "ledger_txs bc' = chain_txs (chain bc) @ c # mempool bc"
    by (simp add: ledger_txs_def assms(5-7) chain_txs_def)
  ultimately show ?thesis
    using inv(5,6) pay(2) rebuild assms(3,7)
    by (simp add: ledger_inv_def st assms(5,6) chain_txs_def ledger_txs_def)
qed

lemma own_step_ledger:
  assumes "own_step jt ossl (bc, f) (bc', f')" "engine_ok ossl bc"
  shows "engine_ok ossl bc' \<and> length (ledger_txs bc) \<le> length (ledger_txs bc') \<and>
    (ledger_inv bc \<longrightarrow> length (ledger_txs bc') < 2 ^ 57 \<longrightarrow> ledger_inv bc')"
  using assms(1)
proof (cases rule: own_step.cases)
  case (submit now tx r ev)
  show ?thesis
    using submit assms(2) addTransaction_ledger[of bc ossl now tx bc' r ev]
    by (auto simp: addTransaction_eq engine_ok_def ledger_txs_def split: if_splits)
next
  case (mine env now1 now2 a r ev)
  then show ?thesis
  proof (cases rule: mine_cases)
    case (mined d b)
    have t: "transactions b = mining_coinbase ossl now1 a # take MAX_TXS_PER_BLOCK (mempool bc)"
      using seal_facts[OF assms(2) mined(1,2)] by simp
    have "length (ledger_txs bc') = length (ledger_txs bc) + 1"
      by (simp add: ledger_txs_def chain_txs_def mined(3) t min_def)
    moreover have "ledger_inv bc \<Longrightarrow> length (ledger_txs bc) + 1 < 2 ^ 57 \<Longrightarrow> ledger_inv bc'"
      by (rule mined_ledger[OF _ _ _ _ t]) (simp_all add: mined(3))
    ultimately show ?thesis using assms(2) mined(3) by (simp add: engine_ok_def)
  qed (use assms(2) in auto)
qed (use assms(2) in auto)

lemma own_run_ledger:
  assumes "own_run jt ossl s s'" "engine_ok ossl (fst s)" "ledger_inv (fst s)"
    and "length (ledger_txs (fst s')) < 2 ^ 57"
  shows "engine_ok ossl (fst s') \<and> ledger_inv (fst s')"
  using assms
proof (induction rule: own_run.induct)
  case (step s s' s'')
  obtain bc' f' bc'' f'' where s: "s' = (bc', f')" "s'' = (bc'', f'')" by (cases s'; cases s'')
  have eng: "engine_ok ossl bc'"
  proof -
    have "own_run jt ossl s s' \<Longrightarrow> engine_ok ossl (fst s) \<Longrightarrow> engine_ok ossl (fst s')"
    proof (induction rule: own_run.induct)
      case (step s s' s'')
      then show ?case using own_step_ledger[of jt ossl "fst s'" "snd s'" "fst s''" "snd s''"] by simp
    qed simp
    then show ?thesis using step s by simp
  qed
  with step s show ?case using own_step_ledger[of jt ossl bc' f' bc'' f''] by simp
qed simp

lemma fresh_ledger:
  assumes "new_blockchain jt ossl env now d eng sto f = Some (Inr (bc, f'))"
    and "\<forall>m. sto = Some m \<longrightarrow> \<not> hasPersistedChain env m f"
  shows "ledger_inv bc \<and> mempool bc = []"
proof -
  obtain g where g: "createGenesis ossl d = Some g"
      "bc = (bc_applyBlockState g (empty_blockchain d eng sto\<lparr>chain := [g]\<rparr>))\<lparr>chainUpdateVersion := 1\<rparr>"
    using assms by (auto simp: new_blockchain_def Let_def empty_blockchain_def bc_applyBlockState_def
        split: option.splits)
  let ?c = "genesis_coinbase ossl" and ?bc = "empty_blockchain d eng sto"
  have t: "transactions g = [?c]" using genesis_valid[OF g(1)] by simp
  have z: "funds clear_state a = 0" "total_supply clear_state = 0" for a
    by (simp add: funds_def) (simp add: total_supply_def clear_state_def)
  have cov: "covered ?c clear_state"
    by (simp add: covered_def z tx_in_def tx_out_def)
  have "finite (dom (balances clear_state))" by (simp add: clear_state_def)
  then have "total_supply (apply_tx ?c clear_state) = 50"
    using supply_apply_tx[OF cov] by (simp add: z tx_minted_def tx_burned_def)
  with cov t show ?thesis
    by (simp add: g(2) ledger_inv_def bc_applyBlockState_def empty_blockchain_def rebuildState_def
        applyBlockState_def chain_txs_def ledger_txs_def consecutive_nonces_def spends_from_def)
qed



section \<open>Properties\<close>

text \<open>
  C2. The ledger of a node that starts from a fresh genesis block and then only submits, mines
  and saves, with any clock and any file-system faults, is sound as long as it has fewer than
  \<open>2^57\<close> transactions: every transfer of its chain and, after the chain, of its mempool is
  covered by the sender's balance at its place; no balance wraps; each balance is what the chain
  paid in minus what it paid out; the money in existence is at most the reward of 50 per block;
  and the transfers of each address carry the nonces 1, 2, 3, ... in chain order, pending ones
  included.
\<close>

theorem own_ledger_sound:
  assumes "new_blockchain jt ossl env now d eng sto f = Some (Inr s0)" "program_engine ossl eng"
    and "\<forall>m. sto = Some m \<longrightarrow> \<not> hasPersistedChain env m f"
    and "own_run jt ossl s0 (bc, f')" "length (chain_txs (chain bc) @ mempool bc) < 2 ^ 57"
  shows "covered_seq (chain_txs (chain bc) @ mempool bc) clear_state \<and>
    unat (getBalance (stateManager bc) a) + txs_out (chain_txs (chain bc)) a = txs_in (chain_txs (chain bc)) a \<and>
    total_supply (stateManager bc) \<le> 50 * length (chain bc) \<and>
    map tx_nonce (filter (spends_from a) (chain_txs (chain bc) @ mempool bc)) =
      map of_nat [1..<Suc (length (filter (spends_from a) (chain_txs (chain bc) @ mempool bc)))]"
proof -
  obtain bc0 f0 where s0: "s0 = (bc0, f0)" by (cases s0)
  have "engine_ok ossl bc0"
    using new_blockchain_inv[of jt ossl env now d eng sto f bc0 f0] assms(1,2)
    by (intro program_engine_ok) (simp add: s0)
  then have inv: "ledger_inv bc"
    using own_run_ledger[OF assms(4)] fresh_ledger[of jt ossl env now d eng sto f bc0 f0] assms(1,3,5)
    by (simp add: s0 ledger_txs_def)
  then have room: "room (stateManager bc)" using assms(5) by (intro ledger_inv_room) (simp_all add: ledger_txs_def)
  have st: "fold apply_tx (chain_txs (chain bc)) clear_state = stateManager bc"
    using ledger_invD(1)[OF inv] by (simp add: rebuildState_transactions chain_txs_def)
  have z: "funds clear_state a = 0" by (simp add: funds_def)
  show ?thesis
    using ledger_invD(2,4,6)[OF inv] payable_seq_covered[OF ledger_invD(3)[OF inv] room]
      funds_covered_seq[OF ledger_invD(2)[OF inv], of a]
    by (simp add: covered_seq_append st z consecutive_nonces_def ledger_txs_def) (simp add: funds_def)
qed

theorem own_ledger_sound_witness:
  "\<exists>bc :: Blockchain. mempool bc = [demo_transfer] \<and> length (chain bc) = 2 \<and>
     covered_seq (chain_txs (chain bc) @ [demo_transfer]) clear_state \<and> total_supply (stateManager bc) \<le> 100"
proof (rule demo_trace)
  fix bc0 bc1 bc :: Blockchain and g b ev1 ev2
  assume n: "createGenesis demo_openssl 1 = Some g"
      "new_blockchain demo_json demo_openssl no_faults 0 1 None None Map.empty = Some (Inr (bc0, Map.empty))"
    and m: "minePendingTransactions demo_json demo_openssl no_faults 0 0 demo_from bc0 Map.empty =
       Some (bc1, Map.empty, Inr b, ev1)" "transactions b = [mining_coinbase demo_openssl 0 demo_from]"
    and a: "addTransaction demo_openssl 0 demo_transfer bc1 = (bc, True, ev2)"
    and c: "chain bc = [g, b]" "mempool bc = [demo_transfer]"
  have "own_step demo_json demo_openssl (bc0, Map.empty) (bc1, Map.empty)" by (rule own_step.mine[OF m(1)])
  moreover have "own_step demo_json demo_openssl (bc1, Map.empty) (bc, Map.empty)" by (rule own_step.submit[OF a])
  ultimately have r: "own_run demo_json demo_openssl (bc0, Map.empty) (bc, Map.empty)"
    using own_run.step[OF own_run.step[OF own_run.refl]] by blast
  have "length (chain_txs (chain bc) @ mempool bc) < 2 ^ 57"
    using genesis_valid[OF n(1)] by (simp add: c chain_txs_def m(2))
  from own_ledger_sound[OF n(2) _ _ r this, of "[]"] c show ?thesis
    by (intro exI[of _ bc]) (simp add: program_engine_def)
qed



text \<open>
  The example: 50 are mined, 5 of them are pending for bob, and a block of a peer pays all 50 to
  eve under the same nonce.
\<close>

definition demo_rival :: Transaction where
  "demo_rival = demo_tx ''eve'' 50 1 ''hi'' (currentTimestamp 0)"

lemma demo_rival_sel [simp]:
  "\<not> isCoinbase demo_rival" "fromAddress demo_rival = demo_from" "toAddress demo_rival = ''eve''"
  "amount demo_rival = 50" "verify_tx demo_openssl demo_rival"
  by (simp_all add: demo_rival_def verify_demo_tx)

lemma hex_byte_inject:
  assumes "hex_byte x = hex_byte y"
  shows "x = y"
proof -
  have h: "hexToBytes (hex_byte z) = Inr [z]" for z
    using hexToBytes_hex[of "[z]"] unfolding list.map concat.simps append_Nil2 .
  have "Inr [x] = (Inr [y] :: byte list result)" by (rule trans[OF h[of x, symmetric, unfolded assms] h[of y]])
  then show ?thesis by simp
qed

lemma demo_rival_id: "txID demo_rival \<noteq> txID demo_transfer"
proof
  have i: "txID (demo_tx to am n pl ts) = sha256 demo_openssl (buildTxCore (empty_tx\<lparr>senderPublicKey := ''22'',
      fromAddress := demo_from, toAddress := to, amount := am, tx_nonce := n, payload := pl,
      tx_timestamp := ts\<rparr>))" for to am n pl ts
    by (simp add: demo_tx_def demo_signed_def Let_def)
  have d: "to_string (5 :: u64) = ''5''" "to_string (50 :: u64) = ''50''"
    by (simp_all add: to_string_def dec.simps[of 5] dec.simps[of 50] digit_char_def char_of_eq_iff)
  assume "txID demo_rival = txID demo_transfer"
  then have "byte_total (map byte_of_char ''eve'') + byte_total (map byte_of_char ''50'') =
      byte_total (map byte_of_char ''bob'') + byte_total (map byte_of_char ''5'')"
    by (auto simp: demo_rival_def demo_transfer_def i sha256_def buildTxCore_def d byte_total_def
        demo_openssl_def empty_tx_def dest!: hex_byte_inject)
  then show False by (simp add: byte_total_def byte_of_char_def)
qed

lemma demo_rival_accepted:
  obtains s0 bc q bc' ev where
    "new_blockchain demo_json demo_openssl no_faults 0 1 None None Map.empty = Some (Inr s0)"
    "chain_reachable demo_json demo_openssl s0 (bc, Map.empty)" "mempool bc = [demo_transfer]"
    "acceptBlock demo_json demo_openssl no_faults 0 q bc Map.empty = (bc', Map.empty, Inr True, ev)"
    "\<not> confirmed_in q demo_transfer" "mempool bc' = [demo_transfer]" "consensusEngine bc' = None"
    "storage bc' = None" "bc_difficulty bc' = 1" "length (chain bc') = 3" "last (chain bc') = q"
    "chain_txs (chain bc') = [genesis_coinbase demo_openssl, mining_coinbase demo_openssl 0 demo_from, demo_rival]"
    "stateManager bc' = rebuildState (chain bc')"
proof (rule demo_trace)
  fix bc0 bc1 bc :: Blockchain and g b ev1 ev2
  assume n: "createGenesis demo_openssl 1 = Some g"
      "new_blockchain demo_json demo_openssl no_faults 0 1 None None Map.empty = Some (Inr (bc0, Map.empty))"
    and m: "minePendingTransactions demo_json demo_openssl no_faults 0 0 demo_from bc0 Map.empty =
       Some (bc1, Map.empty, Inr b, ev1)" "transactions b = [mining_coinbase demo_openssl 0 demo_from]"
    and a: "addTransaction demo_openssl 0 demo_transfer bc1 = (bc, True, ev2)"
    and c: "chain bc0 = [g]" "chain bc = [g, b]" "mempool bc = [demo_transfer]"
      "stateManager bc = rebuildState [g, b]" "consensusEngine bc = None" "storage bc = None" "bc_difficulty bc = 1"
  have r: "chain_reachable demo_json demo_openssl (bc0, Map.empty) (bc, Map.empty)"
    using chain_reachable.step[OF chain_reachable.step[OF chain_reachable.refl chain_step.mine[OF m(1)]]
        chain_step.submit[OF a]] c(1) by simp
  have "isChainValid demo_openssl (chain bc)"
    using node_reachable_inv(1)[OF n(2) _ r] unfolding chain_inv_def program_engine_def by blast
  then have val: "isChainValid demo_openssl [g, b]" by (simp only: c(2))
  let ?n = "new_block demo_openssl 0 2 (hash b) [demo_rival] 1"
  obtain q where q: "mineBlock demo_openssl ?n = Some q" by (rule demo_mines[of ?n]) simp
  note qv = mineBlock_valid[OF q]
  have "valid_link demo_openssl (length [g, b]) q (last [g, b])"
    using qv by (simp add: valid_link_iff hasValidTransactions_iff)
  then have v: "validateChainAgainstConsensus demo_openssl None 0 [g, b, q]"
    using val isChainValid_snoc[of "[g, b]" demo_openssl q]
    by (simp add: validateChainAgainstConsensus_def del: isChainValid.simps)
  have nc: "\<not> confirmed_in q demo_transfer" using demo_rival_id qv(2) by (simp add: confirmed_in_def)
  define bc2 where "bc2 = bc\<lparr>chain := [g, b, q], stateManager := rebuildState [g, b, q],
    chainUpdateVersion := chainUpdateVersion bc + 1\<rparr>"
  have "applyBlockState q (stateManager bc) = rebuildState [g, b, q]" by (simp add: c(4) rebuildState_def)
  then have acc: "acceptBlock demo_json demo_openssl no_faults 0 q bc Map.empty =
      (bc2, Map.empty, Inr True, if onBlockAccepted bc then [BlockAccepted q] else [])"
    using v nc c qv by (simp add: acceptBlock_def bc_applyBlockState_def bc2_def Let_def)
  have "transactions g = [genesis_coinbase demo_openssl]" using genesis_valid[OF n(1)] by simp
  then show ?thesis
    using that[OF n(2) r c(3) acc nc] c m(2) qv(2) by (simp add: bc2_def chain_txs_def)
qed


lemma getBalance_coinbases:
  assumes "\<forall>c \<in> set cs. isCoinbase c" "a \<noteq> []"
  shows "getBalance (fold apply_tx cs s) a =
    getBalance s a + sum_list (map amount (filter (\<lambda>c. toAddress c = a) cs))"
  using assms
  by (induction cs arbitrary: s) (auto simp: apply_tx_def getBalance_debit getBalance_credit algebra_simps)

text \<open>
  C27. Received rewards and difficulties are not checked. Anyone who seals a block on the tip of
  a node's valid chain with a timestamp between the tip's and the node's clock plus two minutes
  may choose the difficulty (anything from 1 to 64, whatever the adjuster asks for) and put any
  number of coinbase transactions of any amounts to any addresses into it: the node appends the
  block and each address owns that much more.
\<close>

theorem forged_reward_accepted:
  assumes "consensusEngine bc = None \<or> consensusEngine bc = Some (PoWEngine ossl adj)"
    and "chain bc \<noteq> []" "bc_isChainValid ossl now bc" "length (chain bc) < 2 ^ 64"
    and "\<forall>c \<in> set cs. isCoinbase c" "a \<noteq> []" "1 \<le> d" "d \<le> 64"
    and "mineBlock ossl (new_block ossl t (of_nat (length (chain bc))) (hash (last (chain bc))) cs d) = Some b"
    and "0 \<le> t" "t < 2 ^ 63" "parseTimestamp (bk_timestamp (last (chain bc))) \<le> t div ns_per_s"
    and "t div ns_per_s \<le> tdiv now ns_per_s + 120"
  shows "\<exists>bc' f' r ev. acceptBlock jt ossl env now b bc f = (bc', f', r, ev) \<and>
    chain bc' = chain bc @ [b] \<and> transactions b = cs \<and> difficulty b = d \<and>
    getBalance (stateManager bc') a =
      getBalance (stateManager bc) a + sum_list (map amount (filter (\<lambda>c. toAddress c = a) cs))"
proof -
  note m = mineBlock_valid[OF assms(9)]
  have b: "bk_index b = of_nat (length (chain bc))" "previousHash b = hash (last (chain bc))"
      "transactions b = cs" "bk_timestamp b = format_now t" "difficulty b = d"
    using m by simp_all
  have link: "valid_link ossl (length (chain bc)) b (last (chain bc))"
    using m assms(4,5) by (simp add: valid_link_iff hasValidTransactions_iff unat_of_nat take_bit_nat_eq_self)
  have "pow_validateBlock ossl now b (last (chain bc))"
    using link assms(7,8,12,13) parse_currentTimestamp[OF assms(10,11)]
    by (simp add: pow_validateBlock_iff valid_link_iff validateBlockTimestamp_iff b)
  then have v: "validateChainAgainstConsensus ossl (consensusEngine bc) now (chain bc @ [b])"
    using assms(1-3) link by (auto simp: validate_snoc bc_isChainValid_def PoWEngine_def)
  have "getBalance (applyBlockState b (stateManager bc)) a =
      getBalance (stateManager bc) a + sum_list (map amount (filter (\<lambda>c. toAddress c = a) cs))"
    using assms(5,6) by (simp add: applyBlockState_def b getBalance_coinbases)
  then show ?thesis
    using assms(2) v b
    by (auto simp: acceptBlock_def bc_applyBlockState_def Let_def split: option.splits sum.splits)
qed

theorem forged_reward_accepted_witness:
  "\<exists>bc b bc' f r ev. length (chain bc) = 1 \<and> difficulty b = 1 \<and>
     acceptBlock demo_json demo_openssl no_faults (1767225600 * ns_per_s) b bc Map.empty = (bc', f, r, ev) \<and>
     getBalance (stateManager bc') ''eve'' = 2000000"
proof -
  let ?pow = "Some (PoWEngine demo_openssl default_adjuster)" and ?t = "1767225600 * ns_per_s"
  let ?c = "empty_tx\<lparr>senderPublicKey := ''COINBASE'', toAddress := ''eve'', amount := 1000000\<rparr>"
  obtain g bc where n: "createGenesis demo_openssl 1 = Some g"
      "new_blockchain demo_json demo_openssl no_faults 0 1 ?pow None Map.empty = Some (Inr (bc, Map.empty))"
      "chain bc = [g]" "mempool bc = []" "consensusEngine bc = ?pow" "storage bc = None"
      "stateManager bc = rebuildState [g]" "bc_difficulty bc = 1"
    by (rule demo_new_blockchain[of 0 ?pow])
  let ?n = "new_block demo_openssl ?t (of_nat (length (chain bc))) (hash (last (chain bc))) [?c, ?c] 1"
  obtain b where b: "mineBlock demo_openssl ?n = Some b" by (rule demo_mines[of ?n]) simp
  have g: "valid_genesis demo_openssl g" "transactions g = [genesis_coinbase demo_openssl]"
    using genesis_valid[OF n(1)] by simp_all
  have ts: "parseTimestamp (bk_timestamp g) = 1767225600"
    using mineBlock_valid(5)[OF n(1)[unfolded createGenesis_def Let_def]] genesis_time by simp
  have v: "bc_isChainValid demo_openssl ?t bc"
    using g(1) by (simp add: bc_isChainValid_def validateChainAgainstConsensus_def n(3) split: option.splits)
  have z: "getBalance (stateManager bc) ''eve'' = 0"
    by (simp add: n(7) rebuildState_def applyBlockState_def g(2) apply_tx_def getBalance_debit getBalance_credit)
  have "\<exists>bc' f' r ev. acceptBlock demo_json demo_openssl no_faults ?t b bc Map.empty = (bc', f', r, ev) \<and>
      chain bc' = chain bc @ [b] \<and> transactions b = [?c, ?c] \<and> difficulty b = 1 \<and>
      getBalance (stateManager bc') ''eve'' =
        getBalance (stateManager bc) ''eve'' + sum_list (map amount (filter (\<lambda>c. toAddress c = ''eve'') [?c, ?c]))"
    by (rule forged_reward_accepted[OF _ _ v _ _ _ _ _ b])
      (simp_all add: n(3,5) ts isCoinbase_def tdiv_def)
  then obtain bc' f' r ev where a:
      "acceptBlock demo_json demo_openssl no_faults ?t b bc Map.empty = (bc', f', r, ev)"
      "difficulty b = 1" "getBalance (stateManager bc') ''eve'' = 2000000"
    using z by (auto simp del: isChainValid.simps)
  have l: "length (chain bc) = 1" by (simp add: n(3))
  show ?thesis
    by (intro exI[of _ bc] exI[of _ b] exI[of _ bc'] exI[of _ f'] exI[of _ r] exI[of _ ev] conjI l a)
qed

end
