(* ===== verification/Node_Sync.thy ===== *)
theory Node_Sync
  imports Node_Threats
begin

text \<open>
  How a node catches up with another one (\<^verbatim>\<open>src/network/node.cpp\<close>, \<^verbatim>\<open>peer.cpp\<close>, \<^verbatim>\<open>message.cpp\<close>,
  \<^verbatim>\<open>src/core/blockchain.cpp\<close>): REQUEST_CHAIN is answered with the chain as JSON, the answer goes
  through the write queue, the wire format and the reading loop, and the receiver rebuilds the
  blocks and offers them to \<^verbatim>\<open>replaceChain\<close>.
\<close>

section \<open>Messages that reach their handler\<close>

definition fresh_message :: "node_env \<Rightarrow> nat \<Rightarrow> Message \<Rightarrow> Node \<Rightarrow> bool" where
  "fresh_message env i msg s \<longleftrightarrow> \<not> peersMutex s \<and>
     \<not> isBanned (getEndpoint (the_peer i s)) (peerScorer s) \<and>
     \<not> snd (isRateLimited (steady env) 100 (the_peer i s)) \<and>
     (\<forall>text t. dump (ne_jt env) (-1) (msg_payload msg) = Inr text \<longrightarrow>
        sm_get (messageDedup s) (dec (type_number (msg_type msg)) @ '':'' @ sha256 (ne_ossl env) text) = Some t \<longrightarrow>
        dedupWindowSec (timeouts (options s)) \<le> age_seconds (steady env) t)"

lemma handle_fresh:
  assumes "fresh_message env i msg s" "dump (ne_jt env) (-1) (msg_payload msg) = Inr text"
    and "msg_type msg \<noteq> PING" "msg_type msg \<noteq> PONG"
  obtains s1 where
    "handleMessage env i msg s = act_then (dispatch env i (getEndpoint (the_peer i s)) msg) refreshMetrics s1"
    "chain_view s1 = chain_view s" "\<not> peersMutex s1" "writeQueue (the_peer i s1) = writeQueue (the_peer i s)"
proof -
  obtain p where p: "isRateLimited (steady env) 100 (the_peer i s) = (p, False)" "writeQueue p = writeQueue (the_peer i s)"
    using assms(1) by (auto simp: fresh_message_def isRateLimited_def Let_def)
  let ?k = "dec (type_number (msg_type msg)) @ '':'' @ sha256 (ne_ossl env) text"
  have d: "\<not> (case sm_get (messageDedup s) ?k of None \<Rightarrow> False
      | Some t \<Rightarrow> age_seconds (steady env) t < dedupWindowSec (timeouts (options s)))"
    using assms(1,2) by (auto simp: fresh_message_def split: option.splits)
  have f: "\<not> peersMutex s" "\<not> isBanned (getEndpoint (the_peer i s)) (peerScorer s)"
    using assms(1) by (simp_all add: fresh_message_def)
  let ?s = "s\<lparr>peer_object := (peer_object s)(i := p),
    messageDedup := sm_filter (\<lambda>t. \<not> age_seconds (steady env) t > dedupWindowSec (timeouts (options s)))
      (sm_put ?k (steady env) (messageDedup s)),
    peerScorer := markSeen (steady env) (getEndpoint (the_peer i s)) (peerScorer s)\<rparr>"
  have "handleMessage env i msg s = act_then (dispatch env i (getEndpoint (the_peer i s)) msg) refreshMetrics ?s"
    using f(2) p(1) d assms(2-4)
    by (simp add: handleMessage_def update_peer_def remember_message_def upd_scorer_def Let_def del: append.simps)
  then show ?thesis
    by (rule that) (use f p(2) in \<open>simp_all add: chain_view_def the_peer_def\<close>)
qed

lemma refreshMetrics_returns:
  "\<not> peersMutex s \<Longrightarrow> \<exists>s'. refreshMetrics s = (s', Returned ()) \<and> chain_view s' = chain_view s \<and>
     peer_object s' = peer_object s"
  by (simp add: refreshMetrics_def act_bind_eval[OF getPeerList_eval] chain_view_def)


section \<open>What follows a step\<close>

text \<open>Actions after the decisive one that leave the chain alone do not change the outcome for it.\<close>

lemma view_bind: "(\<And>x. keeps (=) (k x)) \<Longrightarrow> chain_view (fst (act_bind m k s)) = chain_view (fst (m s))"
  by (cases "m s") (auto simp: act_bind_def keeps_def split: outcome.splits)

lemma view_then: "keeps (=) n \<Longrightarrow> chain_view (fst (act_then m n s)) = chain_view (fst (m s))"
  unfolding act_then_def by (rule view_bind)

lemma view_catch: "(\<And>e. keeps (=) (h e)) \<Longrightarrow> chain_view (fst (act_catch m h s)) = chain_view (fst (m s))"
  by (cases "m s") (auto simp: act_catch_def keeps_def split: outcome.splits)

lemma view_call_chain:
  "chain_view (fst (call_chain env f s)) =
     (case f (blockchain s) (disk s) of (bc, d, r, ev) \<Rightarrow> (bc, d))"
proof -
  obtain bc d r ev where f: "f (blockchain s) (disk s) = (bc, d, r, ev)" by (cases "f (blockchain s) (disk s)") auto
  have "keeps (=) (act_then (run_callbacks env ev) (act_lift r))" by (intro keeps_intros)
  then have "chain_view (s\<lparr>blockchain := bc, disk := d\<rparr>) =
      chain_view (fst (act_then (run_callbacks env ev) (act_lift r) (s\<lparr>blockchain := bc, disk := d\<rparr>)))"
    unfolding keeps_def by (rule spec)
  then show ?thesis by (simp add: call_chain_def f chain_view_def)
qed

lemma view_on_chain:
  assumes "emap (block_fromJson (ne_ossl env)) (jelems (msg_payload msg)) = Inr new"
  shows "chain_view (fst (on_chain env key msg s)) =
    (case replaceChain (ne_jt env) (ne_ossl env) (ne_io env) (wall env) new (blockchain s) (disk s) of
       (bc, d, r, ev) \<Rightarrow> (bc, d))"
proof -
  have q: "keeps (=) (if r then rewardPeerByEndpoint key REWARD_VALID_BLOCK else act_return ())" for r
    by (intro keeps_intros)
  have p: "keeps (=) (penalizePeerByEndpoint env key PENALTY_INVALID_BLOCK)" by (intro keeps_intros)
  show ?thesis
    unfolding on_chain_def view_catch[OF p] assms act_simps view_bind[OF q] by (rule view_call_chain)
qed


section \<open>The two sides of the exchange\<close>

definition chain_request :: Message where
  "chain_request = \<lparr>msg_type = REQUEST_CHAIN, msg_payload = empty_payload\<rparr>"

definition chain_answer :: "Node \<Rightarrow> Message" where
  "chain_answer s = \<lparr>msg_type = RESPONSE_CHAIN, msg_payload = chainToJson (blockchain s)\<rparr>"

lemma chain_answer_plain: "\<forall>b \<in> set (chain (blockchain s)). plain_block b \<Longrightarrow> json_plain (msg_payload (chain_answer s))"
  by (simp add: chain_answer_def chainToJson_def plain_block_json)

lemma dump_plain: "json_text_ok jt \<Longrightarrow> json_plain j \<Longrightarrow> \<exists>text. dump jt i j = Inr text"
  unfolding json_text_ok_def by blast

lemma request_answered:
  assumes "json_text_ok (ne_jt env)" "\<forall>b \<in> set (chain (blockchain s)). plain_block b"
    and "fresh_message env i chain_request s" "length (writeQueue (the_peer i s)) < 1000"
  shows "\<exists>s' d. handleMessage env i chain_request s = (s', Returned ()) \<and> chain_view s' = chain_view s \<and>
    writeQueue (the_peer i s') = writeQueue (the_peer i s) @ [frame d] \<and> deserialize (ne_jt env) d = chain_answer s"
proof -
  have "json_plain (msg_payload chain_request)"
    by (simp add: chain_request_def empty_payload_def json_plain_JObj sm_ordered_def)
  then obtain u where t: "dump (ne_jt env) (-1) (msg_payload chain_request) = Inr u"
    using dump_plain[OF assms(1)] by blast
  obtain s1 where h: "handleMessage env i chain_request s =
        act_then (dispatch env i (getEndpoint (the_peer i s)) chain_request) refreshMetrics s1"
      "chain_view s1 = chain_view s" "\<not> peersMutex s1" "writeQueue (the_peer i s1) = writeQueue (the_peer i s)"
    by (rule handle_fresh[OF assms(3) t]) (simp_all add: chain_request_def)
  have b: "blockchain s1 = blockchain s" using h(2) by (simp add: chain_view_def)
  obtain d where d: "serialize (ne_jt env) (chain_answer s) = Inr (frame d)" "deserialize (ne_jt env) d = chain_answer s"
    using serialize_parts[OF assms(1) chain_answer_plain[OF assms(2)]] by blast
  let ?s2 = "s1\<lparr>peer_object := (peer_object s1)(i := enqueue (frame d) (peer_object s1 i))\<rparr>"
  have "dispatch env i (getEndpoint (the_peer i s)) chain_request s1 = (?s2, Returned ())"
    using d(1) by (simp add: dispatch_def chain_request_def b peer_send_def chain_answer_def update_peer_def)
  then have e: "handleMessage env i chain_request s = refreshMetrics ?s2" by (simp add: h(1) act_then_eval)
  have "\<not> peersMutex ?s2" "chain_view ?s2 = chain_view s" using h(2,3) by (simp_all add: chain_view_def)
  moreover have "writeQueue (the_peer i ?s2) = writeQueue (the_peer i s) @ [frame d]"
    using h(4) assms(4) by (simp add: the_peer_def enqueue_def MAX_WRITE_QUEUE_def Let_def)
  ultimately show ?thesis using refreshMetrics_returns[of ?s2] d(2) e by (auto simp: the_peer_def)
qed

lemma answer_adopted:
  assumes "json_text_ok (ne_jt env)" "\<forall>b \<in> set (chain (blockchain a)). plain_block b"
    and "fresh_message env i (chain_answer a) s"
  shows "chain_view (fst (handleMessage env i (chain_answer a) s)) =
    (case replaceChain (ne_jt env) (ne_ossl env) (ne_io env) (wall env) (chain (blockchain a)) (blockchain s) (disk s)
     of (bc, d, r, ev) \<Rightarrow> (bc, d))"
proof -
  obtain u where t: "dump (ne_jt env) (-1) (msg_payload (chain_answer a)) = Inr u"
    using dump_plain[OF assms(1) chain_answer_plain[OF assms(2)]] by blast
  obtain s1 where h: "handleMessage env i (chain_answer a) s =
        act_then (dispatch env i (getEndpoint (the_peer i s)) (chain_answer a)) refreshMetrics s1"
      "chain_view s1 = chain_view s"
    by (rule handle_fresh[OF assms(3) t]) (simp_all add: chain_answer_def)
  have "emap (block_fromJson (ne_ossl env)) (jelems (msg_payload (chain_answer a))) = Inr (chain (blockchain a))"
    using assms(2) by (simp add: chain_answer_def chainToJson_def jelems_def plain_chain_roundtrip)
  note on_chain = view_on_chain[OF this]
  have d: "dispatch env i k (chain_answer a) = on_chain env k (chain_answer a)" for k
    by (simp add: dispatch_def chain_answer_def)
  show ?thesis
    unfolding h(1) view_then[OF quiet_refreshMetrics] d on_chain using h(2) by (simp add: chain_view_def split: prod.splits)
qed


section \<open>Properties\<close>

text \<open>
  C6. Synchronisation works end to end. If node \<open>a\<close> holds a chain of plain text and handles a
  REQUEST_CHAIN that is not throttled, it puts one frame into the write queue of that connection
  and keeps its chain; the reading loop of the other side turns the frame, unless it is over
  10 MB, into the message with exactly that chain; and a node \<open>b\<close> that handles this message, with
  any file-system faults, afterwards has the chain of \<open>a\<close> with the state rebuilt from it if the
  chain is longer than its own and valid for its engine and clock, and otherwise is unchanged.
\<close>

theorem chain_synchronises:
  assumes "json_text_ok jt" "ne_jt enva = jt" "ne_jt envb = jt"
    and "\<forall>blk \<in> set (chain (blockchain a)). plain_block blk"
    and "fresh_message enva i chain_request a" "length (writeQueue (the_peer i a)) < 1000"
    and "fresh_message envb k (chain_answer a) b"
    and "program_engine (ne_ossl envb) (consensusEngine (blockchain b))"
  shows "\<exists>a' d. handleMessage enva i chain_request a = (a', Returned ()) \<and> blockchain a' = blockchain a \<and>
    writeQueue (the_peer i a') = writeQueue (the_peer i a) @ [frame d] \<and>
    (length d \<le> 10 * 1024 * 1024 \<longrightarrow> read_stream jt (frame d) q = (close_peer q, [chain_answer a])) \<and>
    (let b' = fst (handleMessage envb k (chain_answer a) b)
     in if length (chain (blockchain b)) < length (chain (blockchain a)) \<and>
           validateChainAgainstConsensus (ne_ossl envb) (consensusEngine (blockchain b)) (wall envb) (chain (blockchain a))
        then chain (blockchain b') = chain (blockchain a) \<and>
          stateManager (blockchain b') = rebuildState (chain (blockchain a))
        else blockchain b' = blockchain b \<and> disk b' = disk b)"
proof -
  obtain a' d where a: "handleMessage enva i chain_request a = (a', Returned ())" "chain_view a' = chain_view a"
      "writeQueue (the_peer i a') = writeQueue (the_peer i a) @ [frame d]" "deserialize jt d = chain_answer a"
    using request_answered[of enva a i] assms(1,2,4-6) by auto
  have r: "read_stream jt (frame d) q = (close_peer q, [chain_answer a])" if "length d \<le> 10 * 1024 * 1024"
    using read_stream_frame[OF that, of jt "[]" q] a(4)
    by (simp add: read_stream_end chain_answer_def Let_def)
  let ?b' = "fst (handleMessage envb k (chain_answer a) b)"
  have v: "(blockchain ?b', disk ?b') =
      (case replaceChain jt (ne_ossl envb) (ne_io envb) (wall envb) (chain (blockchain a)) (blockchain b) (disk b)
       of (bc, d, r, ev) \<Rightarrow> (bc, d))"
    using answer_adopted[of envb a k b] assms(1,3,4,7) by (simp add: chain_view_def)
  have "if length (chain (blockchain b)) < length (chain (blockchain a)) \<and>
        validateChainAgainstConsensus (ne_ossl envb) (consensusEngine (blockchain b)) (wall envb) (chain (blockchain a))
      then chain (blockchain ?b') = chain (blockchain a) \<and> stateManager (blockchain ?b') = rebuildState (chain (blockchain a))
      else blockchain ?b' = blockchain b \<and> disk ?b' = disk b"
    using v unfolding replaceChain_def program_engine_longer[OF assms(8)]
    by (auto simp: Let_def split: option.splits sum.splits if_splits)
  with a r show ?thesis by (auto simp: chain_view_def Let_def)
qed

text \<open>The demo node after its first block, and the same node before it.\<close>

lemma demo_two_blocks:
  obtains g b where "isChainValid demo_openssl [g, b]" "plain_block g" "plain_block b"
proof -
  obtain g bc0 where n: "createGenesis demo_openssl 1 = Some g"
      "new_blockchain demo_json demo_openssl no_faults 0 1 None None Map.empty = Some (Inr (bc0, Map.empty))"
      "chain bc0 = [g]" "mempool bc0 = []" "consensusEngine bc0 = None" "storage bc0 = None"
      "stateManager bc0 = rebuildState [g]" "bc_difficulty bc0 = 1"
    by (rule demo_new_blockchain[of 0 None])
  let ?n = "new_block demo_openssl 0 1 (hash g) [mining_coinbase demo_openssl 0 demo_from] 1"
  obtain b where b: "mineBlock demo_openssl ?n = Some b" by (rule demo_mines[of ?n]) simp
  have "valid_genesis demo_openssl g" using genesis_valid[OF n(1)] by simp
  moreover have "valid_link demo_openssl 1 b g"
    using mineBlock_valid[OF b] by (simp add: valid_link_iff hasValidTransactions_iff)
  ultimately have v: "isChainValid demo_openssl [g, b]" by simp
  have g: "plain_block g" using n(1) by (rule demo_genesis_plain)
  have "ascii demo_from" "demo_from \<noteq> []"
    using sha256_ascii[of demo_openssl "''22''"]
    by (auto simp: demo_from_def deriveAddressV2_def ascii_def dest: in_set_takeD)
  then have "plain_block b" using demo_mined_plain[OF b] g by (simp add: plain_block_def)
  with v g show ?thesis by (rule that)
qed

theorem chain_synchronises_witness:
  "\<exists>a b. length (chain (blockchain a)) = 2 \<and> length (chain (blockchain b)) = 1 \<and>
     chain (blockchain (fst (handleMessage demo_node_env 0 (chain_answer a) b))) = chain (blockchain a)"
proof -
  obtain g b where v: "isChainValid demo_openssl [g, b]" "plain_block g" "plain_block b" by (rule demo_two_blocks)
  define node where "node c = (demo_node [] 1)\<lparr>blockchain :=
    (empty_blockchain 1 None None)\<lparr>chain := c, stateManager := rebuildState c\<rparr>\<rparr>" for c
  have n: "chain (blockchain (node c)) = c" "consensusEngine (blockchain (node c)) = None"
      "writeQueue (the_peer 0 (node c)) = []" for c
    by (simp_all add: node_def empty_blockchain_def the_peer_def demo_node_def new_peer_def)
  have f: "fresh_message demo_node_env 0 msg (node c)" for msg c
    by (simp add: node_def fresh_message_def demo_node_def isBanned_def sm_get_def isRateLimited_def new_peer_def
        the_peer_def Let_def)
  have e: "ne_jt demo_node_env = demo_json" "ne_ossl demo_node_env = demo_openssl" by (simp_all add: demo_node_env_def)
  have val: "validateChainAgainstConsensus demo_openssl None t [g, b]" for t
    using v(1) by (simp add: validateChainAgainstConsensus_def del: isChainValid.simps)
  have c: "length (chain (blockchain (node [g]))) < length (chain (blockchain (node [g, b]))) \<and>
      validateChainAgainstConsensus (ne_ossl demo_node_env) (consensusEngine (blockchain (node [g])))
        (wall demo_node_env) (chain (blockchain (node [g, b])))"
    by (simp add: n e val)
  have p: "\<forall>blk \<in> set (chain (blockchain (node [g, b]))). plain_block blk" using v by (simp add: n)
  have q: "length (writeQueue (the_peer 0 (node [g, b]))) < 1000"
      "program_engine (ne_ossl demo_node_env) (consensusEngine (blockchain (node [g])))"
    by (simp_all add: n program_engine_def)
  have "chain (blockchain (fst (handleMessage demo_node_env 0 (chain_answer (node [g, b])) (node [g])))) =
      chain (blockchain (node [g, b]))"
    using chain_synchronises[OF demo_json_ok e(1) e(1) p f q(1) f q(2), of "new_peer None"]
    unfolding Let_def if_P[OF c] by blast
  then show ?thesis
    by (intro exI[of _ "node [g, b]"] exI[of _ "node [g]"]) (simp add: n)
qed

end
