(* ===== verification/Json_Dump.thy ===== *)
theory Json_Dump
  imports Json Crypto
begin

unbundle bit_operations_syntax

text \<open>
  The serializer of the JSON library (class \<^verbatim>\<open>serializer\<close> of \<^verbatim>\<open>include/utils/json.hpp\<close>): the UTF-8
  decoder, the escaping of strings through a buffer of 512 bytes, the conversion of integers in
  a buffer of 64 bytes, and the recursive output of values, compact or indented. The output
  stream is the string written so far; when an exception leaves the serializer, the caller's
  string is gone. Binary values, which the program never builds, are left out, and the shortest
  representation of a double (\<^verbatim>\<open>to_chars\<close>) is a parameter.
\<close>

section \<open>The UTF-8 decoder\<close>

text \<open>The first 256 entries of the table map bytes to classes, the others are the transitions.\<close>

definition utf8_classes :: "nat list" where
  "utf8_classes =
     replicate 128 0 @ replicate 16 1 @ replicate 16 9 @ replicate 32 7 @ replicate 2 8 @ replicate 30 2 @
     [10] @ replicate 12 3 @ [4] @ replicate 2 3 @ [11] @ replicate 3 6 @ [5] @ replicate 11 8"

definition utf8_transitions :: "nat list list" where
  "utf8_transitions =
     [[0, 1, 2, 3, 5, 8, 7, 1, 1, 1, 4, 6, 1, 1, 1, 1],
      [1, 1, 1, 1, 1, 1, 1, 1, 1, 1, 1, 1, 1, 1, 1, 1],
      [1, 0, 1, 1, 1, 1, 1, 0, 1, 0, 1, 1, 1, 1, 1, 1],
      [1, 2, 1, 1, 1, 1, 1, 2, 1, 2, 1, 1, 1, 1, 1, 1],
      [1, 1, 1, 1, 1, 1, 1, 2, 1, 1, 1, 1, 1, 1, 1, 1],
      [1, 2, 1, 1, 1, 1, 1, 1, 1, 2, 1, 1, 1, 1, 1, 1],
      [1, 1, 1, 1, 1, 1, 1, 3, 1, 3, 1, 1, 1, 1, 1, 1],
      [1, 3, 1, 1, 1, 1, 1, 3, 1, 3, 1, 1, 1, 1, 1, 1],
      [1, 3, 1, 1, 1, 1, 1, 1, 1, 1, 1, 1, 1, 1, 1, 1]]"

definition utf8d :: "nat list" where
  "utf8d = utf8_classes @ concat utf8_transitions"

definition UTF8_ACCEPT :: nat where "UTF8_ACCEPT = 0"

definition UTF8_REJECT :: nat where "UTF8_REJECT = 1"

text \<open>The new state and code point.\<close>

definition decode :: "nat \<Rightarrow> u32 \<Rightarrow> nat \<Rightarrow> nat \<times> u32" where
  "decode state codep b =
     (let type = utf8d ! b;
          codep' = (if state \<noteq> UTF8_ACCEPT then (of_nat b AND 0x3f) OR push_bit 6 codep
                    else drop_bit type 0xFF AND of_nat b);
          index = 256 + state * 16 + type
      in (utf8d ! index, codep'))"


section \<open>Escaping\<close>

datatype error_handler_t = Handler_strict | Handler_replace | Handler_ignore

definition bslash :: "char \<Rightarrow> string" where
  "bslash c = [CHR 0x5C, c]"

text \<open>\<^verbatim>\<open>snprintf\<close> with the format \<^verbatim>\<open>%04x\<close>.\<close>

definition hex4 :: "u16 \<Rightarrow> string" where
  "hex4 w = map (\<lambda>k. hex_digit (unat (drop_bit k w AND 0xF))) [12, 8, 4, 0]"

text \<open>What is written for a code point whose last byte is \<open>c\<close>.\<close>

definition escape_codepoint :: "bool \<Rightarrow> u32 \<Rightarrow> char \<Rightarrow> string" where
  "escape_codepoint ensure_ascii codepoint c =
     (if codepoint = 0x08 then bslash CHR ''b''
      else if codepoint = 0x09 then bslash CHR ''t''
      else if codepoint = 0x0A then bslash CHR ''n''
      else if codepoint = 0x0C then bslash CHR ''f''
      else if codepoint = 0x0D then bslash CHR ''r''
      else if codepoint = 0x22 then bslash CHR 0x22
      else if codepoint = 0x5C then bslash CHR 0x5C
      else if codepoint \<le> 0x1F \<or> (ensure_ascii \<and> 0x7F \<le> codepoint)
      then (if codepoint \<le> 0xFFFF then bslash CHR ''u'' @ hex4 (ucast codepoint)
            else bslash CHR ''u'' @ hex4 (ucast (0xD7C0 + drop_bit 10 codepoint)) @
                 bslash CHR ''u'' @ hex4 (ucast (0xDC00 + (codepoint AND 0x3FF))))
      else [c])"

text \<open>\<open>es_out\<close> is what has been passed to the output stream; \<open>string_buffer\<close> holds \<^verbatim>\<open>bytes\<close> bytes.\<close>

record escape_state =
  es_out :: string
  string_buffer :: string
  es_state :: nat
  es_codep :: u32
  bytes_after_last_accept :: nat
  undumped_chars :: nat

definition escape_init :: escape_state where
  "escape_init = \<lparr>es_out = [], string_buffer = [], es_state = UTF8_ACCEPT, es_codep = 0,
     bytes_after_last_accept = 0, undumped_chars = 0\<rparr>"

text \<open>Write the buffer out when fewer than 13 of its 512 bytes are left.\<close>

definition flush_buffer :: "escape_state \<Rightarrow> escape_state" where
  "flush_buffer e =
     (if 512 - length (string_buffer e) < 13
      then e\<lparr>es_out := es_out e @ string_buffer e, string_buffer := []\<rparr> else e)"

definition accepted :: "bool \<Rightarrow> char \<Rightarrow> escape_state \<Rightarrow> escape_state" where
  "accepted ensure_ascii c e =
     (let e1 = flush_buffer (e\<lparr>string_buffer := string_buffer e @ escape_codepoint ensure_ascii (es_codep e) c\<rparr>)
      in e1\<lparr>bytes_after_last_accept := length (string_buffer e1), undumped_chars := 0\<rparr>)"

definition replacement :: "bool \<Rightarrow> string" where
  "replacement ensure_ascii =
     (if ensure_ascii then bslash CHR ''u'' @ ''fffd'' else [CHR 0xEF, CHR 0xBF, CHR 0xBD])"

definition rejected :: "error_handler_t \<Rightarrow> bool \<Rightarrow> escape_state \<Rightarrow> escape_state" where
  "rejected h ensure_ascii e =
     (let e1 = e\<lparr>string_buffer := take (bytes_after_last_accept e) (string_buffer e)\<rparr>;
          e2 = (if h = Handler_replace
                then let r = flush_buffer (e1\<lparr>string_buffer := string_buffer e1 @ replacement ensure_ascii\<rparr>)
                     in r\<lparr>bytes_after_last_accept := length (string_buffer r)\<rparr>
                else e1)
      in e2\<lparr>undumped_chars := 0, es_state := UTF8_ACCEPT\<rparr>)"

text \<open>
  The loop over the bytes. A byte that breaks off a sequence is read a second time on its own.
\<close>

function escape_loop :: "error_handler_t \<Rightarrow> bool \<Rightarrow> string \<Rightarrow> escape_state \<Rightarrow> escape_state result" where
  "escape_loop h ensure_ascii [] e = Inr e"
| "escape_loop h ensure_ascii (c # cs) e =
     (let (st, codep) = decode (es_state e) (es_codep e) (of_char c);
          e1 = e\<lparr>es_state := st, es_codep := codep\<rparr>
      in if st = UTF8_ACCEPT then escape_loop h ensure_ascii cs (accepted ensure_ascii c e1)
         else if st = UTF8_REJECT then
           (if h = Handler_strict then Inl (JsonException 316)
            else if undumped_chars e1 > 0 then escape_loop h ensure_ascii (c # cs) (rejected h ensure_ascii e1)
            else escape_loop h ensure_ascii cs (rejected h ensure_ascii e1))
         else escape_loop h ensure_ascii cs
                (e1\<lparr>string_buffer := (if ensure_ascii then string_buffer e1 else string_buffer e1 @ [c]),
                    undumped_chars := undumped_chars e1 + 1\<rparr>))"
  by pat_completeness auto
termination
  by (relation "measures [\<lambda>(h, a, s, e). length s, \<lambda>(h, a, s, e). undumped_chars e]")
    (auto simp: rejected_def Let_def)

declare escape_loop.simps(2) [simp del]

definition dump_escaped :: "error_handler_t \<Rightarrow> bool \<Rightarrow> string \<Rightarrow> string result" where
  "dump_escaped h ensure_ascii s =
     ebind (escape_loop h ensure_ascii s escape_init) (\<lambda>e.
       if es_state e = UTF8_ACCEPT then Inr (es_out e @ string_buffer e)
       else (case h of
           Handler_strict \<Rightarrow> Inl (JsonException 316)
         | Handler_ignore \<Rightarrow> Inr (es_out e @ take (bytes_after_last_accept e) (string_buffer e))
         | Handler_replace \<Rightarrow> Inr (es_out e @ take (bytes_after_last_accept e) (string_buffer e) @
                                 replacement ensure_ascii)))"


section \<open>Integers\<close>

function count_digits_loop :: "u64 \<Rightarrow> nat \<Rightarrow> nat" where
  "count_digits_loop x n_digits =
     (if x < 10 then n_digits
      else if x < 100 then n_digits + 1
      else if x < 1000 then n_digits + 2
      else if x < 10000 then n_digits + 3
      else count_digits_loop (x div 10000) (n_digits + 4))"
  by pat_completeness auto
termination
  by (relation "measure (\<lambda>(x, n). unat x)") (auto simp: unat_div word_less_nat_alt)

declare count_digits_loop.simps [simp del]

definition count_digits :: "u64 \<Rightarrow> nat" where
  "count_digits x = count_digits_loop x 1"

definition digits_to_99 :: "nat \<Rightarrow> char \<times> char" where
  "digits_to_99 k = (digit_char (k div 10), digit_char (k mod 10))"

text \<open>\<^verbatim>\<open>*(--buffer_ptr) = c\<close> on the buffer and the position of the pointer.\<close>

definition put_before :: "char \<Rightarrow> string \<times> nat \<Rightarrow> string \<times> nat" where
  "put_before c bp = ((fst bp)[snd bp - 1 := c], snd bp - 1)"

definition put_pair :: "nat \<Rightarrow> string \<times> nat \<Rightarrow> string \<times> nat" where
  "put_pair k bp = put_before (fst (digits_to_99 k)) (put_before (snd (digits_to_99 k)) bp)"

function write_digits :: "u64 \<Rightarrow> string \<times> nat \<Rightarrow> string \<times> nat" where
  "write_digits abs_value bp =
     (if 100 \<le> abs_value then write_digits (abs_value div 100) (put_pair (unat (abs_value mod 100)) bp)
      else if 10 \<le> abs_value then put_pair (unat abs_value) bp
      else put_before (char_of (48 + unat abs_value)) bp)"
  by pat_completeness auto
termination
  by (relation "measure (\<lambda>(x, bp). unat x)") (auto simp: unat_div word_le_nat_alt)

declare write_digits.simps [simp del]

definition number_buffer :: string where
  "number_buffer = replicate 64 (CHR 0x00)"

definition remove_sign :: "int \<Rightarrow> u64" where
  "remove_sign x = word_of_int (- (x + 1)) + 1"

definition dump_number :: "bool \<Rightarrow> u64 \<Rightarrow> string" where
  "dump_number negative abs_value =
     (let buf = (if negative then number_buffer[0 := CHR ''-''] else number_buffer);
          n_chars = (if negative then 1 else 0) + count_digits abs_value
      in take n_chars (fst (write_digits abs_value (buf, n_chars))))"

definition dump_integer :: "int \<Rightarrow> string" where
  "dump_integer x =
     (if x = 0 then ''0''
      else if x < 0 then dump_number True (remove_sign x) else dump_number False (word_of_int x))"

definition dump_unsigned :: "u64 \<Rightarrow> string" where
  "dump_unsigned x = (if x = 0 then ''0'' else dump_number False x)"


section \<open>Values\<close>

definition indent :: "nat \<Rightarrow> string" where
  "indent n = replicate n CHR '' ''"

text \<open>What the serializer is constructed with; \<open>float_chars\<close> is \<^verbatim>\<open>to_chars\<close> on a double.\<close>

record serializer =
  error_handler :: error_handler_t
  float_chars :: "rat \<Rightarrow> string"

fun dump_value :: "serializer \<Rightarrow> bool \<Rightarrow> bool \<Rightarrow> nat \<Rightarrow> nat \<Rightarrow> json \<Rightarrow> string result"
  and dump_members :: "serializer \<Rightarrow> bool \<Rightarrow> bool \<Rightarrow> nat \<Rightarrow> nat \<Rightarrow> (string \<times> json) list \<Rightarrow> string result"
  and dump_elements :: "serializer \<Rightarrow> bool \<Rightarrow> bool \<Rightarrow> nat \<Rightarrow> nat \<Rightarrow> json list \<Rightarrow> string result" where
  "dump_value S pretty ascii_only step cur (JObj kvs) =
     (if kvs = [] then Inr ''{}''
      else if pretty then
        ebind (dump_members S True ascii_only step (cur + step) kvs) (\<lambda>t.
          Inr (''{'' @ [CHR 0x0A] @ t @ [CHR 0x0A] @ indent cur @ ''}''))
      else ebind (dump_members S False ascii_only step cur kvs) (\<lambda>t. Inr (''{'' @ t @ ''}'')))"
| "dump_value S pretty ascii_only step cur (JArr xs) =
     (if xs = [] then Inr ''[]''
      else if pretty then
        ebind (dump_elements S True ascii_only step (cur + step) xs) (\<lambda>t.
          Inr (''['' @ [CHR 0x0A] @ t @ [CHR 0x0A] @ indent cur @ '']''))
      else ebind (dump_elements S False ascii_only step cur xs) (\<lambda>t. Inr (''['' @ t @ '']'')))"
| "dump_value S pretty ascii_only step cur (JStr s) =
     ebind (dump_escaped (error_handler S) ascii_only s) (\<lambda>t. Inr (CHR 0x22 # t @ [CHR 0x22]))"
| "dump_value S pretty ascii_only step cur (JBool b) = Inr (if b then ''true'' else ''false'')"
| "dump_value S pretty ascii_only step cur (JInt i) = Inr (dump_integer i)"
| "dump_value S pretty ascii_only step cur (JUInt w) = Inr (dump_unsigned w)"
| "dump_value S pretty ascii_only step cur (JFloat r) = Inr (float_chars S r)"
| "dump_value S pretty ascii_only step cur JNull = Inr ''null''"
| "dump_members S pretty ascii_only step cur [] = Inr []"
| "dump_members S pretty ascii_only step cur ((k, v) # kvs) =
     ebind (dump_escaped (error_handler S) ascii_only k) (\<lambda>t.
     ebind (dump_value S pretty ascii_only step cur v) (\<lambda>u.
     ebind (if kvs = [] then Inr []
            else ebind (dump_members S pretty ascii_only step cur kvs) (\<lambda>rest.
              Inr ('','' @ (if pretty then [CHR 0x0A] else []) @ rest))) (\<lambda>rest.
       Inr ((if pretty then indent cur else []) @ [CHR 0x22] @ t @ [CHR 0x22] @
            (if pretty then '': '' else '':'') @ u @ rest))))"
| "dump_elements S pretty ascii_only step cur [] = Inr []"
| "dump_elements S pretty ascii_only step cur (x # xs) =
     ebind (dump_value S pretty ascii_only step cur x) (\<lambda>u.
     ebind (if xs = [] then Inr []
            else ebind (dump_elements S pretty ascii_only step cur xs) (\<lambda>rest.
              Inr ('','' @ (if pretty then [CHR 0x0A] else []) @ rest))) (\<lambda>rest.
       Inr ((if pretty then indent cur else []) @ u @ rest)))"

text \<open>The method \<^verbatim>\<open>dump\<close> of a value.\<close>

definition json_dump :: "(rat \<Rightarrow> string) \<Rightarrow> int \<Rightarrow> bool \<Rightarrow> error_handler_t \<Rightarrow> json \<Rightarrow> string result" where
  "json_dump floats ind ensure_ascii h j =
     (let S = \<lparr>error_handler = h, float_chars = floats\<rparr>
      in if 0 \<le> ind then dump_value S True ensure_ascii (nat ind) 0 j
         else dump_value S False ensure_ascii 0 0 j)"

end
