(* ===== verification/Json_Strings.thy ===== *)
theory Json_Strings
  imports Json_Dump
begin

text \<open>
  What the serializer does to strings and integers: the decoder accepts exactly the well-formed
  UTF-8 strings of the Unicode standard, the escaping loop writes byte by byte what
  \<open>escape_byte\<close> says and fails on every other string, its buffer never overflows, and integers
  come out as the decimal numbers of the \<open>Prelude\<close>.
\<close>

section \<open>Well-formed UTF-8\<close>

definition byte_in :: "nat \<Rightarrow> nat \<Rightarrow> char \<Rightarrow> bool" where
  "byte_in lo hi c \<longleftrightarrow> lo \<le> of_char c \<and> of_char c \<le> hi"

abbreviation cont :: "char \<Rightarrow> bool" where
  "cont \<equiv> byte_in 0x80 0xBF"

text \<open>The table of well-formed byte sequences of the Unicode standard.\<close>

fun utf8_char :: "string \<Rightarrow> bool" where
  "utf8_char [a] \<longleftrightarrow> byte_in 0 0x7F a"
| "utf8_char [a, b] \<longleftrightarrow> byte_in 0xC2 0xDF a \<and> cont b"
| "utf8_char [a, b, c] \<longleftrightarrow>
     (byte_in 0xE0 0xE0 a \<and> byte_in 0xA0 0xBF b \<or>
      (byte_in 0xE1 0xEC a \<or> byte_in 0xEE 0xEF a) \<and> cont b \<or>
      byte_in 0xED 0xED a \<and> byte_in 0x80 0x9F b) \<and> cont c"
| "utf8_char [a, b, c, d] \<longleftrightarrow>
     (byte_in 0xF0 0xF0 a \<and> byte_in 0x90 0xBF b \<or>
      byte_in 0xF1 0xF3 a \<and> cont b \<or>
      byte_in 0xF4 0xF4 a \<and> byte_in 0x80 0x8F b) \<and> cont c \<and> cont d"
| "utf8_char _ \<longleftrightarrow> False"

inductive utf8 :: "string \<Rightarrow> bool" where
  Nil: "utf8 []"
| Cons: "utf8_char u \<Longrightarrow> utf8 s \<Longrightarrow> utf8 (u @ s)"

lemma utf8_append: "utf8 s \<Longrightarrow> utf8 t \<Longrightarrow> utf8 (s @ t)"
  by (induction rule: utf8.induct) (auto intro: utf8.Cons)

lemma utf8_charI: "utf8_char u \<Longrightarrow> utf8 u"
  using utf8.Cons[OF _ utf8.Nil] by auto

lemma ascii_utf8: "ascii s \<Longrightarrow> utf8 s"
proof (induction s)
  case (Cons c s)
  then have "utf8_char [c]" "utf8 s" by (auto simp: ascii_def byte_in_def)
  then show ?case using utf8.Cons[of "[c]" s] by simp
qed (rule utf8.Nil)


section \<open>The decoder as an automaton\<close>

definition dfa :: "nat \<Rightarrow> nat \<Rightarrow> nat" where
  "dfa q b = utf8d ! (256 + q * 16 + utf8d ! b)"

definition byte_class :: "nat \<Rightarrow> nat" where
  "byte_class b =
     (if b < 128 then 0 else if b < 144 then 1 else if b < 160 then 9 else if b < 192 then 7
      else if b < 194 then 8 else if b < 224 then 2 else if b = 224 then 10 else if b < 237 then 3
      else if b = 237 then 4 else if b < 240 then 3 else if b = 240 then 11 else if b < 244 then 6
      else if b = 244 then 5 else 8)"

lemma length_utf8_classes: "length utf8_classes = 256"
  by (simp add: utf8_classes_def)

lemma utf8_classes_eq: "utf8_classes = map byte_class [0..<256]"
  by code_simp

lemma utf8d_class:
  assumes "b < 256"
  shows "utf8d ! b = byte_class b"
proof -
  have "utf8d ! b = utf8_classes ! b"
    using assms by (simp only: utf8d_def nth_append length_utf8_classes if_True)
  also have "\<dots> = byte_class ([0..<256] ! b)"
    unfolding utf8_classes_eq by (rule nth_map) (use assms in \<open>simp only: length_upt\<close>)
  also have "[0..<256] ! b = b"
    using nth_upt[of 0 b 256] assms by (simp only: add_0)
  finally show ?thesis .
qed

lemma transitions_all:
  "list_all (\<lambda>q. list_all (\<lambda>k. concat utf8_transitions ! (q * 16 + k) = utf8_transitions ! q ! k)
     [0..<16]) [0..<9]"
  by code_simp

lemma transitions_nth:
  "q < 9 \<Longrightarrow> k < 16 \<Longrightarrow> concat utf8_transitions ! (q * 16 + k) = utf8_transitions ! q ! k"
  using transitions_all by (simp only: list_all_iff set_upt atLeast0LessThan lessThan_iff Ball_def)

lemma byte_class_less: "byte_class b < 16"
  by (simp add: byte_class_def)

lemma dfa_row:
  assumes "b < 256" "q < 9"
  shows "dfa q b = utf8_transitions ! q ! byte_class b"
proof -
  have "utf8d ! (256 + (q * 16 + k)) = concat utf8_transitions ! (q * 16 + k)" for k
    by (simp add: utf8d_def nth_append length_utf8_classes)
  then show ?thesis
    using assms transitions_nth byte_class_less[of b] by (simp add: dfa_def utf8d_class add.assoc)
qed

lemmas dfa_table = dfa_row utf8_transitions_def byte_class_def

lemma dfa_0: "b < 256 \<Longrightarrow> dfa 0 b =
    (if b < 128 then 0 else if b < 194 then 1 else if b < 224 then 2 else if b = 224 then 4
     else if b = 237 then 5 else if b < 240 then 3 else if b = 240 then 6 else if b < 244 then 7
     else if b = 244 then 8 else 1)"
  by (auto simp: dfa_table)

lemma dfa_1: "b < 256 \<Longrightarrow> dfa 1 b = 1"
  by (auto simp: dfa_table)

lemma dfa_2: "b < 256 \<Longrightarrow> dfa 2 b = (if 128 \<le> b \<and> b < 192 then 0 else 1)"
  by (auto simp: dfa_table)

lemma dfa_3: "b < 256 \<Longrightarrow> dfa 3 b = (if 128 \<le> b \<and> b < 192 then 2 else 1)"
  by (auto simp: dfa_table)

lemma dfa_4: "b < 256 \<Longrightarrow> dfa 4 b = (if 160 \<le> b \<and> b < 192 then 2 else 1)"
  by (auto simp: dfa_table)

lemma dfa_5: "b < 256 \<Longrightarrow> dfa 5 b = (if 128 \<le> b \<and> b < 160 then 2 else 1)"
  by (auto simp: dfa_table)

lemma dfa_6: "b < 256 \<Longrightarrow> dfa 6 b = (if 144 \<le> b \<and> b < 192 then 3 else 1)"
  by (auto simp: dfa_table)

lemma dfa_7: "b < 256 \<Longrightarrow> dfa 7 b = (if 128 \<le> b \<and> b < 192 then 3 else 1)"
  by (auto simp: dfa_table)

lemma dfa_8: "b < 256 \<Longrightarrow> dfa 8 b = (if 128 \<le> b \<and> b < 144 then 3 else 1)"
  by (auto simp: dfa_table)

lemmas dfa_rows = dfa_0 dfa_1 dfa_2 dfa_3 dfa_4 dfa_5 dfa_6 dfa_7 dfa_8


definition dfa_run :: "nat \<Rightarrow> string \<Rightarrow> nat" where
  "dfa_run q s = foldl (\<lambda>q c. dfa q (of_char c)) q s"

lemma dfa_run_simps [simp]:
  "dfa_run q [] = q"
  "dfa_run q (c # s) = dfa_run (dfa q (of_char c)) s"
  by (simp_all add: dfa_run_def)

lemma dfa_run_1 [simp]: "dfa_run 1 s = 1"
  by (induction s) (simp_all add: dfa_1[unfolded One_nat_def])

lemma dfa_run_append: "dfa_run q (s @ t) = dfa_run (dfa_run q s) t"
  by (simp add: dfa_run_def)

lemma utf8_char_cases:
  assumes "utf8_char u"
  obtains a where "u = [a]" | a b where "u = [a, b]" | a b c where "u = [a, b, c]"
    | a b c d where "u = [a, b, c, d]"
  using assms by (cases u rule: utf8_char.cases) auto

lemma of_char_256: "(of_char c :: nat) < 256"
  by (metis of_char_mod_256 mod_less_divisor zero_less_numeral)

lemma dfa_0_lead:
  "byte_in 0 0x7F a \<Longrightarrow> dfa 0 (of_char a) = 0"
  "byte_in 0xC2 0xDF a \<Longrightarrow> dfa 0 (of_char a) = 2"
  "byte_in 0xE0 0xE0 a \<Longrightarrow> dfa 0 (of_char a) = 4"
  "byte_in 0xE1 0xEC a \<Longrightarrow> dfa 0 (of_char a) = 3"
  "byte_in 0xED 0xED a \<Longrightarrow> dfa 0 (of_char a) = 5"
  "byte_in 0xEE 0xEF a \<Longrightarrow> dfa 0 (of_char a) = 3"
  "byte_in 0xF0 0xF0 a \<Longrightarrow> dfa 0 (of_char a) = 6"
  "byte_in 0xF1 0xF3 a \<Longrightarrow> dfa 0 (of_char a) = 7"
  "byte_in 0xF4 0xF4 a \<Longrightarrow> dfa 0 (of_char a) = 8"
  by (simp_all add: byte_in_def dfa_0)

lemma dfa_cont_byte:
  "cont b \<Longrightarrow> dfa 2 (of_char b) = 0"
  "cont b \<Longrightarrow> dfa 3 (of_char b) = 2"
  "byte_in 0xA0 0xBF b \<Longrightarrow> dfa 4 (of_char b) = 2"
  "byte_in 0x80 0x9F b \<Longrightarrow> dfa 5 (of_char b) = 2"
  "byte_in 0x90 0xBF b \<Longrightarrow> dfa 6 (of_char b) = 3"
  "cont b \<Longrightarrow> dfa 7 (of_char b) = 3"
  "byte_in 0x80 0x8F b \<Longrightarrow> dfa 8 (of_char b) = 3"
  by (simp_all add: byte_in_def dfa_rows)

lemma dfa_utf8_char: "utf8_char u \<Longrightarrow> dfa_run 0 u = 0"
  by (cases u rule: utf8_char.cases) (auto simp: dfa_0_lead dfa_cont_byte)

lemma utf8_dfa: "utf8 s \<Longrightarrow> dfa_run 0 s = 0"
  by (induction rule: utf8.induct) (simp_all add: dfa_run_append dfa_utf8_char)

text \<open>What the automaton still expects in each state.\<close>

lemma dfa_cont:
  assumes "q \<in> {2, 3, 4, 5, 6, 7, 8}" "dfa_run q s = 0"
  obtains b t where "s = b # t" "dfa q (of_char b) \<noteq> 1" "dfa_run (dfa q (of_char b)) t = 0"
proof (cases s)
  case Nil
  then show ?thesis using assms by auto
next
  case (Cons b t)
  then have "dfa_run (dfa q (of_char b)) t = 0" using assms by simp
  moreover from this have "dfa q (of_char b) \<noteq> 1" using dfa_run_1[of t] by (metis zero_neq_one)
  ultimately show ?thesis using that Cons by blast
qed

lemma dfa_2_cont:
  assumes "dfa_run 2 s = 0"
  obtains b t where "s = b # t" "cont b" "dfa_run 0 t = 0"
proof -
  obtain b t where "s = b # t" "dfa 2 (of_char b) \<noteq> 1" "dfa_run (dfa 2 (of_char b)) t = 0"
    using dfa_cont[of 2 s] assms by auto
  then show ?thesis using that by (auto simp: dfa_2 byte_in_def split: if_splits)
qed

lemma dfa_3_cont:
  assumes "dfa_run 3 s = 0"
  obtains b c t where "s = b # c # t" "cont b" "cont c" "dfa_run 0 t = 0"
proof -
  obtain b t where "s = b # t" "dfa 3 (of_char b) \<noteq> 1" "dfa_run (dfa 3 (of_char b)) t = 0"
    using dfa_cont[of 3 s] assms by auto
  then show ?thesis using that by (auto simp: dfa_3 byte_in_def split: if_splits elim!: dfa_2_cont)
qed

lemma utf8_prefix_dfa:
  assumes "dfa_run 0 (a # s) = 0"
  obtains u t where "a # s = u @ t" "utf8_char u" "dfa_run 0 t = 0"
proof -
  let ?q = "dfa 0 (of_char a)"
  have run: "dfa_run ?q s = 0" using assms by simp
  then have "?q \<noteq> 1" using dfa_run_1[of s] by (metis zero_neq_one)
  then have "?q \<in> {0, 2, 3, 4, 5, 6, 7, 8}" by (auto simp: dfa_0 split: if_splits)
  then consider "?q = 0" | "?q = 2" | "?q = 3" | "?q \<in> {4, 5}" | "?q \<in> {6, 7, 8}" by auto
  then show ?thesis
  proof cases
    case 1
    then have "utf8_char [a]" by (auto simp: dfa_0 byte_in_def split: if_splits)
    then show ?thesis using that[of "[a]" s] 1 run by simp
  next
    case 2
    then obtain b t where "s = b # t" "cont b" "dfa_run 0 t = 0" using run by (auto elim: dfa_2_cont)
    moreover have "byte_in 0xC2 0xDF a" using 2 by (auto simp: dfa_0 byte_in_def split: if_splits)
    ultimately show ?thesis using that[of "[a, b]" t] by simp
  next
    case 3
    then obtain b c t where "s = b # c # t" "cont b" "cont c" "dfa_run 0 t = 0"
      using run by (auto elim: dfa_3_cont)
    moreover have "byte_in 0xE1 0xEC a \<or> byte_in 0xEE 0xEF a"
      using 3 by (auto simp: dfa_0 byte_in_def split: if_splits)
    ultimately show ?thesis using that[of "[a, b, c]" t] by simp
  next
    case 4
    then obtain b t' where b: "s = b # t'" "dfa ?q (of_char b) \<noteq> 1" "dfa_run (dfa ?q (of_char b)) t' = 0"
      using dfa_cont[OF _ run] by auto
    then have "dfa ?q (of_char b) = 2" using 4 by (auto simp: dfa_4 dfa_5 split: if_splits)
    then obtain c t where "t' = c # t" "cont c" "dfa_run 0 t = 0" using b by (auto elim: dfa_2_cont)
    moreover have "byte_in 0xE0 0xE0 a \<and> byte_in 0xA0 0xBF b \<or> byte_in 0xED 0xED a \<and> byte_in 0x80 0x9F b"
      using 4 b(2) by (auto simp: dfa_0 dfa_4 dfa_5 byte_in_def split: if_splits)
    ultimately show ?thesis using that[of "[a, b, c]" t] b(1) by auto
  next
    case 5
    then obtain b t' where b: "s = b # t'" "dfa ?q (of_char b) \<noteq> 1" "dfa_run (dfa ?q (of_char b)) t' = 0"
      using dfa_cont[OF _ run] by auto
    then have "dfa ?q (of_char b) = 3" using 5 by (auto simp: dfa_6 dfa_7 dfa_8 split: if_splits)
    then obtain c d t where "t' = c # d # t" "cont c" "cont d" "dfa_run 0 t = 0"
      using b by (auto elim: dfa_3_cont)
    moreover have "byte_in 0xF0 0xF0 a \<and> byte_in 0x90 0xBF b \<or> byte_in 0xF1 0xF3 a \<and> cont b \<or>
        byte_in 0xF4 0xF4 a \<and> byte_in 0x80 0x8F b"
      using 5 b(2) by (auto simp: dfa_0 dfa_6 dfa_7 dfa_8 byte_in_def split: if_splits)
    ultimately show ?thesis using that[of "[a, b, c, d]" t] b(1) by auto
  qed
qed

lemma utf8_char_nonempty: "utf8_char u \<Longrightarrow> u \<noteq> []"
  by auto

lemma dfa_utf8: "dfa_run 0 s = 0 \<Longrightarrow> utf8 s"
proof (induction s rule: length_induct)
  case (1 s)
  show ?case
  proof (cases s)
    case Nil
    then show ?thesis by (simp add: utf8.Nil)
  next
    case (Cons a r)
    then obtain u t where u: "s = u @ t" "utf8_char u" "dfa_run 0 t = 0"
      using 1 utf8_prefix_dfa[of a r] by metis
    then have "utf8 t" using 1 utf8_char_nonempty by auto
    then show ?thesis using u by (auto intro: utf8.Cons)
  qed
qed

lemma utf8_iff_dfa: "utf8 s \<longleftrightarrow> dfa_run 0 s = 0"
  using utf8_dfa dfa_utf8 by blast


section \<open>Code points\<close>

lemma decode_state: "fst (decode q cp b) = dfa q b"
  by (simp add: decode_def dfa_def Let_def mult.commute)

text \<open>A lead byte gives its payload bits, a continuation byte appends six bits.\<close>

definition lead_ok :: "nat \<Rightarrow> bool" where
  "lead_ok b =
     (let (q, cp) = decode 0 0 b
      in q = 1 \<or> (q = 2 \<and> 2 \<le> cp \<and> cp < 32) \<or> (q \<in> {3, 5, 7, 8} \<and> 1 \<le> cp \<and> cp < 16) \<or>
         (q \<in> {4, 6} \<and> cp = 0))"

lemma lead_all: "list_all lead_ok [128..<256]"
  by code_simp

lemma decode_lead:
  assumes "128 \<le> b" "b < 256" "decode 0 cp0 b = (q, cp)"
  shows "q = 1 \<or> (q = 2 \<and> 2 \<le> cp \<and> cp < 32) \<or> (q \<in> {3, 5, 7, 8} \<and> 1 \<le> cp \<and> cp < 16) \<or>
    (q \<in> {4, 6} \<and> cp = 0)"
proof -
  have "decode 0 0 b = (q, cp)" using assms(3) by (simp add: decode_def UTF8_ACCEPT_def)
  moreover have "lead_ok b" using lead_all assms(1,2) by (simp only: list_all_iff set_upt atLeastLessThan_iff)
  ultimately show ?thesis by (simp add: lead_ok_def)
qed

lemma decode_ascii: "b < 128 \<Longrightarrow> decode 0 cp0 b = (0, of_nat b)"
proof -
  assume b: "b < 128"
  have "(0xFF :: u32) AND of_nat b = of_nat b"
  proof -
    have "take_bit 8 (of_nat b :: u32) = of_nat b"
      using b by (simp add: take_bit_word_eq_self unsigned_of_nat word_less_nat_alt take_bit_nat_eq_self
        flip: of_nat_take_bit)
    moreover have "(0xFF :: u32) = mask 8" by (simp add: mask_eq_exp_minus_1)
    ultimately show ?thesis by (simp add: take_bit_eq_mask and.commute)
  qed
  moreover have "utf8d ! b = 0" using b by (simp add: utf8d_class byte_class_def)
  moreover have "fst (decode 0 cp0 b) = 0" using b by (simp add: decode_state dfa_0)
  ultimately show ?thesis by (simp add: decode_def UTF8_ACCEPT_def Let_def)
qed

lemma decode_cont:
  assumes "q \<noteq> 0" "unat cp < 2 ^ 26"
  shows "unat (snd (decode q cp b)) = 64 * unat cp + b mod 64"
proof -
  have m: "(0x3f :: u32) = mask 6" by (simp add: mask_eq_exp_minus_1)
  have "(of_nat b AND 0x3f) OR push_bit 6 cp = (of_nat b AND 0x3f) + push_bit 6 cp"
    unfolding m by (subst disjunctive_add) (auto simp: bit_simps)
  moreover have "unat (of_nat b AND (0x3f :: u32)) = b mod 64"
    unfolding m by (simp add: take_bit_eq_mask[symmetric] unsigned_of_nat take_bit_eq_mod unat_mod mod_mod_cancel)
  moreover have "unat (push_bit 6 cp) = 64 * unat cp"
    using assms(2) by (simp add: push_bit_eq_mult unat_word_ariths)
  ultimately show ?thesis
    using assms by (simp add: decode_def UTF8_ACCEPT_def Let_def unat_word_ariths)
qed


text \<open>
  Between the bytes of a sequence the code point is at least what makes the final one a
  non-ASCII character, and small enough not to lose bits.
\<close>

fun cp_ok :: "nat \<Rightarrow> nat \<Rightarrow> bool" where
  "cp_ok q cp \<longleftrightarrow>
     (q = 2 \<and> 2 \<le> cp \<and> cp < 2 ^ 18 \<or> q = 3 \<and> 1 \<le> cp \<and> cp < 2 ^ 11 \<or>
      q \<in> {5, 7, 8} \<and> 1 \<le> cp \<and> cp < 16 \<or> q \<in> {4, 6} \<and> cp = 0)"

lemma cont_mod: "128 \<le> b \<Longrightarrow> b < 192 \<Longrightarrow> b mod 64 = b - 128" for b :: nat
  by (rule mod_nat_eqI) simp_all

lemma cp_ok_lead:
  assumes "128 \<le> b" "b < 256" "decode 0 cp0 b = (q, cp)" "q \<noteq> 1"
  shows "cp_ok q (unat cp)"
  using decode_lead[OF assms(1-3)] assms(4) by (auto simp: word_le_nat_alt word_less_nat_alt)

lemma cp_ok_cont:
  assumes "cp_ok q (unat cp)" "b < 256" "decode q cp b = (q', cp')" "q' \<noteq> 1"
  shows "if q' = 0 then 128 \<le> unat cp' \<and> unat cp' < 2 ^ 25 else cp_ok q' (unat cp')"
proof -
  have q: "q \<noteq> 0" "unat cp < 2 ^ 26" using assms(1) by auto
  have cp': "unat cp' = 64 * unat cp + b mod 64" using decode_cont[OF q, of b] assms(3) by simp
  have d: "dfa q b = q'" using decode_state[of q cp b] assms(3) by simp
  have m: "b mod 64 < 64" by simp
  consider "q = 2" | "q = 3" | "q = 4" | "q = 5" | "q = 6" | "q = 7" | "q = 8" using assms(1) by auto
  then show ?thesis
  proof cases
    case 1
    then have "q' = 0" using d assms(2,4) by (auto simp: dfa_2 split: if_splits)
    moreover have "2 \<le> unat cp" "unat cp < 2 ^ 18" using 1 assms(1) by simp_all
    ultimately show ?thesis using cp' m by simp
  next
    case 2
    then have "q' = 2" using d assms(2,4) by (auto simp: dfa_3 split: if_splits)
    moreover have "1 \<le> unat cp" "unat cp < 2 ^ 11" using 2 assms(1) by simp_all
    ultimately show ?thesis using cp' m by simp
  next
    case 3
    then have "q' = 2" "160 \<le> b" "b < 192" using d assms(2,4) by (auto simp: dfa_4 split: if_splits)
    moreover from this have "32 \<le> b mod 64" by (simp add: cont_mod)
    ultimately show ?thesis using 3 assms(1) cp' m by simp
  next
    case 4
    then have "q' = 2" using d assms(2,4) by (auto simp: dfa_5 split: if_splits)
    moreover have "1 \<le> unat cp" "unat cp < 16" using 4 assms(1) by simp_all
    ultimately show ?thesis using cp' m by simp
  next
    case 5
    then have "q' = 3" "144 \<le> b" "b < 192" using d assms(2,4) by (auto simp: dfa_6 split: if_splits)
    moreover from this have "16 \<le> b mod 64" by (simp add: cont_mod)
    ultimately show ?thesis using 5 assms(1) cp' m by simp
  next
    case 6
    then have "q' = 3" using d assms(2,4) by (auto simp: dfa_7 split: if_splits)
    moreover have "1 \<le> unat cp" "unat cp < 16" using 6 assms(1) by simp_all
    ultimately show ?thesis using cp' m by simp
  next
    case 7
    then have "q' = 3" using d assms(2,4) by (auto simp: dfa_8 split: if_splits)
    moreover have "1 \<le> unat cp" "unat cp < 16" using 7 assms(1) by simp_all
    ultimately show ?thesis using cp' m by simp
  qed
qed


section \<open>What the escaping writes\<close>

definition escape_byte :: "char \<Rightarrow> string" where
  "escape_byte c = (if (of_char c :: nat) < 128 then escape_codepoint False (of_char c) c else [c])"

definition escape_text :: "string \<Rightarrow> string" where
  "escape_text s = concat (map escape_byte s)"

lemma escape_text_simps [simp]:
  "escape_text [] = []"
  "escape_text (c # s) = escape_byte c @ escape_text s"
  by (simp_all add: escape_text_def)

lemma escape_high: "128 \<le> unat cp \<Longrightarrow> escape_codepoint False cp c = [c]"
  by (auto simp: escape_codepoint_def word_le_nat_alt)

lemma flush_out: "es_out (flush_buffer e) @ string_buffer (flush_buffer e) = es_out e @ string_buffer e"
  by (simp add: flush_buffer_def)

lemma flush_state [simp]:
  "es_state (flush_buffer e) = es_state e" "es_codep (flush_buffer e) = es_codep e"
  by (simp_all add: flush_buffer_def)

definition es_text :: "escape_state \<Rightarrow> string" where
  "es_text e = es_out e @ string_buffer e"

lemma accepted_simps:
  "es_text (accepted a c e) = es_text e @ escape_codepoint a (es_codep e) c"
  "es_state (accepted a c e) = es_state e" "es_codep (accepted a c e) = es_codep e"
  using flush_out[of "e\<lparr>string_buffer := string_buffer e @ escape_codepoint a (es_codep e) c\<rparr>"]
  by (simp_all add: accepted_def Let_def es_text_def)

lemma es_text_update [simp]:
  "es_text (e\<lparr>es_state := q, es_codep := cp\<rparr>) = es_text e"
  "es_text (e\<lparr>es_state := q, es_codep := cp, string_buffer := string_buffer e @ t, undumped_chars := n\<rparr>) =
     es_text e @ t"
  by (simp_all add: es_text_def)

definition es_ok :: "escape_state \<Rightarrow> bool" where
  "es_ok e \<longleftrightarrow> es_state e = 0 \<or> cp_ok (es_state e) (unat (es_codep e))"

lemma dfa_ascii:
  assumes "cp_ok q cp" "b < 128"
  shows "dfa q b = 1"
  using assms by (auto simp: dfa_rows)

lemma escape_loop_strict:
  "es_ok e \<Longrightarrow>
   (if dfa_run (es_state e) s = 1 then escape_loop Handler_strict False s e = Inl (JsonException 316)
    else \<exists>e'. escape_loop Handler_strict False s e = Inr e' \<and> es_state e' = dfa_run (es_state e) s \<and>
           es_text e' = es_text e @ escape_text s)"
proof (induction s arbitrary: e)
  case Nil
  then show ?case by (auto simp: es_ok_def)
next
  case (Cons c s)
  let ?b = "of_char c :: nat"
  obtain q cp where d: "decode (es_state e) (es_codep e) ?b = (q, cp)" by fastforce
  have q: "q = dfa (es_state e) ?b" using decode_state[of "es_state e" "es_codep e" ?b] d by simp
  let ?e1 = "e\<lparr>es_state := q, es_codep := cp\<rparr>"
  consider "q = 1" | "q = 0" | "q \<noteq> 0" "q \<noteq> 1" by blast
  then show ?case
  proof cases
    case 1
    then show ?thesis using d q dfa_run_1[of s]
      by (simp add: escape_loop.simps(2) UTF8_ACCEPT_def UTF8_REJECT_def)
  next
    case 2
    have esc: "escape_codepoint False cp c = escape_byte c"
    proof (cases "?b < 128")
      case True
      have "es_state e = 0"
        using Cons.prems dfa_ascii[of "es_state e" "unat (es_codep e)" ?b] True 2 q by (auto simp: es_ok_def simp del: cp_ok.simps)
      then have "cp = of_nat ?b" using d decode_ascii[OF True] by simp
      then show ?thesis using True by (simp add: escape_byte_def of_char_def)
    next
      case False
      have "es_state e \<noteq> 0"
      proof
        assume "es_state e = 0"
        then show False using 2 q False by (simp add: dfa_0 split: if_splits)
      qed
      then have "128 \<le> unat cp"
        using Cons.prems cp_ok_cont[OF _ of_char_256 d] 2 by (simp add: es_ok_def del: cp_ok.simps)
      then show ?thesis using False by (simp add: escape_byte_def escape_high)
    qed
    have "es_ok (accepted False c ?e1)" by (simp add: es_ok_def accepted_simps 2)
    from Cons.IH[OF this] show ?thesis
      using d q 2 esc by (simp add: escape_loop.simps(2) UTF8_ACCEPT_def accepted_simps split: if_splits)
  next
    case 3
    let ?e2 = "?e1\<lparr>string_buffer := string_buffer e @ [c], undumped_chars := undumped_chars e + 1\<rparr>"
    have cp: "cp_ok q (unat cp)"
    proof (cases "es_state e = 0")
      case True
      then have "128 \<le> ?b" using 3 q by (auto simp: dfa_0 split: if_splits)
      then show ?thesis using cp_ok_lead[OF _ of_char_256 _ 3(2)] d True by metis
    next
      case False
      then show ?thesis
        using Cons.prems cp_ok_cont[OF _ of_char_256 d 3(2)] 3 by (simp add: es_ok_def del: cp_ok.simps)
    qed
    have hi: "\<not> ?b < 128"
      using 3 q Cons.prems dfa_ascii[of "es_state e" "unat (es_codep e)" ?b]
      by (auto simp: es_ok_def dfa_0 simp del: cp_ok.simps)
    have "es_ok ?e2" using cp by (simp add: es_ok_def)
    from Cons.IH[OF this] show ?thesis
      using d q 3 hi by (simp add: escape_loop.simps(2) UTF8_ACCEPT_def UTF8_REJECT_def escape_byte_def split: if_splits)
  qed
qed

lemma dump_escaped_strict:
  "dump_escaped Handler_strict False s =
     (if utf8 s then Inr (escape_text s) else Inl (JsonException 316))"
proof -
  have "es_ok escape_init" by (simp add: es_ok_def escape_init_def UTF8_ACCEPT_def)
  from escape_loop_strict[OF this, of s] show ?thesis
    by (auto simp: dump_escaped_def utf8_iff_dfa escape_init_def UTF8_ACCEPT_def es_text_def split: if_splits)
qed


section \<open>Integers\<close>

lemma dec_small: "n < 10 \<Longrightarrow> dec n = [digit_char n]"
  by (subst dec.simps) simp

lemma dec_0: "dec 0 = ''0''"
  by code_simp

lemma dec_ten: "10 \<le> n \<Longrightarrow> dec n = dec (n div 10) @ [digit_char (n mod 10)]"
  by (subst dec.simps) simp

lemma dec_hundred:
  "100 \<le> n \<Longrightarrow> dec n = dec (n div 100) @ [digit_char (n mod 100 div 10), digit_char (n mod 10)]"
proof -
  assume n: "100 \<le> n"
  have "n mod 100 div 10 = n div 10 mod 10" using mod_mult2_eq[of n 10 10] by simp
  then show ?thesis using n dec_ten[of n] dec_ten[of "n div 10"] by (simp add: div_mult2_eq[symmetric])
qed

lemma length_dec_ten: "10 \<le> n \<Longrightarrow> length (dec n) = length (dec (n div 10)) + 1"
  by (subst dec_ten) simp_all

lemma length_dec_steps:
  "n < 10 \<Longrightarrow> length (dec n) = 1"
  "10 \<le> n \<Longrightarrow> n < 100 \<Longrightarrow> length (dec n) = 2"
  "100 \<le> n \<Longrightarrow> n < 1000 \<Longrightarrow> length (dec n) = 3"
  "1000 \<le> n \<Longrightarrow> n < 10000 \<Longrightarrow> length (dec n) = 4"
  "10000 \<le> n \<Longrightarrow> length (dec n) = length (dec (n div 10000)) + 4"
  by (simp_all add: dec_small length_dec_ten div_mult2_eq[symmetric])

lemma count_digits_loop: "count_digits_loop x n + 1 = n + length (dec (unat x))"
proof (induction x n rule: count_digits_loop.induct)
  case (1 x n)
  show ?case
  proof (cases "x < 10000")
    case True
    then show ?thesis
      by (subst count_digits_loop.simps) (auto simp: word_less_nat_alt length_dec_steps)
  next
    case False
    then have "\<not> x < 10" "\<not> x < 100" "\<not> x < 1000" by (auto simp: word_less_nat_alt)
    with 1 False have "count_digits_loop x n + 1 = n + 4 + length (dec (unat (x div 10000)))"
      by (subst count_digits_loop.simps) simp
    with False show ?thesis by (simp add: word_less_nat_alt length_dec_steps(5) unat_div)
  qed
qed

lemma count_digits: "count_digits x = length (dec (unat x))"
  using count_digits_loop[of x 1] by (simp add: count_digits_def)

lemma put_pair: "put_pair k (p @ [a, b] @ r, length p + 2) =
    (p @ [digit_char (k div 10), digit_char (k mod 10)] @ r, length p)"
  by (simp add: put_pair_def put_before_def digits_to_99_def list_update_append)

lemma two_at_end:
  assumes "length q = Suc (Suc n)"
  obtains q' a b where "q = q' @ [a, b]" "length q' = n"
proof -
  have "q = take n q @ [q ! n, q ! Suc n]"
    using assms id_take_nth_drop[of n q] id_take_nth_drop[of 0 "drop (Suc n) q"] by simp
  then show ?thesis using that[of "take n q"] assms by simp
qed

lemma write_digits:
  "length q = length (dec (unat x)) \<Longrightarrow>
   write_digits x (p @ q @ r, length p + length q) = (p @ dec (unat x) @ r, length p)"
proof (induction x "(p @ q @ r, length p + length q)" arbitrary: q r rule: write_digits.induct)
  case (1 x)
  consider "100 \<le> x" | "10 \<le> x" "x < 100" | "x < 10" using linorder_not_le by blast
  then show ?case
  proof cases
    case 1
    then have dec: "dec (unat x) = dec (unat x div 100) @ [digit_char (unat x mod 100 div 10), digit_char (unat x mod 10)]"
      by (simp add: dec_hundred word_le_nat_alt)
    then obtain q' a b where q: "q = q' @ [a, b]" "length q' = length (dec (unat x div 100))"
      using two_at_end[of q "length (dec (unat x div 100))"] "1.prems" by auto
    let ?ds = "[digit_char (unat x mod 100 div 10), digit_char (unat x mod 10)]"
    have pair: "put_pair (unat (x mod 100)) (p @ q @ r, length p + length q) =
        (p @ q' @ (?ds @ r), length p + length q')"
      using put_pair[of "unat (x mod 100)" "p @ q'" a b r] q(1)
      by (simp add: unat_mod mod_mod_cancel add.assoc)
    have "write_digits (x div 100) (p @ q' @ (?ds @ r), length p + length q') =
        (p @ dec (unat (x div 100)) @ (?ds @ r), length p)"
      using "1.hyps"[OF 1 pair] q(2) by (simp add: unat_div)
    then show ?thesis using 1 pair dec by (subst write_digits.simps) (simp add: unat_div)
  next
    case 2
    then have dec: "dec (unat x) = [digit_char (unat x div 10), digit_char (unat x mod 10)]"
      using dec_ten[of "unat x"] dec_small[of "unat x div 10"] by (simp add: word_le_nat_alt word_less_nat_alt)
    then obtain q' a b where "q = q' @ [a, b]" "length q' = 0" using two_at_end[of q 0] "1.prems" by auto
    then have "q = [a, b]" by simp
    moreover have "\<not> 100 \<le> x" using 2 by (simp add: not_le)
    ultimately show ?thesis using 2 dec put_pair[of "unat x" p a b r]
      by (subst write_digits.simps) simp
  next
    case 3
    then have dec: "dec (unat x) = [digit_char (unat x)]" by (simp add: dec_small word_less_nat_alt)
    then obtain a where "q = [a]" using "1.prems" by (cases q) auto
    moreover have "\<not> 10 \<le> x" "\<not> 100 \<le> x" using 3 by (auto simp: word_le_nat_alt word_less_nat_alt)
    ultimately show ?thesis using dec
      by (subst write_digits.simps) (simp add: put_before_def digit_char_def list_update_append)
  qed
qed

lemma dec_less_power: "n < 10 ^ k \<Longrightarrow> 0 < k \<Longrightarrow> length (dec n) \<le> k"
proof (induction k arbitrary: n)
  case (Suc k)
  show ?case
  proof (cases "n < 10")
    case False
    then have "0 < k" using Suc.prems by (auto intro: Nat.gr0I)
    moreover have "n div 10 < 10 ^ k" using Suc.prems by (simp add: less_mult_imp_div_less mult.commute)
    ultimately show ?thesis using Suc.IH[of "n div 10"] False by (simp add: length_dec_ten)
  qed (simp add: dec_small)
qed simp

lemma length_dec_u64: "length (dec (unat (x :: u64))) \<le> 20"
proof (rule dec_less_power)
  have "unat x < 2 ^ 64" using unsigned_less[of x] by simp
  then show "unat x < 10 ^ 20" by simp
qed simp

lemma dump_number: "dump_number negative x = (if negative then ''-'' else []) @ dec (unat x)"
proof -
  define n where "n = length (dec (unat x))"
  have n: "n \<le> 20" using length_dec_u64[of x] by (simp add: n_def)
  define z where "z = (CHR 0x00 :: char)"
  have split: "replicate (m + k) z = replicate m z @ replicate k z" for m k by (rule replicate_add)
  have buf: "number_buffer = replicate n z @ replicate (64 - n) z"
    using n split[of n "64 - n"] by (simp add: number_buffer_def z_def)
  have neg: "number_buffer[0 := CHR ''-''] = ''-'' @ replicate n z @ replicate (63 - n) z"
    using n split[of 1 63] split[of n "63 - n"] by (simp add: number_buffer_def z_def)
  show ?thesis
  proof (cases negative)
    case True
    then show ?thesis using write_digits[of "replicate n z" x "''-''" "replicate (63 - n) z"]
      by (simp add: dump_number_def count_digits n_def[symmetric] neg)
  next
    case False
    then show ?thesis using write_digits[of "replicate n z" x "[]" "replicate (64 - n) z"]
      by (simp add: dump_number_def count_digits n_def[symmetric] buf)
  qed
qed

lemma dump_unsigned: "dump_unsigned x = to_string x"
  by (simp add: dump_unsigned_def dump_number to_string_def dec_0)

lemma unat_word_of_int: "0 \<le> x \<Longrightarrow> x < 2 ^ 64 \<Longrightarrow> unat (word_of_int x :: u64) = nat x"
  by (simp only: unat_eq_nat_uint uint_word_of_int_eq) (simp add: take_bit_int_eq_self)

lemma unat_remove_sign:
  assumes "- (2 ^ 63) \<le> x" "x < 0"
  shows "unat (remove_sign x) = nat (- x)"
proof -
  have "remove_sign x = word_of_int (- (x + 1) + 1)" by (simp only: remove_sign_def of_int_add of_int_1)
  also have "- (x + 1) + 1 = - x" by simp
  finally show ?thesis using assms unat_word_of_int[of "- x"] by simp
qed

lemma dump_integer:
  assumes "- (2 ^ 63) \<le> x" "x < 2 ^ 63"
  shows "dump_integer x = dec_int x"
proof -
  have "unat (word_of_int x :: u64) = nat x" if "0 \<le> x"
    using that assms by (simp add: unat_word_of_int)
  then show ?thesis using assms unat_remove_sign[of x]
    by (auto simp: dump_integer_def dump_number dec_int_def dec_0)
qed



section \<open>The buffer\<close>

text \<open>
  The length of what \<open>snprintf\<close> writes counts its terminating zero byte. \<open>escape_extent\<close> is the
  end of the furthest write into the buffer in a run of the loop.
\<close>

definition written_length :: "string \<Rightarrow> nat" where
  "written_length t = (if 6 \<le> length t then length t + 1 else length t)"

definition accept_extent :: "bool \<Rightarrow> char \<Rightarrow> escape_state \<Rightarrow> nat" where
  "accept_extent a c e = length (string_buffer e) + written_length (escape_codepoint a (es_codep e) c)"

definition reject_extent :: "bool \<Rightarrow> escape_state \<Rightarrow> nat" where
  "reject_extent a e = bytes_after_last_accept e + length (replacement a)"

function escape_extent :: "error_handler_t \<Rightarrow> bool \<Rightarrow> string \<Rightarrow> escape_state \<Rightarrow> nat" where
  "escape_extent h a [] e = length (string_buffer e)"
| "escape_extent h a (c # cs) e =
     (let d = decode (es_state e) (es_codep e) (of_char c);
          e1 = e\<lparr>es_state := fst d, es_codep := snd d\<rparr>
      in if fst d = UTF8_ACCEPT then max (accept_extent a c e1) (escape_extent h a cs (accepted a c e1))
         else if fst d = UTF8_REJECT then
           (if h = Handler_strict then 0
            else max (reject_extent a e1)
                   (escape_extent h a (if undumped_chars e1 > 0 then c # cs else cs) (rejected h a e1)))
         else (let e2 = e1\<lparr>string_buffer := (if a then string_buffer e1 else string_buffer e1 @ [c]),
                           undumped_chars := undumped_chars e1 + 1\<rparr>
               in max (length (string_buffer e2)) (escape_extent h a cs e2)))"
  by pat_completeness auto
termination
  by (relation "measures [\<lambda>(h, a, s, e). length s, \<lambda>(h, a, s, e). undumped_chars e]")
    (auto simp: rejected_def Let_def)

declare escape_extent.simps(2) [simp del]

text \<open>How many bytes of an unfinished sequence can have been read in a state.\<close>

definition sequence_bytes :: "nat \<Rightarrow> nat" where
  "sequence_bytes q = (if q = 0 then 0 else if q = 2 then 3 else if q = 3 then 2 else 1)"

definition buffer_ok :: "bool \<Rightarrow> escape_state \<Rightarrow> bool" where
  "buffer_ok a e \<longleftrightarrow>
     es_state e \<in> {0, 2, 3, 4, 5, 6, 7, 8} \<and> undumped_chars e \<le> sequence_bytes (es_state e) \<and>
     bytes_after_last_accept e \<le> 499 \<and>
     length (string_buffer e) \<le> (if a then 499 else 499 + undumped_chars e)"

lemma dfa_states:
  assumes "q \<in> {0, 2, 3, 4, 5, 6, 7, 8}" "b < 256" "dfa q b \<noteq> 0" "dfa q b \<noteq> 1"
  shows "dfa q b \<in> {0, 2, 3, 4, 5, 6, 7, 8} \<and> sequence_bytes q + 1 \<le> sequence_bytes (dfa q b)"
proof -
  from assms(1) consider "q = 0" | "q = 2" | "q = 3" | "q = 4" | "q = 5" | "q = 6" | "q = 7" | "q = 8" by auto
  then show ?thesis
    using assms(2-4) by cases (simp_all add: dfa_rows sequence_bytes_def split: if_splits)
qed

lemma escape_lengths:
  "written_length (escape_codepoint False cp c) \<le> 7" "written_length (escape_codepoint True cp c) \<le> 13"
proof -
  have "cp \<le> 0x1F \<Longrightarrow> cp \<le> 0xFFFF" by (erule order_trans) simp
  then show "written_length (escape_codepoint False cp c) \<le> 7"
    by (auto simp: written_length_def escape_codepoint_def bslash_def hex4_def)
  show "written_length (escape_codepoint True cp c) \<le> 13"
    by (auto simp: written_length_def escape_codepoint_def bslash_def hex4_def)
qed

lemma flush_length: "length (string_buffer (flush_buffer e)) \<le> 499"
  by (simp add: flush_buffer_def) arith

lemma flush_keeps [simp]:
  "bytes_after_last_accept (flush_buffer e) = bytes_after_last_accept e"
  "undumped_chars (flush_buffer e) = undumped_chars e"
  by (simp_all add: flush_buffer_def)

lemma accepted_buffer:
  "es_state e = 0 \<Longrightarrow> buffer_ok a (accepted b c e)"
  using flush_length by (simp add: buffer_ok_def accepted_def Let_def sequence_bytes_def)

lemma rejected_buffer:
  assumes "bytes_after_last_accept e \<le> 499"
  shows "buffer_ok a (rejected h b e)"
  using assms flush_length by (auto simp: buffer_ok_def rejected_def Let_def sequence_bytes_def min_def UTF8_ACCEPT_def)

lemma escape_extent_bound: "buffer_ok a e \<Longrightarrow> escape_extent h a s e \<le> 512"
proof (induction h a s e rule: escape_extent.induct)
  case (1 h a e)
  then show ?case by (auto simp: buffer_ok_def sequence_bytes_def split: if_splits)
next
  case (2 h a c cs e)
  define d where "d = decode (es_state e) (es_codep e) (of_char c)"
  define e1 where "e1 = e\<lparr>es_state := fst d, es_codep := snd d\<rparr>"
  have st: "fst d = dfa (es_state e) (of_char c)" by (simp add: d_def decode_state)
  have u: "undumped_chars e \<le> 3"
    using "2.prems" by (auto simp: buffer_ok_def sequence_bytes_def split: if_splits)
  have len: "length (string_buffer e) \<le> (if a then 499 else 499 + undumped_chars e)"
    using "2.prems" by (simp add: buffer_ok_def)
  note IH = "2.IH"[OF d_def e1_def]
  consider "fst d = 0" | "fst d = 1" | "fst d \<noteq> 0" "fst d \<noteq> 1" by blast
  then show ?case
  proof cases
    case 1
    have "accept_extent a c e1 \<le> 512"
      using len u escape_lengths[of "snd d" c] by (cases a) (simp_all add: accept_extent_def e1_def)
    moreover have "buffer_ok a (accepted a c e1)" using 1 by (intro accepted_buffer) (simp add: e1_def)
    ultimately show ?thesis using IH(1) 1
      by (simp add: escape_extent.simps(2)[of h _ c cs e] Let_def d_def[symmetric] e1_def UTF8_ACCEPT_def)
  next
    case 2
    have b: "bytes_after_last_accept e1 \<le> 499" using "2.prems" by (simp add: buffer_ok_def e1_def)
    then have "reject_extent a e1 \<le> 512" by (simp add: reject_extent_def replacement_def bslash_def)
    moreover have "buffer_ok a (rejected h a e1)" using b by (rule rejected_buffer)
    ultimately show ?thesis using IH(2) 2
      by (simp add: escape_extent.simps(2)[of h _ c cs e] Let_def d_def[symmetric] e1_def UTF8_ACCEPT_def UTF8_REJECT_def)
  next
    case 3
    let ?e2 = "e1\<lparr>string_buffer := (if a then string_buffer e1 else string_buffer e1 @ [c]),
                  undumped_chars := undumped_chars e1 + 1\<rparr>"
    have "es_state e \<in> {0, 2, 3, 4, 5, 6, 7, 8}" using "2.prems" by (simp add: buffer_ok_def)
    from dfa_states[OF this of_char_256] have "fst d \<in> {0, 2, 3, 4, 5, 6, 7, 8}"
        "sequence_bytes (es_state e) + 1 \<le> sequence_bytes (fst d)"
      using 3 st by auto
    then have ok: "buffer_ok a ?e2" using "2.prems" by (auto simp: buffer_ok_def e1_def)
    have "length (string_buffer ?e2) \<le> 512" using len u by (cases a) (simp_all add: e1_def)
    then show ?thesis using IH(3) ok 3
      by (cases a) (simp_all add: escape_extent.simps(2)[of h _ c cs e] Let_def d_def[symmetric] e1_def UTF8_ACCEPT_def UTF8_REJECT_def)
  qed
qed



section \<open>Properties\<close>

text \<open>
  C20. The escaping loop never writes outside its buffer of 512 bytes: for every string of bytes,
  well-formed or not, every error handler and both output modes, the furthest byte any write
  touches, the terminating zero of \<open>snprintf\<close> included, is within the buffer.
\<close>

theorem escape_buffer_never_overflows: "escape_extent h ensure_ascii s escape_init \<le> 512"
  by (rule escape_extent_bound[where a = ensure_ascii])
    (simp add: buffer_ok_def escape_init_def UTF8_ACCEPT_def)

end
