(* ===== verification/Json_Lexer.thy ===== *)
theory Json_Lexer
  imports Json_Strings Floats
begin

unbundle bit_operations_syntax

text \<open>
  The lexer of the JSON library (class \<^verbatim>\<open>lexer\<close> of \<^verbatim>\<open>include/utils/json.hpp\<close>): reading bytes with
  one byte of look-back, and the scanners for strings, numbers, literals and comments. The input
  adapter is the string still to be read; a byte that \<^verbatim>\<open>get\<close> returns is \<^const>\<open>Some\<close> character and
  the end of the input \<^const>\<open>None\<close>. Positions are unbounded. The decimal point is the one of the
  C locale, which the program never changes. A scanner returns the token and the new lexer.
\<close>

section \<open>Tokens\<close>

datatype token_type =
    uninitialized
  | literal_true
  | literal_false
  | literal_null
  | value_string
  | value_unsigned
  | value_integer
  | value_float
  | begin_array
  | begin_object
  | end_array
  | end_object
  | name_separator
  | value_separator
  | parse_error
  | end_of_input
  | literal_or_value

fun token_type_name :: "token_type \<Rightarrow> string" where
  "token_type_name uninitialized = ''<uninitialized>''"
| "token_type_name literal_true = ''true literal''"
| "token_type_name literal_false = ''false literal''"
| "token_type_name literal_null = ''null literal''"
| "token_type_name value_string = ''string literal''"
| "token_type_name value_unsigned = ''number literal''"
| "token_type_name value_integer = ''number literal''"
| "token_type_name value_float = ''number literal''"
| "token_type_name begin_array = [CHR 0x27, CHR ''['', CHR 0x27]"
| "token_type_name begin_object = [CHR 0x27, CHR ''{'', CHR 0x27]"
| "token_type_name end_array = [CHR 0x27, CHR '']'', CHR 0x27]"
| "token_type_name end_object = [CHR 0x27, CHR ''}'', CHR 0x27]"
| "token_type_name name_separator = [CHR 0x27, CHR '':'', CHR 0x27]"
| "token_type_name value_separator = [CHR 0x27, CHR '','', CHR 0x27]"
| "token_type_name parse_error = ''<parse error>''"
| "token_type_name end_of_input = ''end of input''"
| "token_type_name literal_or_value =
     [CHR 0x27, CHR ''['', CHR 0x27] @ '', '' @ [CHR 0x27, CHR ''{'', CHR 0x27] @ '', or a literal''"


section \<open>Reading bytes\<close>

record position_t =
  chars_read_total :: nat
  chars_read_current_line :: nat
  lines_read :: nat

record lexer =
  ia :: string
  ignore_comments :: bool
  current :: "char option"
  next_unget :: bool
  lx_position :: position_t
  token_string :: string
  token_buffer :: string
  error_message :: string
  number_integer :: int
  number_unsigned :: u64
  number_float :: "rat option"

definition new_lexer :: "string \<Rightarrow> bool \<Rightarrow> lexer" where
  "new_lexer s skip_comments =
     \<lparr>ia = s, ignore_comments = skip_comments, current = None, next_unget = False,
      lx_position = \<lparr>chars_read_total = 0, chars_read_current_line = 0, lines_read = 0\<rparr>,
      token_string = [], token_buffer = [], error_message = [],
      number_integer = 0, number_unsigned = 0, number_float = Some 0\<rparr>"

definition to_char_type :: "char option \<Rightarrow> char" where
  "to_char_type c = (case c of None \<Rightarrow> CHR 0xFF | Some d \<Rightarrow> d)"

definition newline :: char where "newline = CHR 0x0A"

text \<open>The new position after a byte has been read.\<close>

definition advance :: "char option \<Rightarrow> position_t \<Rightarrow> position_t" where
  "advance c p =
     (if c = Some newline
      then \<lparr>chars_read_total = chars_read_total p + 1, chars_read_current_line = 0,
            lines_read = lines_read p + 1\<rparr>
      else \<lparr>chars_read_total = chars_read_total p + 1,
            chars_read_current_line = chars_read_current_line p + 1, lines_read = lines_read p\<rparr>)"

definition get :: "lexer \<Rightarrow> lexer" where
  "get lx =
     (let lx1 = (if next_unget lx then lx\<lparr>next_unget := False\<rparr>
                 else (case ia lx of
                     [] \<Rightarrow> lx\<lparr>current := None\<rparr>
                   | c # cs \<Rightarrow> lx\<lparr>ia := cs, current := Some c\<rparr>));
          lx2 = (case current lx1 of
                   None \<Rightarrow> lx1
                 | Some c \<Rightarrow> lx1\<lparr>token_string := token_string lx1 @ [c]\<rparr>)
      in lx2\<lparr>lx_position := advance (current lx2) (lx_position lx2)\<rparr>)"

definition retreat :: "position_t \<Rightarrow> position_t" where
  "retreat p =
     (let p1 = p\<lparr>chars_read_total := chars_read_total p - 1\<rparr>
      in if chars_read_current_line p1 = 0
         then (if 0 < lines_read p1 then p1\<lparr>lines_read := lines_read p1 - 1\<rparr> else p1)
         else p1\<lparr>chars_read_current_line := chars_read_current_line p1 - 1\<rparr>)"

definition unget :: "lexer \<Rightarrow> lexer" where
  "unget lx =
     lx\<lparr>next_unget := True, lx_position := retreat (lx_position lx),
        token_string := (if current lx = None then token_string lx else butlast (token_string lx))\<rparr>"

definition add :: "char \<Rightarrow> lexer \<Rightarrow> lexer" where
  "add c lx = lx\<lparr>token_buffer := token_buffer lx @ [c]\<rparr>"

definition reset :: "lexer \<Rightarrow> lexer" where
  "reset lx = lx\<lparr>token_buffer := [], token_string := [to_char_type (current lx)]\<rparr>"

definition lex_error :: "string \<Rightarrow> lexer \<Rightarrow> token_type \<times> lexer" where
  "lex_error msg lx = (parse_error, lx\<lparr>error_message := msg\<rparr>)"

text \<open>The bytes that can still be read, with the one put back; it bounds every loop below.\<close>

definition pending :: "lexer \<Rightarrow> nat" where
  "pending lx = length (ia lx) + (if next_unget lx \<and> current lx \<noteq> None then 1 else 0)"

lemma get_pending: "current (get lx) = Some c \<Longrightarrow> pending (get lx) < pending lx"
  by (auto simp: get_def pending_def Let_def split: if_splits list.splits option.splits)

lemma get_pending_le: "pending (get lx) \<le> pending lx"
  by (auto simp: get_def pending_def Let_def split: list.splits option.splits)

lemma add_pending [simp]: "pending (add c lx) = pending lx"
  by (simp add: add_def pending_def)

lemma add_simps [simp]:
  "current (add c lx) = current lx" "ia (add c lx) = ia lx" "next_unget (add c lx) = next_unget lx"
  "token_buffer (add c lx) = token_buffer lx @ [c]" "lx_position (add c lx) = lx_position lx"
  "ignore_comments (add c lx) = ignore_comments lx"
  by (simp_all add: add_def)

lemma error_pending [simp]: "pending (lx\<lparr>error_message := m\<rparr>) = pending lx"
  by (simp add: pending_def)

text \<open>Putting back a byte that was just read leaves no less to read than before, and no more.\<close>

lemma get_next_unget [simp]: "\<not> next_unget (get lx)"
  by (simp add: get_def Let_def split: list.splits option.splits)

lemma unget_pending:
  "pending (unget (get lx)) \<le> pending lx"
  by (auto simp: get_def unget_def pending_def Let_def split: list.splits option.splits)


section \<open>Strings\<close>

text \<open>The loop of \<^verbatim>\<open>get_codepoint\<close> over the shift factors; -1 is the error.\<close>

fun codepoint_loop :: "nat list \<Rightarrow> int \<Rightarrow> lexer \<Rightarrow> int \<times> lexer" where
  "codepoint_loop [] codepoint lx = (codepoint, lx)"
| "codepoint_loop (factor # factors) codepoint lx0 =
     (let lx = get lx0
      in case current lx of
           None \<Rightarrow> (- 1, lx)
         | Some c \<Rightarrow>
             if CHR ''0'' \<le> c \<and> c \<le> CHR ''9''
             then codepoint_loop factors (codepoint + push_bit factor (of_char c - 0x30)) lx
             else if CHR ''A'' \<le> c \<and> c \<le> CHR ''F''
             then codepoint_loop factors (codepoint + push_bit factor (of_char c - 0x37)) lx
             else if CHR ''a'' \<le> c \<and> c \<le> CHR ''f''
             then codepoint_loop factors (codepoint + push_bit factor (of_char c - 0x57)) lx
             else (- 1, lx))"

definition get_codepoint :: "lexer \<Rightarrow> int \<times> lexer" where
  "get_codepoint lx = codepoint_loop [12, 8, 4, 0] 0 lx"

fun range_loop :: "(nat \<times> nat) list \<Rightarrow> lexer \<Rightarrow> bool \<times> lexer" where
  "range_loop [] lx = (True, lx)"
| "range_loop ((lo, hi) # ranges) lx0 =
     (let lx = get lx0;
          bad = (False, lx\<lparr>error_message := ''invalid string: ill-formed UTF-8 byte''\<rparr>)
      in case current lx of
           None \<Rightarrow> bad
         | Some c \<Rightarrow> if lo \<le> of_char c \<and> of_char c \<le> hi then range_loop ranges (add c lx) else bad)"

definition next_byte_in_range :: "(nat \<times> nat) list \<Rightarrow> lexer \<Rightarrow> bool \<times> lexer" where
  "next_byte_in_range ranges lx = range_loop ranges (add (to_char_type (current lx)) lx)"

text \<open>The ranges of the bytes that follow a first byte of a sequence.\<close>

definition following_bytes :: "nat \<Rightarrow> (nat \<times> nat) list option" where
  "following_bytes b =
     (if 0xC2 \<le> b \<and> b \<le> 0xDF then Some [(0x80, 0xBF)]
      else if b = 0xE0 then Some [(0xA0, 0xBF), (0x80, 0xBF)]
      else if 0xE1 \<le> b \<and> b \<le> 0xEC \<or> b = 0xEE \<or> b = 0xEF then Some [(0x80, 0xBF), (0x80, 0xBF)]
      else if b = 0xED then Some [(0x80, 0x9F), (0x80, 0xBF)]
      else if b = 0xF0 then Some [(0x90, 0xBF), (0x80, 0xBF), (0x80, 0xBF)]
      else if 0xF1 \<le> b \<and> b \<le> 0xF3 then Some [(0x80, 0xBF), (0x80, 0xBF), (0x80, 0xBF)]
      else if b = 0xF4 then Some [(0x80, 0x8F), (0x80, 0xBF), (0x80, 0xBF)]
      else None)"

definition codepoint_bytes :: "int \<Rightarrow> string" where
  "codepoint_bytes cp =
     (if cp < 0x80 then [char_of cp]
      else if cp \<le> 0x7FF then
        [char_of (0xC0 OR drop_bit 6 cp), char_of (0x80 OR (cp AND 0x3F))]
      else if cp \<le> 0xFFFF then
        [char_of (0xE0 OR drop_bit 12 cp), char_of (0x80 OR (drop_bit 6 cp AND 0x3F)),
         char_of (0x80 OR (cp AND 0x3F))]
      else
        [char_of (0xF0 OR drop_bit 18 cp), char_of (0x80 OR (drop_bit 12 cp AND 0x3F)),
         char_of (0x80 OR (drop_bit 6 cp AND 0x3F)), char_of (0x80 OR (cp AND 0x3F))])"

definition add_bytes :: "string \<Rightarrow> lexer \<Rightarrow> lexer" where
  "add_bytes s lx = fold add s lx"

definition string_error :: "string \<Rightarrow> lexer \<Rightarrow> bool \<times> lexer" where
  "string_error msg lx = (False, lx\<lparr>error_message := ''invalid string: '' @ msg\<rparr>)"

text \<open>The escape \<^verbatim>\<open>\u\<close>, with the second half of a surrogate pair.\<close>

definition hex_digits_error :: "lexer \<Rightarrow> bool \<times> lexer" where
  "hex_digits_error =
     string_error ([CHR 0x27] @ bslash CHR ''u'' @ [CHR 0x27] @ '' must be followed by 4 hex digits'')"

definition high_surrogate_error :: "lexer \<Rightarrow> bool \<times> lexer" where
  "high_surrogate_error =
     string_error ''surrogate U+D800..U+DBFF must be followed by U+DC00..U+DFFF''"

definition low_surrogate :: "int \<Rightarrow> lexer \<Rightarrow> bool \<times> lexer" where
  "low_surrogate codepoint1 lx0 =
     (let lx = get lx0
      in if current lx \<noteq> Some CHR 0x5C then high_surrogate_error lx
         else let lx1 = get lx
              in if current lx1 \<noteq> Some CHR ''u'' then high_surrogate_error lx1
                 else let (codepoint2, lx2) = get_codepoint lx1
                      in if codepoint2 = - 1 then hex_digits_error lx2
                         else if 0xDC00 \<le> codepoint2 \<and> codepoint2 \<le> 0xDFFF
                         then (True, add_bytes
                                 (codepoint_bytes (push_bit 10 codepoint1 + codepoint2 - 0x35FDC00)) lx2)
                         else high_surrogate_error lx2)"

definition scan_unicode_escape :: "lexer \<Rightarrow> bool \<times> lexer" where
  "scan_unicode_escape lx0 =
     (let (codepoint1, lx) = get_codepoint lx0
      in if codepoint1 = - 1 then hex_digits_error lx
         else if 0xD800 \<le> codepoint1 \<and> codepoint1 \<le> 0xDBFF then low_surrogate codepoint1 lx
         else if 0xDC00 \<le> codepoint1 \<and> codepoint1 \<le> 0xDFFF
         then string_error ''surrogate U+DC00..U+DFFF must follow U+D800..U+DBFF'' lx
         else (True, add_bytes (codepoint_bytes codepoint1) lx))"

text \<open>The byte after a backslash.\<close>

definition scan_escape :: "lexer \<Rightarrow> bool \<times> lexer" where
  "scan_escape lx0 =
     (let lx = get lx0
      in if current lx = Some CHR 0x22 then (True, add CHR 0x22 lx)
         else if current lx = Some CHR 0x5C then (True, add CHR 0x5C lx)
         else if current lx = Some CHR ''/'' then (True, add CHR ''/'' lx)
         else if current lx = Some CHR ''b'' then (True, add CHR 0x08 lx)
         else if current lx = Some CHR ''f'' then (True, add CHR 0x0C lx)
         else if current lx = Some CHR ''n'' then (True, add CHR 0x0A lx)
         else if current lx = Some CHR ''r'' then (True, add CHR 0x0D lx)
         else if current lx = Some CHR ''t'' then (True, add CHR 0x09 lx)
         else if current lx = Some CHR ''u'' then scan_unicode_escape lx
         else string_error ''forbidden character after backslash'' lx)"

text \<open>The messages for the bytes 0 to 31.\<close>

definition hex_upper :: "nat \<Rightarrow> char" where
  "hex_upper d = (if d < 10 then char_of (48 + d) else char_of (55 + d))"

definition hex4_upper :: "nat \<Rightarrow> string" where
  "hex4_upper b = ''00'' @ [hex_upper (b div 16), hex_upper (b mod 16)]"

definition control_names :: "string list" where
  "control_names =
     [''NUL'', ''SOH'', ''STX'', ''ETX'', ''EOT'', ''ENQ'', ''ACK'', ''BEL'', ''BS'', ''HT'', ''LF'',
      ''VT'', ''FF'', ''CR'', ''SO'', ''SI'', ''DLE'', ''DC1'', ''DC2'', ''DC3'', ''DC4'', ''NAK'', ''SYN'',
      ''ETB'', ''CAN'', ''EM'', ''SUB'', ''ESC'', ''FS'', ''GS'', ''RS'', ''US'']"

definition short_escape :: "nat \<Rightarrow> string" where
  "short_escape b =
     (if b = 0x08 then '' or '' @ bslash CHR ''b'' else if b = 0x09 then '' or '' @ bslash CHR ''t''
      else if b = 0x0A then '' or '' @ bslash CHR ''n'' else if b = 0x0C then '' or '' @ bslash CHR ''f''
      else if b = 0x0D then '' or '' @ bslash CHR ''r'' else [])"

definition control_message :: "nat \<Rightarrow> string" where
  "control_message b =
     ''invalid string: control character U+'' @ hex4_upper b @ '' ('' @ control_names ! b @
     '') must be escaped to '' @ bslash CHR ''u'' @ hex4_upper b @ short_escape b"

lemma codepoint_pending: "pending (snd (codepoint_loop fs cp lx)) \<le> pending lx"
proof (induction fs arbitrary: cp lx)
  case (Cons f fs)
  then show ?case
    by (auto simp: Let_def get_pending_le split: option.splits intro: order_trans[OF Cons.IH get_pending_le])
qed simp

lemma range_pending: "pending (snd (range_loop rs lx)) \<le> pending lx"
proof (induction rs arbitrary: lx)
  case (Cons r rs)
  have "pending (snd (range_loop rs (add c (get lx)))) \<le> pending lx" for c
    using Cons.IH[of "add c (get lx)"] get_pending_le[of lx] by simp
  then show ?case by (cases r) (auto simp: Let_def get_pending_le split: option.splits)
qed simp

lemma next_byte_pending: "pending (snd (next_byte_in_range rs lx)) \<le> pending lx"
  using range_pending[of rs "add (to_char_type (current lx)) lx"] by (simp add: next_byte_in_range_def)

lemma add_bytes_pending [simp]: "pending (add_bytes s lx) = pending lx"
  by (induction s arbitrary: lx) (simp_all add: add_bytes_def)

lemma string_error_pending [simp]: "pending (snd (string_error m lx)) = pending lx"
  by (simp add: string_error_def)

lemma low_surrogate_pending: "pending (snd (low_surrogate cp lx)) \<le> pending lx"
  using get_pending_le[of lx] get_pending_le[of "get lx"] codepoint_pending[of "[12, 8, 4, 0]" 0 "get (get lx)"]
  by (auto simp: low_surrogate_def Let_def high_surrogate_error_def hex_digits_error_def get_codepoint_def
      split: prod.splits)

lemma unicode_pending: "pending (snd (scan_unicode_escape lx)) \<le> pending lx"
proof -
  obtain cp lx1 where cp: "get_codepoint lx = (cp, lx1)" by fastforce
  then have "pending lx1 \<le> pending lx"
    using codepoint_pending[of "[12, 8, 4, 0]" 0 lx] by (simp add: get_codepoint_def)
  then show ?thesis using low_surrogate_pending[of cp lx1]
    by (simp add: scan_unicode_escape_def cp hex_digits_error_def)
qed

lemma escape_pending: "pending (snd (scan_escape lx)) \<le> pending lx"
  using get_pending_le[of lx] unicode_pending[of "get lx"] by (simp add: scan_escape_def Let_def)

text \<open>\<^verbatim>\<open>scan_string\<close>: the loop after the opening quote.\<close>

function string_loop :: "lexer \<Rightarrow> token_type \<times> lexer" where
  "string_loop lx0 =
     (let lx = get lx0
      in case current lx of
           None \<Rightarrow> lex_error ''invalid string: missing closing quote'' lx
         | Some c \<Rightarrow>
             if c = CHR 0x22 then (value_string, lx)
             else if c = CHR 0x5C
             then (let r = scan_escape lx in if fst r then string_loop (snd r) else (parse_error, snd r))
             else if of_char c \<le> (0x1F :: nat) then lex_error (control_message (of_char c)) lx
             else if of_char c \<le> (0x7F :: nat) then string_loop (add c lx)
             else (case following_bytes (of_char c) of
                     None \<Rightarrow> lex_error ''invalid string: ill-formed UTF-8 byte'' lx
                   | Some ranges \<Rightarrow>
                       (let r = next_byte_in_range ranges lx
                        in if fst r then string_loop (snd r) else (parse_error, snd r))))"
  by pat_completeness auto
termination
proof (relation "measure pending", goal_cases)
  case (2 lx0 lx c r)
  then show ?case using get_pending[of lx0 c] escape_pending[of lx] by simp
next
  case (3 lx0 lx c)
  then show ?case using get_pending[of lx0 c] by simp
next
  case (4 lx0 lx c rs r)
  then show ?case using get_pending[of lx0 c] next_byte_pending[of rs lx] by simp
qed simp

declare string_loop.simps [simp del]

definition scan_string :: "lexer \<Rightarrow> token_type \<times> lexer" where
  "scan_string lx = string_loop (reset lx)"


section \<open>Comments\<close>

function line_comment :: "lexer \<Rightarrow> lexer" where
  "line_comment lx0 =
     (let lx = get lx0
      in if current lx \<in> {Some newline, Some CHR 0x0D, None, Some CHR 0x00} then lx else line_comment lx)"
  by pat_completeness auto
termination
proof (relation "measure pending", goal_cases)
  case (2 lx0 lx)
  then show ?case using get_pending[of lx0] by auto
qed simp

function block_comment :: "lexer \<Rightarrow> bool \<times> lexer" where
  "block_comment lx0 =
     (let lx = get lx0
      in if current lx \<in> {None, Some CHR 0x00}
         then (False, lx\<lparr>error_message := ''invalid comment; missing closing '' @ [CHR 0x27] @ ''*/'' @ [CHR 0x27]\<rparr>)
         else if current lx = Some CHR ''*''
         then (let lx1 = get lx
               in if current lx1 = Some CHR ''/'' then (True, lx1) else block_comment (unget lx1))
         else block_comment lx)"
  by pat_completeness auto
termination
proof (relation "measure pending", goal_cases)
  case (2 lx0 lx lx1)
  then show ?case using get_pending[of lx0] unget_pending[of lx] by auto
next
  case (3 lx0 lx)
  then show ?case using get_pending[of lx0] by auto
qed simp

declare line_comment.simps [simp del] block_comment.simps [simp del]

definition scan_comment :: "lexer \<Rightarrow> bool \<times> lexer" where
  "scan_comment lx0 =
     (let lx = get lx0
      in if current lx = Some CHR ''/'' then (True, line_comment lx)
         else if current lx = Some CHR ''*'' then block_comment lx
         else (False, lx\<lparr>error_message := ''invalid comment; expecting '' @ [CHR 0x27] @ ''/'' @ [CHR 0x27] @
                 '' or '' @ [CHR 0x27] @ ''*'' @ [CHR 0x27] @ '' after '' @ [CHR 0x27] @ ''/'' @ [CHR 0x27]\<rparr>))"



section \<open>Numbers\<close>

text \<open>
  The labels of the state machine of \<^verbatim>\<open>scan_number\<close>, and what the byte read in a state leads to:
  the next state with the byte added to the buffer, the end of the number, or an error.
\<close>

datatype number_state =
  Num_minus | Num_zero | Num_any1 | Num_decimal1 | Num_decimal2 | Num_exponent | Num_sign | Num_any2

datatype number_move = Goto number_state char | Num_done | Num_error string

definition exponent_char :: "char \<Rightarrow> bool" where
  "exponent_char c \<longleftrightarrow> c = CHR ''e'' \<or> c = CHR ''E''"

definition no_digit :: "string \<Rightarrow> number_move" where
  "no_digit msg = Num_error (''invalid number; expected '' @ msg)"

fun number_byte :: "number_state \<Rightarrow> char \<Rightarrow> number_move" where
  "number_byte Num_minus c =
     (if c = CHR ''0'' then Goto Num_zero c
      else if is_digit c then Goto Num_any1 c
      else no_digit (''digit after '' @ [CHR 0x27] @ ''-'' @ [CHR 0x27]))"
| "number_byte Num_zero c =
     (if c = CHR ''.'' then Goto Num_decimal1 c
      else if exponent_char c then Goto Num_exponent c else Num_done)"
| "number_byte Num_any1 c =
     (if is_digit c then Goto Num_any1 c
      else if c = CHR ''.'' then Goto Num_decimal1 c
      else if exponent_char c then Goto Num_exponent c else Num_done)"
| "number_byte Num_decimal1 c =
     (if is_digit c then Goto Num_decimal2 c
      else no_digit (''digit after '' @ [CHR 0x27] @ ''.'' @ [CHR 0x27]))"
| "number_byte Num_decimal2 c =
     (if is_digit c then Goto Num_decimal2 c
      else if exponent_char c then Goto Num_exponent c else Num_done)"
| "number_byte Num_exponent c =
     (if c = CHR ''+'' \<or> c = CHR ''-'' then Goto Num_sign c
      else if is_digit c then Goto Num_any2 c
      else no_digit ([CHR 0x27] @ ''+'' @ [CHR 0x27] @ '', '' @ [CHR 0x27] @ ''-'' @ [CHR 0x27] @
             '', or digit after exponent''))"
| "number_byte Num_sign c =
     (if is_digit c then Goto Num_any2 c else no_digit ''digit after exponent sign'')"
| "number_byte Num_any2 c = (if is_digit c then Goto Num_any2 c else Num_done)"

text \<open>The end of the input is treated as a byte that is no part of a number.\<close>

definition number_move :: "number_state \<Rightarrow> char option \<Rightarrow> number_move" where
  "number_move st c = (case c of Some d \<Rightarrow> number_byte st d | None \<Rightarrow> number_byte st (CHR 0x00))"

text \<open>The assignment to \<^verbatim>\<open>number_type\<close> at a label.\<close>

definition number_type :: "number_state \<Rightarrow> token_type \<Rightarrow> token_type" where
  "number_type st t =
     (if st = Num_minus then value_integer
      else if st = Num_decimal1 \<or> st = Num_exponent then value_float else t)"

text \<open>
  \<^verbatim>\<open>strtoull\<close>, \<^verbatim>\<open>strtoll\<close> and \<^verbatim>\<open>strtod\<close> on a number that the state machine has accepted; the result
  \<^const>\<open>None\<close> is \<^verbatim>\<open>ERANGE\<close> for the integers and an infinity for the double.
\<close>

definition strtoull :: "string \<Rightarrow> u64 option" where
  "strtoull s = (let n = undec 0 s in if n < 2 ^ 64 then Some (of_nat n) else None)"

definition strtoll :: "string \<Rightarrow> int option" where
  "strtoll s =
     (let i = (case s of c # ds \<Rightarrow> if c = CHR ''-'' then - int (undec 0 ds) else int (undec 0 s) | [] \<Rightarrow> 0)
      in if - (2 ^ 63) \<le> i \<and> i < 2 ^ 63 then Some i else None)"

definition exponent_value :: "string \<Rightarrow> int" where
  "exponent_value s =
     (case s of
        e # c # ds \<Rightarrow> if c = CHR ''-'' then - int (undec 0 ds)
                       else if c = CHR ''+'' then int (undec 0 ds) else int (undec 0 (c # ds))
      | _ \<Rightarrow> 0)"

definition decimal_value :: "string \<Rightarrow> rat" where
  "decimal_value s =
     (let neg = (s \<noteq> [] \<and> hd s = CHR ''-'');
          t = (if neg then tl s else s);
          whole = takeWhile is_digit t;
          r = dropWhile is_digit t;
          frac = (if r \<noteq> [] \<and> hd r = CHR ''.'' then takeWhile is_digit (tl r) else []);
          r' = (if r \<noteq> [] \<and> hd r = CHR ''.'' then dropWhile is_digit (tl r) else r);
          x = of_nat (undec 0 (whole @ frac)) * 10 powi (exponent_value r' - int (length frac))
      in if neg then - x else x)"

definition strtod :: "string \<Rightarrow> rat option" where
  "strtod s = nearest_double (decimal_value s)"

definition float_token :: "lexer \<Rightarrow> token_type \<times> lexer" where
  "float_token lx = (value_float, lx\<lparr>number_float := strtod (token_buffer lx)\<rparr>)"

definition number_done :: "token_type \<Rightarrow> lexer \<Rightarrow> token_type \<times> lexer" where
  "number_done nt lx0 =
     (let lx = unget lx0
      in if nt = value_unsigned
         then (case strtoull (token_buffer lx) of
                 Some x \<Rightarrow> (value_unsigned, lx\<lparr>number_unsigned := x\<rparr>) | None \<Rightarrow> float_token lx)
         else if nt = value_integer
         then (case strtoll (token_buffer lx) of
                 Some x \<Rightarrow> (value_integer, lx\<lparr>number_integer := x\<rparr>) | None \<Rightarrow> float_token lx)
         else float_token lx)"

text \<open>From a label on.\<close>

function number_loop :: "number_state \<Rightarrow> token_type \<Rightarrow> lexer \<Rightarrow> token_type \<times> lexer" where
  "number_loop st nt0 lx0 =
     (let nt = number_type st nt0; lx = get lx0
      in case number_move st (current lx) of
           Goto st' c \<Rightarrow> number_loop st' nt (add c lx)
         | Num_done \<Rightarrow> number_done nt lx
         | Num_error msg \<Rightarrow> lex_error msg lx)"
  by pat_completeness auto
termination
proof (relation "measure (\<lambda>(st, nt, lx). pending lx)", goal_cases)
  case (2 st nt0 lx0 nt lx st' c)
  then have "current lx \<noteq> None"
    by (cases st; cases "current (get lx0)") (auto simp: number_move_def is_digit_def exponent_char_def no_digit_def)
  then show ?case using 2 get_pending[of lx0] by auto
qed simp

declare number_loop.simps [simp del]

definition scan_number :: "lexer \<Rightarrow> token_type \<times> lexer" where
  "scan_number lx0 =
     (let lx = reset lx0; c = to_char_type (current lx)
      in number_loop (if c = CHR ''-'' then Num_minus else if c = CHR ''0'' then Num_zero else Num_any1)
           value_unsigned (add c lx))"


section \<open>Tokens of the input\<close>

fun literal_loop :: "string \<Rightarrow> token_type \<Rightarrow> lexer \<Rightarrow> token_type \<times> lexer" where
  "literal_loop [] return_type lx = (return_type, lx)"
| "literal_loop (c # cs) return_type lx0 =
     (let lx = get lx0
      in if to_char_type (current lx) \<noteq> c then lex_error ''invalid literal'' lx
         else literal_loop cs return_type lx)"

text \<open>The first character has been compared by \<^verbatim>\<open>scan\<close>.\<close>

definition scan_literal :: "string \<Rightarrow> token_type \<Rightarrow> lexer \<Rightarrow> token_type \<times> lexer" where
  "scan_literal literal_text return_type lx = literal_loop (tl literal_text) return_type lx"

definition get_token_string :: "lexer \<Rightarrow> string" where
  "get_token_string lx =
     concat (map (\<lambda>c. if of_char c \<le> (0x1F :: nat) then ''<U+'' @ hex4_upper (of_char c) @ ''>'' else [c])
       (token_string lx))"

definition skip_bom :: "lexer \<Rightarrow> bool \<times> lexer" where
  "skip_bom lx0 =
     (let lx = get lx0
      in if current lx = Some CHR 0xEF
         then (let lx1 = get lx
               in if current lx1 \<noteq> Some CHR 0xBB then (False, lx1)
                  else let lx2 = get lx1 in (current lx2 = Some CHR 0xBF, lx2))
         else (True, unget lx))"

definition whitespace :: "char \<Rightarrow> bool" where
  "whitespace c \<longleftrightarrow> c = CHR '' '' \<or> c = CHR 0x09 \<or> c = CHR 0x0A \<or> c = CHR 0x0D"

function skip_whitespace :: "lexer \<Rightarrow> lexer" where
  "skip_whitespace lx0 =
     (let lx = get lx0
      in case current lx of
           Some c \<Rightarrow> if whitespace c then skip_whitespace lx else lx
         | None \<Rightarrow> lx)"
  by pat_completeness auto
termination
proof (relation "measure pending", goal_cases)
  case (2 lx0 lx c)
  then show ?case using get_pending[of lx0 c] by simp
qed simp

declare skip_whitespace.simps [simp del]

lemma skip_whitespace_pending: "pending (skip_whitespace lx) \<le> pending lx"
proof (induction lx rule: skip_whitespace.induct)
  case (1 lx)
  show ?case using 1[OF refl] get_pending_le[of lx]
    by (subst skip_whitespace.simps) (auto simp: Let_def split: option.splits)
qed

lemma skip_whitespace_current:
  "current (skip_whitespace lx) = Some c \<Longrightarrow> pending (skip_whitespace lx) < pending lx"
proof (induction lx rule: skip_whitespace.induct)
  case (1 lx)
  show ?case
  proof (cases "current (get lx)")
    case None
    then show ?thesis using "1.prems" by (simp add: skip_whitespace.simps[of lx] Let_def)
  next
    case (Some d)
    then have less: "pending (get lx) < pending lx" by (rule get_pending)
    show ?thesis
    proof (cases "whitespace d")
      case True
      then have "skip_whitespace lx = skip_whitespace (get lx)"
        using Some by (simp add: skip_whitespace.simps[of lx])
      then show ?thesis using "1.IH"[OF refl Some True] "1.prems" less by simp
    next
      case False
      then show ?thesis using Some less by (simp add: skip_whitespace.simps[of lx])
    qed
  qed
qed

lemma line_comment_pending: "pending (line_comment lx) \<le> pending lx"
proof (induction lx rule: line_comment.induct)
  case (1 lx)
  show ?case using 1[OF refl] get_pending_le[of lx]
    by (subst line_comment.simps) (auto simp: Let_def)
qed

lemma block_comment_pending: "pending (snd (block_comment lx)) \<le> pending lx"
proof (induction lx rule: block_comment.induct)
  case (1 lx)
  show ?case
    using 1(1)[OF refl _ _ refl] 1(2)[OF refl] get_pending_le[of lx] get_pending_le[of "get lx"] unget_pending[of "get lx"]
    by (subst block_comment.simps) (auto simp: Let_def)
qed

lemma scan_comment_pending: "pending (snd (scan_comment lx)) \<le> pending lx"
  using get_pending_le[of lx] line_comment_pending[of "get lx"] block_comment_pending[of "get lx"]
  by (auto simp: scan_comment_def Let_def)

text \<open>White space and, where they are allowed, comments; \<open>False\<close> after a broken comment.\<close>

function skip_comments_loop :: "lexer \<Rightarrow> bool \<times> lexer" where
  "skip_comments_loop lx =
     (if ignore_comments lx \<and> current lx = Some CHR ''/''
      then (let r = scan_comment lx
            in if \<not> fst r then r
               else skip_comments_loop (skip_whitespace (snd r)))
      else (True, lx))"
  by pat_completeness auto
termination
proof (relation "measure (\<lambda>lx. pending lx + (if current lx = None then 0 else 1))", goal_cases)
  case (2 lx r)
  then show ?case
    using scan_comment_pending[of lx] skip_whitespace_current[of "snd r"] skip_whitespace_pending[of "snd r"]
    by (auto simp: not_None_eq)
qed simp

definition scan_token :: "lexer \<Rightarrow> token_type \<times> lexer" where
  "scan_token lx =
     (case current lx of
        None \<Rightarrow> (end_of_input, lx)
      | Some c \<Rightarrow>
          if c = CHR ''['' then (begin_array, lx)
          else if c = CHR '']'' then (end_array, lx)
          else if c = CHR ''{'' then (begin_object, lx)
          else if c = CHR ''}'' then (end_object, lx)
          else if c = CHR '':'' then (name_separator, lx)
          else if c = CHR '','' then (value_separator, lx)
          else if c = CHR ''t'' then scan_literal ''true'' literal_true lx
          else if c = CHR ''f'' then scan_literal ''false'' literal_false lx
          else if c = CHR ''n'' then scan_literal ''null'' literal_null lx
          else if c = CHR 0x22 then scan_string lx
          else if c = CHR ''-'' \<or> is_digit c then scan_number lx
          else if c = CHR 0x00 then (end_of_input, lx)
          else lex_error ''invalid literal'' lx)"

definition scan :: "lexer \<Rightarrow> token_type \<times> lexer" where
  "scan lx0 =
     (let bom = (if chars_read_total (lx_position lx0) = 0 then skip_bom lx0 else (True, lx0))
      in if \<not> fst bom then lex_error ''invalid BOM; must be 0xEF 0xBB 0xBF if given'' (snd bom)
         else let r = skip_comments_loop (skip_whitespace (snd bom))
              in if \<not> fst r then (parse_error, snd r) else scan_token (snd r))"


declare skip_comments_loop.simps [simp del]

text \<open>Every token but an error and the end of the input takes at least one byte.\<close>

lemma skip_comments_pending: "pending (snd (skip_comments_loop lx)) \<le> pending lx"
proof (induction lx rule: skip_comments_loop.induct)
  case (1 lx)
  show ?case using 1[OF _ refl] scan_comment_pending[of lx] skip_whitespace_pending[of "snd (scan_comment lx)"]
    by (subst skip_comments_loop.simps) (auto simp: Let_def)
qed

lemma string_loop_pending: "pending (snd (string_loop lx)) \<le> pending lx"
proof (induction lx rule: string_loop.induct)
  case (1 lx)
  note le = get_pending_le[of lx] escape_pending[of "get lx"]
  show ?case
  proof (cases "current (get lx)")
    case None
    then show ?thesis using le by (subst string_loop.simps) (simp add: lex_error_def)
  next
    case (Some c)
    consider "c = CHR 0x22" | "c = CHR 0x5C" | "c \<noteq> CHR 0x22" "c \<noteq> CHR 0x5C" "of_char c \<le> (0x1F :: nat)"
      | "c \<noteq> CHR 0x22" "c \<noteq> CHR 0x5C" "\<not> of_char c \<le> (0x1F :: nat)" "of_char c \<le> (0x7F :: nat)"
      | "c \<noteq> CHR 0x22" "c \<noteq> CHR 0x5C" "\<not> of_char c \<le> (0x1F :: nat)" "\<not> of_char c \<le> (0x7F :: nat)" by blast
    then show ?thesis
    proof cases
      case 1
      then show ?thesis using Some le by (subst string_loop.simps) simp
    next
      case 2
      then show ?thesis using Some le "1.IH"(1)[OF refl Some _ _ refl]
        by (subst string_loop.simps) (auto simp: Let_def)
    next
      case 3
      then show ?thesis using Some le by (subst string_loop.simps) (simp add: lex_error_def)
    next
      case 4
      then show ?thesis using Some le "1.IH"(2)[OF refl Some] by (subst string_loop.simps) simp
    next
      case 5
      show ?thesis
      proof (cases "following_bytes (of_char c)")
        case None
        then show ?thesis using Some le 5 by (subst string_loop.simps) (simp add: lex_error_def)
      next
        case ranges: (Some rs)
        then show ?thesis using Some le 5 "1.IH"(3)[OF refl Some _ _ _ _ ranges refl] next_byte_pending[of rs "get lx"]
          by (subst string_loop.simps) (auto simp: Let_def)
      qed
    qed
  qed
qed

lemma number_done_pending: "pending (snd (number_done nt (get lx))) \<le> pending lx"
  using unget_pending[of lx] by (auto simp: number_done_def float_token_def Let_def pending_def split: option.splits)

lemma number_loop_pending: "pending (snd (number_loop st nt lx)) \<le> pending lx"
proof (induction st nt lx rule: number_loop.induct)
  case (1 st nt lx)
  show ?case
  proof (cases "number_move st (current (get lx))")
    case (Goto st' c)
    then show ?thesis using 1[OF refl refl Goto] get_pending_le[of lx]
      by (subst number_loop.simps) (simp add: Let_def)
  next
    case Num_done
    then show ?thesis using number_done_pending by (subst number_loop.simps) (simp add: Let_def)
  next
    case (Num_error msg)
    then show ?thesis using get_pending_le[of lx]
      by (subst number_loop.simps) (simp add: Let_def lex_error_def)
  qed
qed

lemma literal_loop_pending: "pending (snd (literal_loop cs t lx)) \<le> pending lx"
proof (induction cs arbitrary: lx)
  case (Cons c cs)
  then show ?case using order_trans[OF Cons.IH get_pending_le] get_pending_le[of lx]
    by (auto simp: Let_def lex_error_def)
qed simp

lemma reset_pending [simp]: "pending (reset lx) = pending lx"
  by (simp add: reset_def pending_def)

lemma reset_current [simp]: "current (reset lx) = current lx"
  by (simp add: reset_def)

lemma scan_literal_pending: "pending (snd (scan_literal l t lx)) \<le> pending lx"
  by (simp add: scan_literal_def literal_loop_pending del: literal_loop.simps)

lemma scan_number_pending: "pending (snd (scan_number lx)) \<le> pending lx"
proof -
  have "pending (snd (number_loop st nt (add c (reset lx)))) \<le> pending lx" for st nt c
    using number_loop_pending[of st nt "add c (reset lx)"] by simp
  then show ?thesis unfolding scan_number_def Let_def .
qed

lemma scan_string_pending: "pending (snd (scan_string lx)) \<le> pending lx"
  using string_loop_pending[of "reset lx"] by (simp add: scan_string_def)

lemma scan_token_pending: "pending (snd (scan_token lx)) \<le> pending lx"
  by (simp add: scan_token_def lex_error_def scan_literal_pending
      scan_number_pending scan_string_pending split: option.split)

lemma skip_bom_pending: "pending (snd (skip_bom lx)) \<le> pending lx"
  using get_pending_le[of lx] get_pending_le[of "get lx"] get_pending_le[of "get (get lx)"] unget_pending[of lx]
  by (auto simp: skip_bom_def Let_def)

lemma scan_pending:
  assumes "scan lx = (t, lx')"
  shows "pending lx' \<le> pending lx" "t \<notin> {parse_error, end_of_input} \<Longrightarrow> pending lx' < pending lx"
proof -
  define bom where "bom = (if chars_read_total (lx_position lx) = 0 then skip_bom lx else (True, lx))"
  define ws where "ws = skip_whitespace (snd bom)"
  define r where "r = skip_comments_loop ws"
  have scan: "(t, lx') = (if \<not> fst bom then lex_error ''invalid BOM; must be 0xEF 0xBB 0xBF if given'' (snd bom)
      else if \<not> fst r then (parse_error, snd r) else scan_token (snd r))"
    using assms[symmetric] unfolding scan_def Let_def bom_def ws_def r_def .
  have bom: "pending (snd bom) \<le> pending lx" using skip_bom_pending by (simp add: bom_def)
  have ws: "pending ws \<le> pending (snd bom)" by (simp add: ws_def skip_whitespace_pending)
  have r: "pending (snd r) \<le> pending ws" by (simp add: r_def skip_comments_pending)
  have tok: "pending lx' \<le> pending (snd r)" if "(t, lx') = scan_token (snd r)"
    using scan_token_pending[of "snd r"] by (simp flip: that)
  show "pending lx' \<le> pending lx"
    using scan bom ws r tok snd_conv[of t lx'] by (auto simp: lex_error_def split: if_splits)
  show "pending lx' < pending lx" if t: "t \<notin> {parse_error, end_of_input}"
  proof (cases "current ws")
    case None
    then have "r = (True, ws)" by (simp add: r_def skip_comments_loop.simps)
    then show ?thesis using scan t None by (auto simp: lex_error_def scan_token_def split: if_splits)
  next
    case (Some c)
    then have "pending ws < pending (snd bom)" unfolding ws_def by (rule skip_whitespace_current)
    then show ?thesis
      using scan t bom r tok by (auto simp: lex_error_def split: if_splits)
  qed
qed

end
