(* ===== verification/Json_Parser.thy ===== *)
theory Json_Parser
  imports Json_Lexer
begin

text \<open>
  The parser of the JSON library (classes \<^verbatim>\<open>parser\<close> and \<^verbatim>\<open>json_sax_dom_parser\<close> of
  \<^verbatim>\<open>include/utils/json.hpp\<close>): the loop of \<^verbatim>\<open>sax_parse_internal\<close> over the tokens, the value it
  builds, the texts of the exceptions, and \<^verbatim>\<open>json::parse\<close> and the stream operator, which differ
  in whether something may follow the value. The parser is never given a callback, and a parse
  error is always thrown.
\<close>

section \<open>Building the value\<close>

text \<open>
  The stack of references to the open containers. An open container holds what it has so far;
  it is put into its parent when it is closed, since nothing looks at the parent before. With an
  open object goes the key that \<^verbatim>\<open>object_element\<close> points to.
\<close>

datatype container = Open_array "json list" | Open_object "(string \<times> json) list" string

record dom =
  root :: json
  ref_stack :: "container list"

definition handle_value :: "json \<Rightarrow> dom \<Rightarrow> dom" where
  "handle_value v d =
     (case ref_stack d of
        [] \<Rightarrow> d\<lparr>root := v\<rparr>
      | Open_array xs # fs \<Rightarrow> d\<lparr>ref_stack := Open_array (xs @ [v]) # fs\<rparr>
      | Open_object kvs k # fs \<Rightarrow> d\<lparr>ref_stack := Open_object (sm_put k v kvs) k # fs\<rparr>)"

definition start_object :: "dom \<Rightarrow> dom" where
  "start_object d = d\<lparr>ref_stack := Open_object [] [] # ref_stack d\<rparr>"

definition start_array :: "dom \<Rightarrow> dom" where
  "start_array d = d\<lparr>ref_stack := Open_array [] # ref_stack d\<rparr>"

text \<open>\<^verbatim>\<open>operator[]\<close> of the map inserts null under a new key.\<close>

definition sax_key :: "string \<Rightarrow> dom \<Rightarrow> dom" where
  "sax_key k d =
     (case ref_stack d of
        Open_object kvs _ # fs \<Rightarrow>
          d\<lparr>ref_stack := Open_object (if sm_get kvs k = None then sm_put k JNull kvs else kvs) k # fs\<rparr>
      | _ \<Rightarrow> d)"

text \<open>\<^verbatim>\<open>end_object\<close> and \<^verbatim>\<open>end_array\<close>; the assertions of the code exclude the other cases.\<close>

definition sax_end_object :: "dom \<Rightarrow> dom" where
  "sax_end_object d =
     (case ref_stack d of
        Open_object kvs _ # fs \<Rightarrow> handle_value (JObj kvs) (d\<lparr>ref_stack := fs\<rparr>) | _ \<Rightarrow> d)"

definition sax_end_array :: "dom \<Rightarrow> dom" where
  "sax_end_array d =
     (case ref_stack d of
        Open_array xs # fs \<Rightarrow> handle_value (JArr xs) (d\<lparr>ref_stack := fs\<rparr>) | _ \<Rightarrow> d)"


section \<open>The parser\<close>

record parser =
  m_lexer :: lexer
  last_token :: token_type
  states :: "bool list"
  sax :: dom

text \<open>What a part of the loop body leads to: an exception (its id and text), the next iteration
  with the value of \<^verbatim>\<open>skip_to_state_evaluation\<close>, the second part of the body, or the return.\<close>

datatype outcome =
  Throw nat string | Continue bool parser | Value_done parser | Return parser

definition get_token :: "parser \<Rightarrow> parser" where
  "get_token p = (let r = scan (m_lexer p) in p\<lparr>last_token := fst r, m_lexer := snd r\<rparr>)"

definition quoted :: "string \<Rightarrow> string" where
  "quoted s = [CHR 0x27] @ s @ [CHR 0x27]"

definition exception_message :: "token_type \<Rightarrow> string \<Rightarrow> parser \<Rightarrow> string" where
  "exception_message expected ctx p =
     ''syntax error '' @ (if ctx = [] then [] else ''while parsing '' @ ctx @ '' '') @ ''- '' @
     (if last_token p = parse_error
      then error_message (m_lexer p) @ ''; last read: '' @ quoted (get_token_string (m_lexer p))
      else ''unexpected '' @ token_type_name (last_token p)) @
     (if expected = uninitialized then [] else ''; expected '' @ token_type_name expected)"

definition exception_name :: "string \<Rightarrow> nat \<Rightarrow> string" where
  "exception_name ename i = ''[json.exception.'' @ ename @ ''.'' @ dec i @ ''] ''"

definition position_string :: "position_t \<Rightarrow> string" where
  "position_string pos =
     '' at line '' @ dec (lines_read pos + 1) @ '', column '' @ dec (chars_read_current_line pos)"

text \<open>\<^verbatim>\<open>parse_error::create\<close> and \<^verbatim>\<open>out_of_range::create\<close>, thrown by \<^verbatim>\<open>sax->parse_error\<close>.\<close>

definition throw_parse_error :: "string \<Rightarrow> parser \<Rightarrow> outcome" where
  "throw_parse_error what_arg p =
     Throw 101 (exception_name ''parse_error'' 101 @ ''parse error'' @
       position_string (lx_position (m_lexer p)) @ '': '' @ what_arg)"

definition throw_out_of_range :: "string \<Rightarrow> parser \<Rightarrow> outcome" where
  "throw_out_of_range what_arg p = Throw 406 (exception_name ''out_of_range'' 406 @ what_arg)"

text \<open>A key and the colon after it, then the first token of the value.\<close>

definition parse_key :: "parser \<Rightarrow> outcome" where
  "parse_key p =
     (if last_token p \<noteq> value_string
      then throw_parse_error (exception_message value_string ''object key'' p) p
      else let p1 = get_token (p\<lparr>sax := sax_key (token_buffer (m_lexer p)) (sax p)\<rparr>)
           in if last_token p1 \<noteq> name_separator
              then throw_parse_error (exception_message name_separator ''object separator'' p1) p1
              else Continue False p1)"

definition push_state :: "bool \<Rightarrow> parser \<Rightarrow> parser" where
  "push_state b p = p\<lparr>states := b # states p\<rparr>"

definition give_value :: "json \<Rightarrow> parser \<Rightarrow> outcome" where
  "give_value v p = Value_done (p\<lparr>sax := handle_value v (sax p)\<rparr>)"

text \<open>The switch over the last token.\<close>

definition parse_value :: "parser \<Rightarrow> outcome" where
  "parse_value p =
     (case last_token p of
        begin_object \<Rightarrow>
          (let p1 = get_token (p\<lparr>sax := start_object (sax p)\<rparr>)
           in if last_token p1 = end_object then Value_done (p1\<lparr>sax := sax_end_object (sax p1)\<rparr>)
              else (case parse_key p1 of
                      Continue _ p2 \<Rightarrow> Continue False (get_token (push_state False p2))
                    | out \<Rightarrow> out))
      | begin_array \<Rightarrow>
          (let p1 = get_token (p\<lparr>sax := start_array (sax p)\<rparr>)
           in if last_token p1 = end_array then Value_done (p1\<lparr>sax := sax_end_array (sax p1)\<rparr>)
              else Continue False (push_state True p1))
      | value_float \<Rightarrow>
          (case number_float (m_lexer p) of
             None \<Rightarrow> throw_out_of_range
                       (''number overflow parsing '' @ quoted (get_token_string (m_lexer p))) p
           | Some r \<Rightarrow> give_value (JFloat r) p)
      | literal_false \<Rightarrow> give_value (JBool False) p
      | literal_null \<Rightarrow> give_value JNull p
      | literal_true \<Rightarrow> give_value (JBool True) p
      | value_integer \<Rightarrow> give_value (JInt (number_integer (m_lexer p))) p
      | value_string \<Rightarrow> give_value (JStr (token_buffer (m_lexer p))) p
      | value_unsigned \<Rightarrow> give_value (JUInt (number_unsigned (m_lexer p))) p
      | parse_error \<Rightarrow> throw_parse_error (exception_message uninitialized ''value'' p) p
      | end_of_input \<Rightarrow>
          (if chars_read_total (lx_position (m_lexer p)) = 1
           then throw_parse_error (''attempting to parse an empty input; check that your input string '' @
                  ''or stream contains the expected JSON'') p
           else throw_parse_error (exception_message literal_or_value ''value'' p) p)
      | _ \<Rightarrow> throw_parse_error (exception_message literal_or_value ''value'' p) p)"

text \<open>What follows a value: the end, or a comma or the closing bracket of the container around it.\<close>

definition after_value :: "parser \<Rightarrow> outcome" where
  "after_value p =
     (case states p of
        [] \<Rightarrow> Return p
      | True # sts \<Rightarrow>
          (let p1 = get_token p
           in if last_token p1 = value_separator then Continue False (get_token p1)
              else if last_token p1 = end_array
              then Continue True (p1\<lparr>sax := sax_end_array (sax p1), states := sts\<rparr>)
              else throw_parse_error (exception_message end_array ''array'' p1) p1)
      | False # sts \<Rightarrow>
          (let p1 = get_token p
           in if last_token p1 = value_separator
              then (case parse_key (get_token p1) of
                      Continue _ p2 \<Rightarrow> Continue False (get_token p2)
                    | out \<Rightarrow> out)
              else if last_token p1 = end_object
              then Continue True (p1\<lparr>sax := sax_end_object (sax p1), states := sts\<rparr>)
              else throw_parse_error (exception_message end_object ''object'' p1) p1))"

definition iteration :: "bool \<Rightarrow> parser \<Rightarrow> outcome" where
  "iteration skip p =
     (if skip then after_value p
      else case parse_value p of Value_done p1 \<Rightarrow> after_value p1 | out \<Rightarrow> out)"

text \<open>Every iteration takes bytes, or is the first look at an unusable token after a bracket.\<close>

definition unread :: "parser \<Rightarrow> nat" where
  "unread p = 2 * pending (m_lexer p) + (if last_token p \<in> {parse_error, end_of_input} then 0 else 1)"

lemma get_token_pending:
  "pending (m_lexer (get_token p)) \<le> pending (m_lexer p)"
  "last_token (get_token p) \<notin> {parse_error, end_of_input} \<Longrightarrow>
     pending (m_lexer (get_token p)) < pending (m_lexer p)"
  using scan_pending[OF prod.collapse[symmetric], of "m_lexer p"] by (simp_all add: get_token_def Let_def)

lemma get_token_simps [simp]:
  "sax (get_token p) = sax p" "states (get_token p) = states p"
  by (simp_all add: get_token_def Let_def)

lemma throw_outcome [simp]:
  "throw_parse_error w p \<noteq> Continue b q" "throw_parse_error w p \<noteq> Value_done q"
  "throw_parse_error w p \<noteq> Return q" "throw_out_of_range w p \<noteq> Continue b q"
  "throw_out_of_range w p \<noteq> Value_done q" "throw_out_of_range w p \<noteq> Return q"
  by (simp_all add: throw_parse_error_def throw_out_of_range_def)

lemma push_state_simps [simp]:
  "m_lexer (push_state b p) = m_lexer p" "last_token (push_state b p) = last_token p"
  "sax (push_state b p) = sax p" "states (push_state b p) = b # states p"
  by (simp_all add: push_state_def)

lemma parse_key_pending:
  assumes "parse_key p = Continue b q"
  shows "pending (m_lexer q) < pending (m_lexer p)"
  using assms get_token_pending(2)[of "p\<lparr>sax := sax_key (token_buffer (m_lexer p)) (sax p)\<rparr>"]
  by (auto simp: parse_key_def Let_def split: if_splits)


lemma after_value_pending:
  assumes "after_value p = Continue b q"
  shows "pending (m_lexer q) < pending (m_lexer p)"
proof -
  note g = get_token_pending[of p] get_token_pending(1)[of "get_token p"]
  obtain s sts where "states p = s # sts" using assms by (auto simp: after_value_def split: list.splits)
  then have *: "(case parse_key (get_token (get_token p)) of
             Continue _ p2 \<Rightarrow> Continue False (get_token p2) | out \<Rightarrow> out) = Continue b q \<and>
          last_token (get_token p) = value_separator \<or>
        pending (m_lexer q) < pending (m_lexer p)"
    using assms g by (cases s) (auto simp: after_value_def Let_def split: if_splits)
  show ?thesis
  proof (cases "pending (m_lexer q) < pending (m_lexer p)")
    case False
    with * obtain b' p2 where p2: "parse_key (get_token (get_token p)) = Continue b' p2" "q = get_token p2"
        "last_token (get_token p) = value_separator"
      by (auto split: outcome.splits)
    then show ?thesis using parse_key_pending[OF p2(1)] get_token_pending(1)[of p2] g by simp
  qed
qed

lemma parse_value_continue:
  assumes "parse_value p = Continue b q"
  shows "unread q < unread p"
proof -
  consider "last_token p = begin_object" | "last_token p = begin_array"
    using assms by (cases "last_token p") (auto simp: parse_value_def give_value_def split: option.splits if_splits)
  then show ?thesis
  proof cases
    case 1
    let ?p1 = "get_token (p\<lparr>sax := start_object (sax p)\<rparr>)"
    obtain b' p2 where p2: "parse_key ?p1 = Continue b' p2" "q = get_token (push_state False p2)"
      using assms 1 by (auto simp: parse_value_def Let_def split: if_splits outcome.splits)
    then show ?thesis
      using parse_key_pending[OF p2(1)] get_token_pending(1)[of "push_state False p2"]
        get_token_pending(1)[of "p\<lparr>sax := start_object (sax p)\<rparr>"] by (simp add: unread_def)
  next
    case 2
    let ?p0 = "p\<lparr>sax := start_array (sax p)\<rparr>"
    have q: "q = push_state True (get_token ?p0)"
      using assms 2 by (auto simp: parse_value_def Let_def split: if_splits)
    show ?thesis using get_token_pending[of ?p0] 2 by (auto simp: q unread_def)
  qed
qed

lemma parse_value_done:
  assumes "parse_value p = Value_done q"
  shows "pending (m_lexer q) \<le> pending (m_lexer p)"
proof (cases "last_token p \<in> {begin_object, begin_array}")
  case False
  then have "m_lexer q = m_lexer p"
    using assms by (cases "last_token p") (auto simp: parse_value_def give_value_def split: option.splits if_splits)
  then show ?thesis by simp
next
  case True
  have "pending (m_lexer (get_token (p\<lparr>sax := d\<rparr>))) \<le> pending (m_lexer p)" for d
    using get_token_pending(1)[of "p\<lparr>sax := d\<rparr>"] by simp
  moreover have "\<exists>d d'. q = (get_token (p\<lparr>sax := d\<rparr>))\<lparr>sax := d'\<rparr>"
  proof (cases "last_token p = begin_object")
    case True
    have "parse_key r \<noteq> Value_done q" for r by (simp add: parse_key_def Let_def)
    then show ?thesis using assms True
      by (auto simp: parse_value_def Let_def split: if_splits outcome.splits)
  next
    case False
    then show ?thesis using assms True
      by (auto simp: parse_value_def Let_def split: if_splits)
  qed
  ultimately show ?thesis by auto
qed

lemma iteration_unread: "iteration skip p = Continue skip' q \<Longrightarrow> unread q < unread p"
proof (cases skip)
  case True
  assume "iteration skip p = Continue skip' q"
  then show ?thesis using True after_value_pending[of p skip' q] by (auto simp: iteration_def unread_def)
next
  case False
  assume it: "iteration skip p = Continue skip' q"
  then consider p1 where "parse_value p = Value_done p1" "after_value p1 = Continue skip' q"
    | "parse_value p = Continue skip' q"
    using False by (auto simp: iteration_def split: outcome.splits)
  then show ?thesis
  proof cases
    case 1
    then show ?thesis using after_value_pending[OF 1(2)] parse_value_done[OF 1(1)]
      by (auto simp: unread_def)
  next
    case 2
    then show ?thesis by (rule parse_value_continue)
  qed
qed

text \<open>\<^verbatim>\<open>sax_parse_internal\<close>: the parser after the value, or the id and the text of the exception.\<close>

function sax_parse_internal :: "bool \<Rightarrow> parser \<Rightarrow> (nat \<times> string) + parser" where
  "sax_parse_internal skip p =
     (case iteration skip p of
        Throw i w \<Rightarrow> Inl (i, w)
      | Continue skip' q \<Rightarrow> sax_parse_internal skip' q
      | Value_done q \<Rightarrow> Inr q
      | Return q \<Rightarrow> Inr q)"
  by pat_completeness auto
termination
  by (relation "measure (\<lambda>(skip, p). unread p)") (auto dest: iteration_unread)

declare sax_parse_internal.simps [simp del]

text \<open>The constructor reads the first token.\<close>

definition new_parser :: "string \<Rightarrow> bool \<Rightarrow> parser" where
  "new_parser s skip_comments =
     get_token \<lparr>m_lexer = new_lexer s skip_comments, last_token = uninitialized, states = [],
       sax = \<lparr>root = JNull, ref_stack = []\<rparr>\<rparr>"

definition parser_parse :: "bool \<Rightarrow> parser \<Rightarrow> (nat \<times> string) + json" where
  "parser_parse strict p =
     (case sax_parse_internal False p of
        Inl e \<Rightarrow> Inl e
      | Inr q \<Rightarrow>
          if strict
          then let q1 = get_token q
               in if last_token q1 \<noteq> end_of_input
                  then (case throw_parse_error (exception_message end_of_input ''value'' q1) q1 of
                          Throw i w \<Rightarrow> Inl (i, w) | _ \<Rightarrow> Inr JNull)
                  else Inr (root (sax q1))
          else Inr (root (sax q)))"

text \<open>\<^verbatim>\<open>json::parse\<close>, the stream operator, and the exceptions as the program sees them.\<close>

definition json_parse :: "string \<Rightarrow> (nat \<times> string) + json" where
  "json_parse s = parser_parse True (new_parser s False)"

definition json_read :: "string \<Rightarrow> (nat \<times> string) + json" where
  "json_read s = parser_parse False (new_parser s False)"

definition as_result :: "(nat \<times> string) + json \<Rightarrow> json result" where
  "as_result r = (case r of Inl e \<Rightarrow> Inl (JsonException (fst e)) | Inr j \<Rightarrow> Inr j)"

definition library_text :: "(rat \<Rightarrow> string) \<Rightarrow> json_text" where
  "library_text floats =
     \<lparr>dump = (\<lambda>ind j. json_dump floats ind False Handler_strict j), parse = (\<lambda>s. as_result (json_parse s))\<rparr>"

definition library_stream :: "string \<Rightarrow> json result" where
  "library_stream s = as_result (json_read s)"

end
