(* ===== verification/Json_Tokens.thy ===== *)
theory Json_Tokens
  imports Json_Parser
begin

text \<open>
  What the lexer makes of the texts the serializer writes: each token read from the front of
  the input, whatever follows it. Only the bytes still to be read matter (\<open>ready\<close>), not how the
  lexer holds them.
\<close>

section \<open>The bytes still to be read\<close>

definition ready :: "lexer \<Rightarrow> string \<Rightarrow> bool" where
  "ready lx s \<longleftrightarrow>
     \<not> ignore_comments lx \<and>
     (if next_unget lx then (case current lx of Some c \<Rightarrow> s = c # ia lx | None \<Rightarrow> s = [] \<and> ia lx = [])
      else ia lx = s)"

definition started :: "lexer \<Rightarrow> bool" where
  "started lx \<longleftrightarrow> 0 < chars_read_total (lx_position lx)"

lemma get_Cons:
  assumes "ready lx (c # s)"
  shows "current (get lx) = Some c" "ready (get lx) s"
  using assms by (auto simp: ready_def get_def Let_def split: if_splits option.splits)

lemma get_Nil:
  assumes "ready lx []"
  shows "current (get lx) = None" "ready (get lx) []"
  using assms by (auto simp: ready_def get_def Let_def split: if_splits option.splits)

lemma get_keeps [simp]:
  "token_buffer (get lx) = token_buffer lx" "number_integer (get lx) = number_integer lx"
  "number_unsigned (get lx) = number_unsigned lx" "started (get lx)"
  by (simp_all add: get_def Let_def started_def advance_def split: list.splits option.splits)

lemma unget_ready:
  assumes "ready lx s" "\<not> next_unget lx"
  shows "current lx = Some c \<Longrightarrow> ready (unget lx) (c # s)"
    "current lx = None \<Longrightarrow> s = [] \<Longrightarrow> ready (unget lx) []"
  using assms by (simp_all add: ready_def unget_def)

lemma get_unget:
  assumes "ready lx s"
  shows "ready (unget (get lx)) s"
proof (cases s)
  case Nil
  then show ?thesis using get_Nil[of lx] unget_ready(2)[of "get lx" "[]"] assms by simp
next
  case (Cons c r)
  then show ?thesis using get_Cons[of lx c r] unget_ready(1)[of "get lx" r c] assms by simp
qed

lemma unget_keeps [simp]: "token_buffer (unget lx) = token_buffer lx"
  by (simp add: unget_def)

lemma ready_add [simp]: "ready (add c lx) s = ready lx s" "started (add c lx) = started lx"
  by (simp_all add: ready_def started_def split: option.split)

lemma ready_reset [simp]: "ready (reset lx) s = ready lx s" "started (reset lx) = started lx"
  "token_buffer (reset lx) = []"
  by (simp_all add: ready_def started_def reset_def split: option.split)

lemma ready_updates [simp]:
  "ready (lx\<lparr>number_integer := i\<rparr>) s = ready lx s" "started (lx\<lparr>number_integer := i\<rparr>) = started lx"
  "ready (lx\<lparr>number_unsigned := w\<rparr>) s = ready lx s" "started (lx\<lparr>number_unsigned := w\<rparr>) = started lx"
  by (simp_all add: ready_def started_def split: option.split)

lemma add_bytes_simps [simp]:
  "ready (add_bytes t lx) s = ready lx s" "token_buffer (add_bytes t lx) = token_buffer lx @ t"
  by (induction t arbitrary: lx) (simp_all add: add_bytes_def)

lemma ready_comments: "ready lx s \<Longrightarrow> skip_comments_loop lx = (True, lx)"
  by (subst skip_comments_loop.simps) (simp add: ready_def)


section \<open>White space\<close>

lemma skip_whitespace_ready:
  "ready lx (ws @ c # s) \<Longrightarrow> \<forall>w \<in> set ws. whitespace w \<Longrightarrow> \<not> whitespace c \<Longrightarrow>
   current (skip_whitespace lx) = Some c \<and> ready (skip_whitespace lx) s \<and> started (skip_whitespace lx)"
proof (induction ws arbitrary: lx)
  case Nil
  then show ?case using get_Cons[of lx c s] by (subst (1 2 3) skip_whitespace.simps) simp
next
  case (Cons w ws)
  then have "skip_whitespace lx = skip_whitespace (get lx)"
    using get_Cons[of lx w "ws @ c # s"] by (subst skip_whitespace.simps) simp
  then show ?case using Cons get_Cons[of lx w "ws @ c # s"] by simp
qed

lemma skip_whitespace_end:
  "ready lx ws \<Longrightarrow> \<forall>w \<in> set ws. whitespace w \<Longrightarrow>
   current (skip_whitespace lx) = None \<and> ready (skip_whitespace lx) []"
proof (induction ws arbitrary: lx)
  case Nil
  then show ?case using get_Nil[of lx] by (subst (1 2) skip_whitespace.simps) simp
next
  case (Cons w ws)
  then have "skip_whitespace lx = skip_whitespace (get lx)"
    using get_Cons[of lx w ws] by (subst skip_whitespace.simps) simp
  then show ?case using Cons get_Cons[of lx w ws] by simp
qed

definition no_bom :: "lexer \<Rightarrow> string \<Rightarrow> bool" where
  "no_bom lx s \<longleftrightarrow> started lx \<or> s = [] \<or> hd s \<noteq> CHR 0xEF"

lemma skip_bom_ready:
  assumes "ready lx s" "no_bom lx s"
  defines "bom \<equiv> (if chars_read_total (lx_position lx) = 0 then skip_bom lx else (True, lx))"
  shows "fst bom" "ready (snd bom) s"
proof -
  have "fst bom \<and> ready (snd bom) s"
  proof (cases "chars_read_total (lx_position lx) = 0")
    case True
    then have "s = [] \<or> hd s \<noteq> CHR 0xEF" using assms(2) by (simp add: no_bom_def started_def)
    moreover have "current (get lx) = (if s = [] then None else Some (hd s))"
      using assms(1) get_Nil[of lx] get_Cons[of lx "hd s" "tl s"] by (cases s) auto
    ultimately have "skip_bom lx = (True, unget (get lx))" by (auto simp: skip_bom_def Let_def)
    then show ?thesis using True get_unget[OF assms(1)] by (simp add: bom_def)
  next
    case False
    then show ?thesis using assms by (simp add: bom_def)
  qed
  then show "fst bom" "ready (snd bom) s" by simp_all
qed

lemma scan_ready:
  assumes "ready lx (ws @ c # s)" "no_bom lx (ws @ c # s)" "\<forall>w \<in> set ws. whitespace w" "\<not> whitespace c"
  obtains lx1 where "scan lx = scan_token lx1" "current lx1 = Some c" "ready lx1 s" "started lx1"
proof -
  define bom where "bom = (if chars_read_total (lx_position lx) = 0 then skip_bom lx else (True, lx))"
  have bom: "fst bom" "ready (snd bom) (ws @ c # s)"
    unfolding bom_def by (rule skip_bom_ready[OF assms(1,2)])+
  let ?lx1 = "skip_whitespace (snd bom)"
  have lx1: "current ?lx1 = Some c" "ready ?lx1 s" "started ?lx1"
    using skip_whitespace_ready[OF bom(2) assms(3,4)] by simp_all
  then have "scan lx = scan_token ?lx1"
    using bom(1) ready_comments[OF lx1(2)] unfolding scan_def bom_def[symmetric] Let_def by simp
  then show ?thesis using that lx1 by blast
qed

lemma scan_end:
  assumes "ready lx ws" "no_bom lx ws" "\<forall>w \<in> set ws. whitespace w"
  shows "fst (scan lx) = end_of_input"
proof -
  define bom where "bom = (if chars_read_total (lx_position lx) = 0 then skip_bom lx else (True, lx))"
  have bom: "fst bom" "ready (snd bom) ws"
    unfolding bom_def by (rule skip_bom_ready[OF assms(1,2)])+
  let ?lx1 = "skip_whitespace (snd bom)"
  have "current ?lx1 = None" "ready ?lx1 []" using skip_whitespace_end[OF bom(2) assms(3)] by simp_all
  then have "scan lx = scan_token ?lx1"
    using bom(1) ready_comments[of ?lx1] unfolding scan_def bom_def[symmetric] Let_def by simp
  then show ?thesis using \<open>current ?lx1 = None\<close> by (simp add: scan_token_def)
qed


section \<open>Punctuation and literals\<close>

lemma scan_literal_ready:
  "ready lx (cs @ s) \<Longrightarrow> started lx \<Longrightarrow>
   \<exists>lx'. literal_loop cs t lx = (t, lx') \<and> ready lx' s \<and> started lx'"
proof (induction cs arbitrary: lx)
  case (Cons c cs)
  then show ?case using get_Cons[of lx c "cs @ s"] by (simp add: Let_def to_char_type_def)
qed simp

definition punctuation :: "char \<Rightarrow> token_type \<Rightarrow> bool" where
  "punctuation c t \<longleftrightarrow>
     (c, t) \<in> {(CHR ''['', begin_array), (CHR '']'', end_array), (CHR ''{'', begin_object),
               (CHR ''}'', end_object), (CHR '':'', name_separator), (CHR '','', value_separator)}"

lemma punctuation_not_white: "punctuation c t \<Longrightarrow> \<not> whitespace c"
  by (auto simp: punctuation_def whitespace_def)

lemma scan_token_punctuation: "punctuation c t \<Longrightarrow> current lx = Some c \<Longrightarrow> scan_token lx = (t, lx)"
  by (auto simp: punctuation_def) (simp_all add: scan_token_def)

lemma scan_punctuation:
  assumes "punctuation c t" "ready lx (ws @ c # s)" "no_bom lx (ws @ c # s)" "\<forall>w \<in> set ws. whitespace w"
  obtains lx' where "scan lx = (t, lx')" "ready lx' s" "started lx'"
proof -
  have "\<not> whitespace c" using assms(1) by (rule punctuation_not_white)
  then obtain lx1 where lx1: "scan lx = scan_token lx1" "current lx1 = Some c" "ready lx1 s" "started lx1"
    using scan_ready[OF assms(2,3,4)] by blast
  then have "scan lx = (t, lx1)" using scan_token_punctuation[OF assms(1)] by simp
  then show ?thesis using that lx1 by blast
qed

definition literal_token :: "string \<Rightarrow> token_type \<Rightarrow> bool" where
  "literal_token cs t \<longleftrightarrow>
     (cs, t) \<in> {(''true'', literal_true), (''false'', literal_false), (''null'', literal_null)}"

lemma scan_token_word:
  assumes "literal_token (c # cs) t" "current lx = Some c"
  shows "scan_token lx = literal_loop cs t lx"
  using assms
  by (auto simp: literal_token_def) (simp_all add: scan_token_def scan_literal_def)

lemma scan_word:
  assumes "literal_token cs t" "ready lx (ws @ cs @ s)" "no_bom lx (ws @ cs @ s)" "\<forall>w \<in> set ws. whitespace w"
  obtains lx' where "scan lx = (t, lx')" "ready lx' s" "started lx'"
proof -
  obtain c cs' where cs: "cs = c # cs'" "\<not> whitespace c"
    using assms(1) by (cases cs) (auto simp: literal_token_def whitespace_def)
  then obtain lx1 where lx1: "scan lx = scan_token lx1" "current lx1 = Some c" "ready lx1 (cs' @ s)" "started lx1"
    using scan_ready[of lx ws c "cs' @ s"] assms(2-4) unfolding cs(1) append_Cons by blast
  then have "scan lx = literal_loop cs' t lx1" using scan_token_word[of c cs' t lx1] assms(1) cs(1) by simp
  then show ?thesis using that scan_literal_ready[OF lx1(3,4)] by auto
qed


section \<open>Strings\<close>

lemma string_loop_plain:
  assumes "ready lx (c # r)" "c \<noteq> CHR 0x22" "c \<noteq> CHR 0x5C" "0x20 \<le> (of_char c :: nat)" "of_char c \<le> (0x7F :: nat)"
  shows "string_loop lx = string_loop (add c (get lx))"
  using get_Cons[OF assms(1)] assms(2-) by (subst string_loop.simps) simp

lemma string_loop_quote:
  assumes "ready lx (CHR 0x22 # r)"
  shows "string_loop lx = (value_string, get lx)"
  using get_Cons[OF assms] by (subst string_loop.simps) simp

lemma string_loop_escape:
  assumes "ready lx (CHR 0x5C # r)" "scan_escape (get lx) = (True, lx')"
  shows "string_loop lx = string_loop lx'"
  using get_Cons[OF assms(1)] assms(2) by (subst string_loop.simps) simp

lemma range_loop_ready:
  "ready lx (cs @ r) \<Longrightarrow> list_all2 (\<lambda>c (lo, hi). byte_in lo hi c) cs rs \<Longrightarrow>
   \<exists>lx'. range_loop rs lx = (True, lx') \<and> ready lx' r \<and> token_buffer lx' = token_buffer lx @ cs"
proof (induction rs arbitrary: lx cs)
  case (Cons p rs)
  obtain lo hi where p: "p = (lo, hi)" by (cases p)
  with Cons.prems obtain c cs' where c: "cs = c # cs'" "byte_in lo hi c"
      "list_all2 (\<lambda>c (lo, hi). byte_in lo hi c) cs' rs"
    by (auto simp: list_all2_Cons2)
  then have get: "current (get lx) = Some c" "ready (get lx) (cs' @ r)" using get_Cons[of lx c] Cons.prems by auto
  then obtain lx' where "range_loop rs (add c (get lx)) = (True, lx')" "ready lx' r"
      "token_buffer lx' = token_buffer (add c (get lx)) @ cs'"
    using Cons.IH[of "add c (get lx)" cs'] c by auto
  then show ?case using c get p by (simp add: Let_def byte_in_def)
qed simp

lemma string_loop_multibyte:
  assumes "ready lx (c # cs @ r)" "0x7F < (of_char c :: nat)" "following_bytes (of_char c) = Some rs"
    "list_all2 (\<lambda>c (lo, hi). byte_in lo hi c) cs rs"
  obtains lx' where "string_loop lx = string_loop lx'" "ready lx' r" "token_buffer lx' = token_buffer lx @ c # cs"
proof -
  note get = get_Cons[OF assms(1)]
  have "c \<noteq> CHR 0x22" "c \<noteq> CHR 0x5C" using assms(2) by auto
  obtain lx' where lx': "range_loop rs (add c (get lx)) = (True, lx')" "ready lx' r"
      "token_buffer lx' = token_buffer (add c (get lx)) @ cs"
    using range_loop_ready[of "add c (get lx)" cs r rs] get assms(4) by auto
  have "string_loop lx = string_loop lx'"
    using get(1) assms(2,3) lx'(1) \<open>c \<noteq> CHR 0x22\<close> \<open>c \<noteq> CHR 0x5C\<close>
    by (subst string_loop.simps) (simp add: next_byte_in_range_def to_char_type_def Let_def)
  then show ?thesis using that lx' by simp
qed

text \<open>A two-character escape, and \<^verbatim>\<open>\u00XX\<close> for the other control characters.\<close>

lemma scan_escape_char:
  assumes "ready lx (x # r)"
    "(x, c) \<in> {(CHR 0x22, CHR 0x22), (CHR 0x5C, CHR 0x5C), (CHR ''b'', CHR 0x08), (CHR ''f'', CHR 0x0C),
              (CHR ''n'', CHR 0x0A), (CHR ''r'', CHR 0x0D), (CHR ''t'', CHR 0x09)}"
  shows "scan_escape lx = (True, add c (get lx))"
  using assms get_Cons[OF assms(1)] by (auto simp: scan_escape_def)

text \<open>The value of four hexadecimal digits.\<close>

definition hex_value :: "char \<Rightarrow> int" where
  "hex_value c =
     (if CHR ''0'' \<le> c \<and> c \<le> CHR ''9'' then of_char c - 0x30
      else if CHR ''A'' \<le> c \<and> c \<le> CHR ''F'' then of_char c - 0x37 else of_char c - 0x57)"

definition is_hex :: "char \<Rightarrow> bool" where
  "is_hex c \<longleftrightarrow> CHR ''0'' \<le> c \<and> c \<le> CHR ''9'' \<or> CHR ''A'' \<le> c \<and> c \<le> CHR ''F'' \<or> CHR ''a'' \<le> c \<and> c \<le> CHR ''f''"

fun hex_sum :: "string \<Rightarrow> nat list \<Rightarrow> int" where
  "hex_sum (c # cs) (f # fs) = push_bit f (hex_value c) + hex_sum cs fs"
| "hex_sum _ _ = 0"

lemma codepoint_loop_ready:
  "length cs = length fs \<Longrightarrow> list_all is_hex cs \<Longrightarrow> ready lx (cs @ r) \<Longrightarrow>
   \<exists>lx'. codepoint_loop fs cp lx = (cp + hex_sum cs fs, lx') \<and> ready lx' r \<and> token_buffer lx' = token_buffer lx"
proof (induction fs arbitrary: cs cp lx)
  case (Cons f fs)
  then obtain c cs' where cs: "cs = c # cs'" by (cases cs) auto
  note get = get_Cons[of lx c "cs' @ r"]
  have *: "codepoint_loop (f # fs) cp lx = codepoint_loop fs (cp + push_bit f (hex_value c)) (get lx)"
    using Cons.prems cs get by (auto simp: Let_def hex_value_def is_hex_def)
  show ?case
    using Cons.IH[of cs' "get lx" "cp + push_bit f (hex_value c)"] Cons.prems cs get unfolding *
    by (auto simp: add.assoc)
qed simp

lemma unat_byte: "unat (of_char c :: u32) = (of_char c :: nat)"
proof -
  have "(of_char c :: u32) = of_nat (of_char c)" by (simp add: of_char_def)
  moreover have "take_bit 32 (of_char c :: nat) = of_char c"
    by (rule take_bit_nat_eq_self, rule less_trans[OF of_char_256]) simp
  ultimately show ?thesis by (simp add: unsigned_of_nat)
qed

lemma hex4_small:
  assumes "n < 0x20"
  shows "hex4 (of_nat n) = [CHR ''0'', CHR ''0'', hex_digit (n div 16), hex_digit (n mod 16)]"
proof -
  have "unat (drop_bit k (of_nat n :: u16) AND 0xF) = n div 2 ^ k mod 16" for k
  proof -
    have "unat (drop_bit k (of_nat n :: u16) AND 0xF) = drop_bit k n AND 0xF"
      using assms by (simp add: unsigned_and_eq unsigned_drop_bit_eq unsigned_of_nat take_bit_nat_eq_self)
    also have "\<dots> = take_bit 4 (drop_bit k n)" by (simp add: take_bit_eq_mask mask_eq_exp_minus_1)
    finally show ?thesis by (simp add: take_bit_eq_mod drop_bit_eq_div)
  qed
  moreover have "n div 4096 = 0" "n div 256 = 0" "n div 16 < 16" using assms by simp_all
  moreover have "hex_digit 0 = CHR ''0''" by code_simp
  ultimately show ?thesis by (simp add: hex4_def)
qed

lemma escape_control:
  assumes "of_char c < (0x20 :: nat)"
  shows "escape_byte c = [CHR 0x5C, CHR ''u'', CHR ''0'', CHR ''0'', hex_digit (of_char c div 16), hex_digit (of_char c mod 16)] \<or>
    (\<exists>x. escape_byte c = [CHR 0x5C, x] \<and>
      (x, c) \<in> {(CHR ''b'', CHR 0x08), (CHR ''f'', CHR 0x0C), (CHR ''n'', CHR 0x0A), (CHR ''r'', CHR 0x0D),
                (CHR ''t'', CHR 0x09)})"
proof -
  define n where "n = (of_char c :: nat)"
  have n: "n < 0x20" using assms by (simp add: n_def)
  have c: "c = char_of n" by (simp add: n_def)
  have w: "unat (of_char c :: u32) = n" by (simp add: unat_byte n_def)
  have "ucast (of_char c :: u32) = (of_nat n :: u16)"
    by (metis unat_byte n_def of_nat_unat)
  then have "hex4 (ucast (of_char c :: u32)) = [CHR ''0'', CHR ''0'', hex_digit (n div 16), hex_digit (n mod 16)]"
    using hex4_small[OF n] by simp
  then have esc: "escape_byte c =
      (if n = 8 then [CHR 0x5C, CHR ''b''] else if n = 9 then [CHR 0x5C, CHR ''t'']
       else if n = 10 then [CHR 0x5C, CHR ''n''] else if n = 12 then [CHR 0x5C, CHR ''f'']
       else if n = 13 then [CHR 0x5C, CHR ''r'']
       else [CHR 0x5C, CHR ''u'', CHR ''0'', CHR ''0'', hex_digit (n div 16), hex_digit (n mod 16)])"
    using n w unfolding escape_byte_def n_def[symmetric]
    by (simp add: escape_codepoint_def word_unat_eq_iff word_le_nat_alt bslash_def)
  have chars: "char_of (8 :: nat) = CHR 0x08" "char_of (9 :: nat) = CHR 0x09" "char_of (10 :: nat) = CHR 0x0A"
      "char_of (12 :: nat) = CHR 0x0C" "char_of (13 :: nat) = CHR 0x0D" by code_simp+
  show ?thesis unfolding esc n_def[symmetric] by (auto simp: c chars)
qed

lemma plain_byte:
  assumes "0x20 \<le> (of_char c :: nat)" "of_char c < (0x80 :: nat)" "c \<noteq> CHR 0x22" "c \<noteq> CHR 0x5C"
  shows "escape_byte c = [c]"
proof -
  define n where "n = (of_char c :: nat)"
  have n: "0x20 \<le> n" "n < 0x80" using assms(1,2) by (simp_all add: n_def)
  have "char_of (0x22 :: nat) = CHR 0x22" "char_of (0x5C :: nat) = CHR 0x5C" by code_simp+
  then have ne: "n \<noteq> 0x22" "n \<noteq> 0x5C" using assms(3,4) char_of_char[of c] by (metis n_def char_of_char)+
  have "unat (of_char c :: u32) = n" by (simp add: unat_byte n_def)
  then show ?thesis using n ne
    by (simp add: escape_byte_def n_def[symmetric] escape_codepoint_def word_unat_eq_iff word_le_nat_alt)
qed

lemma hex_digit_value:
  assumes "d < 16"
  shows "is_hex (hex_digit d) \<and> hex_value (hex_digit d) = int d"
proof -
  have n: "(of_char (hex_digit d) :: nat) = (if d < 10 then 48 + d else 87 + d)"
    using assms by (rule of_char_hex_digit)
  then have "(of_char (hex_digit d) :: int) = (if d < 10 then 48 + int d else 87 + int d)"
    by (metis of_nat_add of_nat_numeral of_nat_of_char)
  then show ?thesis using n assms by (auto simp: is_hex_def hex_value_def less_eq_char_nat)
qed

lemma scan_escape_hex:
  assumes "ready lx (CHR ''u'' # CHR ''0'' # CHR ''0'' # hex_digit (of_char c div 16) # hex_digit (of_char c mod 16) # r)"
    "of_char c < (0x20 :: nat)"
  obtains lx' where "scan_escape lx = (True, lx')" "ready lx' r" "token_buffer lx' = token_buffer lx @ [c]"
proof -
  let ?n = "of_char c :: nat"
  let ?cs = "[CHR ''0'', CHR ''0'', hex_digit (?n div 16), hex_digit (?n mod 16)]"
  note get = get_Cons[OF assms(1)]
  have d: "?n div 16 < 16" "?n mod 16 < 16" using assms(2) by auto
  have zero: "is_hex (CHR ''0'')" "hex_value (CHR ''0'') = 0" by code_simp+
  have cs: "list_all is_hex ?cs" using zero hex_digit_value[OF d(1)] hex_digit_value[OF d(2)] by simp
  have "int (?n div 16) * 16 + int (?n mod 16) = int ?n"
    by (metis div_mult_mod_eq of_nat_add of_nat_mult of_nat_numeral)
  then have sum: "hex_sum ?cs [12, 8, 4, 0] = int ?n"
    using zero hex_digit_value[OF d(1)] hex_digit_value[OF d(2)] by (simp add: push_bit_eq_mult)
  obtain lx' where lx': "get_codepoint (get lx) = (int ?n, lx')" "ready lx' r" "token_buffer lx' = token_buffer lx"
    using codepoint_loop_ready[of ?cs "[12, 8, 4, 0]" "get lx" r 0] cs get(2) sum by (auto simp: get_codepoint_def)
  have c: "codepoint_bytes (int ?n) = [c]" using assms(2) by (simp add: codepoint_bytes_def)
  have "scan_escape lx = (True, add_bytes (codepoint_bytes (int ?n)) lx')"
    using get(1) lx'(1) assms(2) by (simp add: scan_escape_def scan_unicode_escape_def)
  then show ?thesis using that[of "add_bytes [c] lx'"] lx' c by simp
qed

lemma string_loop_byte:
  assumes "ready lx (escape_byte c @ r)" "of_char c < (0x80 :: nat)"
  obtains lx' where "string_loop lx = string_loop lx'" "ready lx' r" "token_buffer lx' = token_buffer lx @ [c]"
proof -
  consider "of_char c < (0x20 :: nat)" | "c = CHR 0x22 \<or> c = CHR 0x5C"
    | "0x20 \<le> (of_char c :: nat)" "c \<noteq> CHR 0x22" "c \<noteq> CHR 0x5C" by linarith
  then show ?thesis
  proof cases
    case 1
    from escape_control[OF 1] show ?thesis
    proof (elim disjE exE conjE)
      let ?t = "[CHR ''u'', CHR ''0'', CHR ''0'', hex_digit (of_char c div 16), hex_digit (of_char c mod 16)]"
      assume "escape_byte c = [CHR 0x5C, CHR ''u'', CHR ''0'', CHR ''0'', hex_digit (of_char c div 16), hex_digit (of_char c mod 16)]"
      then have rd: "ready lx (CHR 0x5C # ?t @ r)" using assms(1) by simp
      then have "ready (get lx) (?t @ r)" by (rule get_Cons)
      then obtain lx' where lx': "scan_escape (get lx) = (True, lx')" "ready lx' r"
          "token_buffer lx' = token_buffer (get lx) @ [c]"
        using scan_escape_hex[of "get lx" c r] 1 by auto
      then show ?thesis using that[OF string_loop_escape[OF rd lx'(1)]] by simp
    next
      fix x
      assume x: "escape_byte c = [CHR 0x5C, x]" "(x, c) \<in> {(CHR ''b'', CHR 0x08), (CHR ''f'', CHR 0x0C),
          (CHR ''n'', CHR 0x0A), (CHR ''r'', CHR 0x0D), (CHR ''t'', CHR 0x09)}"
      then have rd: "ready lx (CHR 0x5C # x # r)" using assms(1) by simp
      note get = get_Cons(2)[OF rd]
      have "scan_escape (get lx) = (True, add c (get (get lx)))"
        by (rule scan_escape_char[OF get]) (use x(2) in blast)
      then show ?thesis using that[OF string_loop_escape[OF rd]] get_Cons[OF get] by simp
    qed
  next
    case 2
    have "escape_byte (CHR 0x22) = [CHR 0x5C, CHR 0x22]" "escape_byte (CHR 0x5C) = [CHR 0x5C, CHR 0x5C]"
      by code_simp+
    then have rd: "ready lx (CHR 0x5C # c # r)" using assms(1) 2 by auto
    note get = get_Cons(2)[OF rd]
    have "scan_escape (get lx) = (True, add c (get (get lx)))"
      by (rule scan_escape_char[OF get]) (use 2 in auto)
    then show ?thesis using that[OF string_loop_escape[OF rd]] get_Cons[OF get] by simp
  next
    case 3
    have "escape_byte c = [c]" using plain_byte[OF 3(1) assms(2) 3(2,3)] .
    then have rd: "ready lx (c # r)" using assms(1) by simp
    then have "string_loop lx = string_loop (add c (get lx))" using 3 assms(2) by (intro string_loop_plain) auto
    then show ?thesis using that get_Cons[OF rd] by simp
  qed
qed

lemma following:
  "byte_in 0xC2 0xDF c \<Longrightarrow> following_bytes (of_char c) = Some [(0x80, 0xBF)]"
  "byte_in 0xE0 0xE0 c \<Longrightarrow> following_bytes (of_char c) = Some [(0xA0, 0xBF), (0x80, 0xBF)]"
  "byte_in 0xE1 0xEC c \<or> byte_in 0xEE 0xEF c \<Longrightarrow> following_bytes (of_char c) = Some [(0x80, 0xBF), (0x80, 0xBF)]"
  "byte_in 0xED 0xED c \<Longrightarrow> following_bytes (of_char c) = Some [(0x80, 0x9F), (0x80, 0xBF)]"
  "byte_in 0xF0 0xF0 c \<Longrightarrow> following_bytes (of_char c) = Some [(0x90, 0xBF), (0x80, 0xBF), (0x80, 0xBF)]"
  "byte_in 0xF1 0xF3 c \<Longrightarrow> following_bytes (of_char c) = Some [(0x80, 0xBF), (0x80, 0xBF), (0x80, 0xBF)]"
  "byte_in 0xF4 0xF4 c \<Longrightarrow> following_bytes (of_char c) = Some [(0x80, 0x8F), (0x80, 0xBF), (0x80, 0xBF)]"
  by (auto simp: byte_in_def following_bytes_def)

lemma utf8_following:
  assumes "utf8_char (c # cs)" "cs \<noteq> []"
  obtains rs where "following_bytes (of_char c) = Some rs" "list_all2 (\<lambda>c (lo, hi). byte_in lo hi c) cs rs"
  using assms by (cases "c # cs" rule: utf8_char.cases) (auto simp: following)

lemma utf8_high:
  assumes "utf8_char (c # cs)" "cs \<noteq> []"
  shows "\<forall>d \<in> set (c # cs). 0x80 \<le> (of_char d :: nat)"
  using assms by (cases "c # cs" rule: utf8_char.cases) (auto simp: byte_in_def)

lemma utf8_multibyte:
  assumes "utf8_char (c # cs)" "cs \<noteq> []"
  obtains rs where "0x7F < (of_char c :: nat)" "following_bytes (of_char c) = Some rs"
    "list_all2 (\<lambda>c (lo, hi). byte_in lo hi c) cs rs" "escape_text (c # cs) = c # cs"
proof -
  have "\<forall>d \<in> set s. 0x80 \<le> (of_char d :: nat) \<Longrightarrow> escape_text s = s" for s
    by (induction s) (simp_all add: escape_byte_def)
  then have "escape_text (c # cs) = c # cs" using utf8_high[OF assms] by blast
  moreover have "0x7F < (of_char c :: nat)" using utf8_high[OF assms] by simp
  ultimately show ?thesis using utf8_following[OF assms] that by blast
qed

lemma string_loop_ready:
  "utf8 s \<Longrightarrow> ready lx (escape_text s @ CHR 0x22 # r) \<Longrightarrow>
   \<exists>lx'. string_loop lx = (value_string, lx') \<and> ready lx' r \<and> started lx' \<and> token_buffer lx' = token_buffer lx @ s"
proof (induction arbitrary: lx rule: utf8.induct)
  case Nil
  then show ?case using get_Cons[of lx "CHR 0x22" r] by (simp add: string_loop_quote)
next
  case (Cons u s)
  let ?r = "escape_text s @ CHR 0x22 # r"
  have rd: "ready lx (escape_text u @ ?r)" using Cons.prems by (simp add: escape_text_def)
  obtain c cs where u: "u = c # cs" using utf8_char_nonempty[OF Cons.hyps(1)] by (cases u) auto
  obtain lx1 where lx1: "string_loop lx = string_loop lx1" "ready lx1 ?r" "token_buffer lx1 = token_buffer lx @ u"
  proof (cases "cs = []")
    case True
    then have "of_char c < (0x80 :: nat)" using Cons.hyps(1) u by (simp add: byte_in_def)
    then show ?thesis using string_loop_byte[of lx c ?r] rd u True that by auto
  next
    case False
    then obtain rs where rs: "0x7F < (of_char c :: nat)" "following_bytes (of_char c) = Some rs"
        "list_all2 (\<lambda>c (lo, hi). byte_in lo hi c) cs rs" "escape_text (c # cs) = c # cs"
      using utf8_multibyte[of c cs] Cons.hyps(1) u by auto
    then have "ready lx (c # cs @ ?r)" using rd u by simp
    from string_loop_multibyte[OF this rs(1-3)] show ?thesis using that u by auto
  qed
  then show ?case using Cons.IH[OF lx1(2)] by simp
qed

lemma scan_string_ready:
  assumes "utf8 s" "ready lx (ws @ CHR 0x22 # escape_text s @ CHR 0x22 # r)"
    "no_bom lx (ws @ CHR 0x22 # escape_text s @ CHR 0x22 # r)" "\<forall>w \<in> set ws. whitespace w"
  obtains lx' where "scan lx = (value_string, lx')" "ready lx' r" "started lx'" "token_buffer lx' = s"
proof -
  have "\<not> whitespace (CHR 0x22)" by code_simp
  then obtain lx1 where lx1: "scan lx = scan_token lx1" "current lx1 = Some CHR 0x22"
      "ready lx1 (escape_text s @ CHR 0x22 # r)" "started lx1"
    using scan_ready[OF assms(2-4)] by blast
  have "scan_token lx1 = string_loop (reset lx1)" using lx1(2) by (simp add: scan_token_def scan_string_def)
  then show ?thesis using that string_loop_ready[OF assms(1), of "reset lx1" r] lx1 by auto
qed



section \<open>Numbers\<close>

text \<open>What may follow a number without becoming part of it.\<close>

definition value_end :: "string \<Rightarrow> bool" where
  "value_end r \<longleftrightarrow> r = [] \<or> \<not> is_digit (hd r) \<and> hd r \<noteq> CHR ''.'' \<and> \<not> exponent_char (hd r)"

lemma number_end:
  assumes "value_end r" "ready lx r" "st \<in> {Num_zero, Num_any1}"
  shows "number_move st (current (get lx)) = Num_done"
proof (cases r)
  case Nil
  have "\<not> is_digit (CHR 0x00)" "\<not> exponent_char (CHR 0x00)" by code_simp+
  then show ?thesis using Nil assms get_Nil[of lx] by (auto simp: number_move_def)
next
  case (Cons c cs)
  then show ?thesis using assms get_Cons[of lx c cs] by (auto simp: number_move_def value_end_def)
qed

lemma number_loop_digits:
  "ready lx (ds @ r) \<Longrightarrow> started lx \<Longrightarrow> \<forall>d \<in> set ds. is_digit d \<Longrightarrow> value_end r \<Longrightarrow>
   \<exists>lx0. number_loop Num_any1 nt lx = number_done nt (get lx0) \<and> ready lx0 r \<and> started lx0 \<and>
     token_buffer lx0 = token_buffer lx @ ds"
proof (induction ds arbitrary: lx)
  case Nil
  then have "number_loop Num_any1 nt lx = number_done nt (get lx)"
    using number_end[of r lx Num_any1] by (subst number_loop.simps) (simp add: number_type_def)
  then show ?case using Nil by auto
next
  case (Cons d ds)
  note get = get_Cons[of lx d "ds @ r"]
  have "number_loop Num_any1 nt lx = number_loop Num_any1 nt (add d (get lx))"
    using get Cons.prems by (subst number_loop.simps) (simp add: number_type_def number_move_def)
  then show ?case using Cons.IH[of "add d (get lx)"] Cons.prems get by simp
qed

lemma number_loop_zero:
  "ready lx r \<Longrightarrow> value_end r \<Longrightarrow> number_loop Num_zero nt lx = number_done nt (get lx)"
  using number_end[of r lx Num_zero] by (subst number_loop.simps) (simp add: number_type_def)

lemma dec_zero_head: "0 < n \<Longrightarrow> hd (dec n) \<noteq> CHR ''0''"
proof (induction n rule: dec.induct)
  case (1 n)
  show ?case
  proof (cases "n < 10")
    case True
    have "digit_char n \<noteq> digit_char 0"
    proof
      assume "digit_char n = digit_char 0"
      then have "digit_val (digit_char n) = digit_val (digit_char 0)" by simp
      then show False using True "1.prems" by simp
    qed
    moreover have "digit_char 0 = CHR ''0''" by code_simp
    ultimately show ?thesis using True by (simp add: dec_small)
  next
    case False
    then have "hd (dec n) = hd (dec (n div 10))" by (subst dec_ten) simp_all
    then show ?thesis using 1 False by simp
  qed
qed

lemma dec_split:
  obtains c ds where "dec n = c # ds" "is_digit c" "\<forall>d \<in> set ds. is_digit d" "c = CHR ''0'' \<Longrightarrow> n = 0 \<and> ds = []"
proof -
  obtain c ds where c: "dec n = c # ds" by (cases "dec n") auto
  have "is_digit d" if "d \<in> set (c # ds)" for d using dec_digits[of d n] that c by simp
  moreover have "n = 0 \<and> ds = []" if "c = CHR ''0''"
    using dec_zero_head[of n] dec_0 c that by (cases "n = 0") auto
  ultimately show ?thesis using that[OF c] by simp
qed

lemma started_unget: "started lx \<Longrightarrow> started (unget (get lx))"
  by (simp add: get_def unget_def started_def advance_def retreat_def Let_def split: list.split option.split)

lemma number_loop_dec:
  assumes "dec n = c # ds" "ready lx (ds @ r)" "started lx" "value_end r" "token_buffer lx = t @ [c]"
  obtains lx0 where "number_loop (if c = CHR ''0'' then Num_zero else Num_any1) nt lx = number_done nt (get lx0)"
    "ready lx0 r" "started lx0" "token_buffer lx0 = t @ dec n"
proof (cases "c = CHR ''0''")
  case True
  then have "ds = []" using assms(1) by (metis dec_split list.inject)
  then show ?thesis using that[of lx] True assms number_loop_zero[of lx r nt] by simp
next
  case False
  have "\<forall>d \<in> set ds. is_digit d" using assms(1) dec_digits[of _ n] by simp
  from number_loop_digits[OF assms(2,3) this assms(4), of nt] show ?thesis
    using that False assms(1,5) by auto
qed

lemma scan_token_digit:
  assumes "is_digit c" "current lx = Some c"
  shows "scan_token lx = scan_number lx"
proof -
  have "c \<noteq> d" if "\<not> is_digit d" for d using assms(1) that by blast
  then have "c \<notin> set ''[]{}:,tfn''" "c \<noteq> CHR 0x22"
    by (auto simp: is_digit_def)
  then show ?thesis using assms by (simp add: scan_token_def)
qed

lemma number_text:
  assumes "value_end r" "ready lx (ws @ dec n @ r)" "no_bom lx (ws @ dec n @ r)" "\<forall>w \<in> set ws. whitespace w"
  obtains lx0 where "scan lx = number_done value_unsigned (get lx0)" "ready lx0 r" "started lx0"
    "token_buffer lx0 = dec n"
proof -
  obtain c ds where c: "dec n = c # ds" "is_digit c" by (rule dec_split)
  then have "\<not> whitespace c" by (auto simp: whitespace_def is_digit_def)
  then obtain lx1 where lx1: "scan lx = scan_token lx1" "current lx1 = Some c" "ready lx1 (ds @ r)" "started lx1"
    using scan_ready[of lx ws c "ds @ r"] assms(2-4) c(1) by auto
  have ne: "c \<noteq> CHR ''-''" using c(2) by (auto simp: is_digit_def)
  have "scan_token lx1 = scan_number lx1" using c(2) lx1(2) by (rule scan_token_digit)
  then have "scan lx = number_loop (if c = CHR ''0'' then Num_zero else Num_any1) value_unsigned (add c (reset lx1))"
    using lx1(1,2) ne by (simp add: scan_number_def to_char_type_def)
  moreover obtain lx0 where "number_loop (if c = CHR ''0'' then Num_zero else Num_any1) value_unsigned (add c (reset lx1)) =
      number_done value_unsigned (get lx0)" "ready lx0 r" "started lx0" "token_buffer lx0 = [] @ dec n"
    using number_loop_dec[OF c(1), of "add c (reset lx1)" r "[]"] lx1(3,4) assms(1) by auto
  ultimately show ?thesis using that by simp
qed

lemma scan_unsigned:
  assumes "value_end r" "n < 2 ^ 64" "ready lx (ws @ dec n @ r)" "no_bom lx (ws @ dec n @ r)" "\<forall>w \<in> set ws. whitespace w"
  obtains lx' where "scan lx = (value_unsigned, lx')" "ready lx' r" "started lx'" "number_unsigned lx' = of_nat n"
proof -
  obtain lx0 where lx0: "scan lx = number_done value_unsigned (get lx0)" "ready lx0 r" "started lx0"
      "token_buffer lx0 = dec n"
    using number_text[OF assms(1,3-5)] by blast
  have "strtoull (dec n) = Some (of_nat n)" using assms(2) by (simp add: strtoull_def undec_dec)
  then have "scan lx = (value_unsigned, (unget (get lx0))\<lparr>number_unsigned := of_nat n\<rparr>)"
    using lx0 by (simp add: number_done_def)
  then show ?thesis using that get_unget[OF lx0(2)] started_unget[OF lx0(3)] by simp
qed

lemma scan_negative:
  assumes "value_end r" "0 < n" "n \<le> 2 ^ 63" "ready lx (ws @ CHR ''-'' # dec n @ r)"
    "no_bom lx (ws @ CHR ''-'' # dec n @ r)" "\<forall>w \<in> set ws. whitespace w"
  obtains lx' where "scan lx = (value_integer, lx')" "ready lx' r" "started lx'" "number_integer lx' = - int n"
proof -
  obtain c ds where c: "dec n = c # ds" "is_digit c" by (rule dec_split)
  have "\<not> whitespace (CHR ''-'')" by code_simp
  then obtain lx1 where lx1: "scan lx = scan_token lx1" "current lx1 = Some CHR ''-''"
      "ready lx1 (dec n @ r)" "started lx1"
    using scan_ready[OF assms(4-6)] by blast
  let ?lx2 = "add (CHR ''-'') (reset lx1)"
  have "scan_token lx1 = number_loop Num_minus value_unsigned ?lx2"
    using lx1(2) by (simp add: scan_token_def scan_number_def to_char_type_def)
  also have "\<dots> = number_loop (if c = CHR ''0'' then Num_zero else Num_any1) value_integer (add c (get ?lx2))"
    using lx1(3) c get_Cons[of ?lx2 c "ds @ r"]
    by (subst number_loop.simps) (simp add: number_type_def number_move_def)
  finally have scan: "scan lx = number_loop (if c = CHR ''0'' then Num_zero else Num_any1) value_integer (add c (get ?lx2))"
    using lx1(1) by simp
  obtain lx0 where lx0: "number_loop (if c = CHR ''0'' then Num_zero else Num_any1) value_integer (add c (get ?lx2)) =
      number_done value_integer (get lx0)" "ready lx0 r" "started lx0" "token_buffer lx0 = ''-'' @ dec n"
    using number_loop_dec[OF c(1), of "add c (get ?lx2)" r "''-''"] lx1(3) assms(1) c(1) get_Cons[of ?lx2 c "ds @ r"] by auto
  have "strtoll (''-'' @ dec n) = Some (- int n)"
    using assms(2,3) by (simp add: strtoll_def undec_dec)
  then have "scan lx = (value_integer, (unget (get lx0))\<lparr>number_integer := - int n\<rparr>)"
    using scan lx0 by (simp add: number_done_def)
  then show ?thesis using that get_unget[OF lx0(2)] started_unget[OF lx0(3)] by simp
qed

end
