(* ===== verification/Json_Text.thy ===== *)
theory Json_Text
  imports Json_Tokens
begin

text \<open>
  The text functions of the JSON library put together: what the serializer writes for a value
  without floats is read back by the parser, up to the sign class of integers, whatever the
  indentation. The proof follows the serializer; each text it writes moves the parser from the
  first token of the value to the point after it (\<open>parses\<close>).
\<close>

section \<open>Values that can be written, and what is read back\<close>

primrec json_writable :: "json \<Rightarrow> bool" where
  "json_writable JNull = True"
| "json_writable (JBool b) = True"
| "json_writable (JInt i) = (- (2 ^ 63) \<le> i \<and> i < 2 ^ 63)"
| "json_writable (JUInt w) = True"
| "json_writable (JFloat r) = False"
| "json_writable (JStr s) = utf8 s"
| "json_writable (JArr xs) = list_all (\<lambda>p. p) (map json_writable xs)"
| "json_writable (JObj kvs) =
     (sm_ordered kvs \<and> list_all (\<lambda>(k, p). utf8 k \<and> p) (map (map_prod id json_writable) kvs))"

text \<open>The parser keeps every nonnegative integer as an unsigned one.\<close>

primrec json_stored :: "json \<Rightarrow> json" where
  "json_stored JNull = JNull"
| "json_stored (JBool b) = JBool b"
| "json_stored (JInt i) = (if i < 0 then JInt i else JUInt (word_of_int i))"
| "json_stored (JUInt w) = JUInt w"
| "json_stored (JFloat r) = JFloat r"
| "json_stored (JStr s) = JStr s"
| "json_stored (JArr xs) = JArr (map json_stored xs)"
| "json_stored (JObj kvs) = JObj (map (map_prod id json_stored) kvs)"

lemma json_writable_JArr: "json_writable (JArr xs) \<longleftrightarrow> (\<forall>x \<in> set xs. json_writable x)"
  by (simp add: list_all_iff)

lemma json_writable_JObj:
  "json_writable (JObj kvs) \<longleftrightarrow> sm_ordered kvs \<and> (\<forall>(k, v) \<in> set kvs. utf8 k \<and> json_writable v)"
  by (auto simp: list_all_iff)

declare json_writable.simps(7,8) [simp del]


section \<open>Steps of the parser\<close>

lemma internal_value_done:
  "parse_value p = Value_done q \<Longrightarrow> sax_parse_internal False p = sax_parse_internal True q"
  by (subst (1 2) sax_parse_internal.simps) (simp add: iteration_def)

lemma internal_value_continue:
  "parse_value p = Continue b q \<Longrightarrow> sax_parse_internal False p = sax_parse_internal b q"
  by (subst (1) sax_parse_internal.simps) (simp add: iteration_def)

lemma internal_after_continue:
  "after_value p = Continue b q \<Longrightarrow> sax_parse_internal True p = sax_parse_internal b q"
  by (subst (1) sax_parse_internal.simps) (simp add: iteration_def)

lemma get_token_eq: "scan (m_lexer p) = (t, lx) \<Longrightarrow> get_token p = p\<lparr>last_token := t, m_lexer := lx\<rparr>"
  by (simp add: get_token_def)

text \<open>Reading \<open>t\<close> takes the parser from before the value to after it.\<close>

definition reads :: "parser \<Rightarrow> parser \<Rightarrow> json \<Rightarrow> string \<Rightarrow> bool" where
  "reads p q j r \<longleftrightarrow>
     sax_parse_internal False (get_token p) = sax_parse_internal True q \<and>
     ready (m_lexer q) r \<and> started (m_lexer q) \<and> sax q = handle_value j (sax p) \<and> states q = states p"

definition before :: "parser \<Rightarrow> string \<Rightarrow> bool" where
  "before p s \<longleftrightarrow> ready (m_lexer p) s \<and> no_bom (m_lexer p) s"

definition parses :: "string \<Rightarrow> json \<Rightarrow> bool" where
  "parses t j \<longleftrightarrow>
     (\<forall>p ws r. before p (ws @ t @ r) \<longrightarrow> (\<forall>w \<in> set ws. whitespace w) \<longrightarrow> value_end r \<longrightarrow>
        last_token (get_token p) \<noteq> end_array \<and> (\<exists>q. reads p q j r))"

lemma parses_scalar:
  assumes "\<And>lx ws r. ready lx (ws @ t @ r) \<Longrightarrow> no_bom lx (ws @ t @ r) \<Longrightarrow> \<forall>w \<in> set ws. whitespace w \<Longrightarrow>
      value_end r \<Longrightarrow> \<exists>tok lx'. scan lx = (tok, lx') \<and> ready lx' r \<and> started lx' \<and> tok \<noteq> end_array \<and>
        (\<forall>p. last_token p = tok \<longrightarrow> m_lexer p = lx' \<longrightarrow> parse_value p = give_value j p)"
  shows "parses t j"
  unfolding parses_def
proof (intro allI impI)
  fix p :: parser and ws r
  assume *: "before p (ws @ t @ r)" "\<forall>w \<in> set ws. whitespace w" "value_end r"
  then obtain tok lx' where lx': "scan (m_lexer p) = (tok, lx')" "ready lx' r" "started lx'" "tok \<noteq> end_array"
      "\<forall>p. last_token p = tok \<longrightarrow> m_lexer p = lx' \<longrightarrow> parse_value p = give_value j p"
    using assms[of "m_lexer p" ws r] unfolding before_def by blast
  let ?q = "(get_token p)\<lparr>sax := handle_value j (sax p)\<rparr>"
  note tok = get_token_eq[OF lx'(1)]
  have "parse_value (get_token p) = give_value j (get_token p)" using lx'(5) by (simp add: tok)
  then have "parse_value (get_token p) = Value_done ?q" by (simp add: give_value_def)
  then have "sax_parse_internal False (get_token p) = sax_parse_internal True ?q" by (rule internal_value_done)
  then have "reads p ?q j r" using lx' by (simp add: reads_def tok)
  then show "last_token (get_token p) \<noteq> end_array \<and> (\<exists>q. reads p q j r)" using lx'(4) by (auto simp: tok)
qed

lemma parses_word:
  assumes "literal_token t tok" "tok \<noteq> end_array" "\<And>p. last_token p = tok \<Longrightarrow> parse_value p = give_value j p"
  shows "parses t j"
proof (rule parses_scalar)
  fix lx ws r
  assume *: "ready lx (ws @ t @ r)" "no_bom lx (ws @ t @ r)" "\<forall>w \<in> set ws. whitespace w"
  obtain lx' where "scan lx = (tok, lx')" "ready lx' r" "started lx'" by (rule scan_word[OF assms(1) *])
  then show "\<exists>tok lx'. scan lx = (tok, lx') \<and> ready lx' r \<and> started lx' \<and> tok \<noteq> end_array \<and>
      (\<forall>p. last_token p = tok \<longrightarrow> m_lexer p = lx' \<longrightarrow> parse_value p = give_value j p)"
    using assms(2,3) by blast
qed

lemma parses_null: "parses ''null'' JNull"
  by (rule parses_word[of _ literal_null]) (simp_all add: literal_token_def parse_value_def)

lemma parses_bool: "parses (if b then ''true'' else ''false'') (JBool b)"
  by (cases b; simp)
    ((rule parses_word[of _ literal_true] parses_word[of _ literal_false];
      simp add: literal_token_def parse_value_def)+)

lemma parses_string:
  assumes "utf8 s"
  shows "parses (CHR 0x22 # escape_text s @ [CHR 0x22]) (JStr s)"
proof (rule parses_scalar)
  fix lx ws r
  assume *: "ready lx (ws @ (CHR 0x22 # escape_text s @ [CHR 0x22]) @ r)"
    "no_bom lx (ws @ (CHR 0x22 # escape_text s @ [CHR 0x22]) @ r)" "\<forall>w \<in> set ws. whitespace w"
  have eq: "(CHR 0x22 # escape_text s @ [CHR 0x22]) @ r = CHR 0x22 # escape_text s @ CHR 0x22 # r" by simp
  obtain lx' where "scan lx = (value_string, lx')" "ready lx' r" "started lx'" "token_buffer lx' = s"
    by (rule scan_string_ready[OF assms *[unfolded eq]])
  then show "\<exists>tok lx'. scan lx = (tok, lx') \<and> ready lx' r \<and> started lx' \<and> tok \<noteq> end_array \<and>
      (\<forall>p. last_token p = tok \<longrightarrow> m_lexer p = lx' \<longrightarrow> parse_value p = give_value (JStr s) p)"
    by (intro exI conjI) (assumption | simp add: parse_value_def)+
qed

lemma parses_unsigned:
  assumes "n < 2 ^ 64"
  shows "parses (dec n) (JUInt (of_nat n))"
proof (rule parses_scalar)
  fix lx ws r
  assume *: "ready lx (ws @ dec n @ r)" "no_bom lx (ws @ dec n @ r)" "\<forall>w \<in> set ws. whitespace w" "value_end r"
  obtain lx' where "scan lx = (value_unsigned, lx')" "ready lx' r" "started lx'" "number_unsigned lx' = of_nat n"
    by (rule scan_unsigned[OF *(4) assms *(1-3)])
  then show "\<exists>tok lx'. scan lx = (tok, lx') \<and> ready lx' r \<and> started lx' \<and> tok \<noteq> end_array \<and>
      (\<forall>p. last_token p = tok \<longrightarrow> m_lexer p = lx' \<longrightarrow> parse_value p = give_value (JUInt (of_nat n)) p)"
    by (intro exI conjI) (assumption | simp add: parse_value_def)+
qed

lemma parses_negative:
  assumes "0 < n" "n \<le> 2 ^ 63"
  shows "parses (CHR ''-'' # dec n) (JInt (- int n))"
proof (rule parses_scalar)
  fix lx ws r
  assume *: "ready lx (ws @ (CHR ''-'' # dec n) @ r)" "no_bom lx (ws @ (CHR ''-'' # dec n) @ r)"
    "\<forall>w \<in> set ws. whitespace w" "value_end r"
  obtain lx' where "scan lx = (value_integer, lx')" "ready lx' r" "started lx'" "number_integer lx' = - int n"
    by (rule scan_negative[OF *(4) assms *(1-3)[unfolded append_Cons]])
  then show "\<exists>tok lx'. scan lx = (tok, lx') \<and> ready lx' r \<and> started lx' \<and> tok \<noteq> end_array \<and>
      (\<forall>p. last_token p = tok \<longrightarrow> m_lexer p = lx' \<longrightarrow> parse_value p = give_value (JInt (- int n)) p)"
    by (intro exI conjI) (assumption | simp add: parse_value_def)+
qed

lemma parses_integer:
  assumes "- (2 ^ 63) \<le> i" "i < 2 ^ 63"
  shows "parses (dump_integer i) (json_stored (JInt i))"
proof (cases "i < 0")
  case True
  then show ?thesis using parses_negative[of "nat (- i)"] assms by (simp add: dump_integer dec_int_def)
next
  case False
  then have "word_of_int i = (of_nat (nat i) :: u64)" by simp
  then show ?thesis using parses_unsigned[of "nat i"] assms False by (simp add: dump_integer dec_int_def)
qed



section \<open>Containers\<close>

abbreviation white :: "string \<Rightarrow> bool" where
  "white ws \<equiv> \<forall>w \<in> set ws. whitespace w"

lemma value_end_Cons: "value_end (c # r) \<longleftrightarrow> \<not> is_digit c \<and> c \<noteq> CHR ''.'' \<and> \<not> exponent_char c"
  by (simp add: value_end_def)

lemma value_end_close:
  "value_end (CHR '','' # r)" "value_end (CHR '']'' # r)" "value_end (CHR ''}'' # r)"
  unfolding value_end_Cons by (code_simp, code_simp, code_simp)

lemma value_end_whitespace: "whitespace w \<Longrightarrow> value_end (w # r)"
  unfolding value_end_Cons whitespace_def by (elim disjE; hypsubst; code_simp)

lemma value_end_white: "white ws \<Longrightarrow> value_end (c # r) \<Longrightarrow> value_end (ws @ c # r)"
  by (cases ws) (simp_all add: value_end_whitespace)

lemma before_started: "ready (m_lexer p) s \<Longrightarrow> started (m_lexer p) \<Longrightarrow> before p s"
  by (simp add: before_def no_bom_def)

lemma parsesD:
  assumes "parses t j" "before p (ws @ t @ r)" "white ws" "value_end r"
  obtains q where "last_token (get_token p) \<noteq> end_array" "reads p q j r"
  using assms unfolding parses_def by blast

text \<open>A token of punctuation in front of the parser.\<close>

lemma get_punctuation:
  assumes "punctuation c t" "before p (ws @ c # s)" "white ws"
  obtains lx where "get_token p = p\<lparr>last_token := t, m_lexer := lx\<rparr>" "ready lx s" "started lx"
proof -
  obtain lx where "scan (m_lexer p) = (t, lx)" "ready lx s" "started lx"
    using scan_punctuation[OF assms(1) _ _ assms(3), of "m_lexer p" s] assms(2) unfolding before_def by blast
  then show ?thesis using that get_token_eq by blast
qed

lemma get_string_token:
  assumes "utf8 k" "before p (ws @ CHR 0x22 # escape_text k @ CHR 0x22 # s)" "white ws"
  obtains lx where "get_token p = p\<lparr>last_token := value_string, m_lexer := lx\<rparr>" "ready lx s" "started lx"
    "token_buffer lx = k"
proof -
  obtain lx where "scan (m_lexer p) = (value_string, lx)" "ready lx s" "started lx" "token_buffer lx = k"
    using scan_string_ready[OF assms(1) _ _ assms(3), of "m_lexer p" s] assms(2) unfolding before_def by blast
  then show ?thesis using that get_token_eq by blast
qed

lemma punctuation_all:
  "punctuation CHR ''['' begin_array" "punctuation CHR '']'' end_array" "punctuation CHR ''{'' begin_object"
  "punctuation CHR ''}'' end_object" "punctuation CHR '':'' name_separator" "punctuation CHR '','' value_separator"
  by (simp_all add: punctuation_def)

definition finishes :: "parser \<Rightarrow> parser \<Rightarrow> json \<Rightarrow> container list \<Rightarrow> bool list \<Rightarrow> string \<Rightarrow> bool" where
  "finishes p q j fs sts r \<longleftrightarrow>
     ready (m_lexer q) r \<and> started (m_lexer q) \<and>
     sax q = handle_value j ((sax p)\<lparr>ref_stack := fs\<rparr>) \<and> states q = sts"

text \<open>From the first element of an open array to the point after the array.\<close>

definition parses_elements :: "string \<Rightarrow> json list \<Rightarrow> bool" where
  "parses_elements t js \<longleftrightarrow>
     (\<forall>p ws ws' acc fs sts r. before p (ws @ t @ ws' @ CHR '']'' # r) \<longrightarrow> white ws \<longrightarrow> white ws' \<longrightarrow>
        states p = True # sts \<longrightarrow> ref_stack (sax p) = Open_array acc # fs \<longrightarrow>
        last_token (get_token p) \<noteq> end_array \<and>
        (\<exists>q. sax_parse_internal False (get_token p) = sax_parse_internal True q \<and>
             finishes p q (JArr (acc @ js)) fs sts r))"

lemma read_element:
  assumes "parses u j" "before p (ws @ u @ r)" "white ws" "value_end r"
    "ref_stack (sax p) = Open_array acc # fs"
  obtains q where "last_token (get_token p) \<noteq> end_array"
    "sax_parse_internal False (get_token p) = sax_parse_internal True q"
    "ready (m_lexer q) r" "started (m_lexer q)" "states q = states p"
    "sax q = (sax p)\<lparr>ref_stack := Open_array (acc @ [j]) # fs\<rparr>"
proof -
  obtain q where q: "last_token (get_token p) \<noteq> end_array" "reads p q j r"
    by (rule parsesD[OF assms(1-4)])
  then have "sax q = (sax p)\<lparr>ref_stack := Open_array (acc @ [j]) # fs\<rparr>"
    using assms(5) by (simp add: reads_def handle_value_def)
  then show ?thesis using that[of q] q by (simp add: reads_def)
qed

lemma elements_single:
  assumes "parses u j" "white ind"
  shows "parses_elements (ind @ u) [j]"
  unfolding parses_elements_def
proof (intro allI impI)
  fix p :: parser and ws ws' acc fs sts r
  assume p: "before p (ws @ (ind @ u) @ ws' @ CHR '']'' # r)" and w: "white ws" "white ws'"
    and sts: "states p = True # sts" and stack: "ref_stack (sax p) = Open_array acc # fs"
  have ve: "value_end (ws' @ CHR '']'' # r)" by (rule value_end_white[OF w(2) value_end_close(2)])
  obtain q where q: "last_token (get_token p) \<noteq> end_array"
      "sax_parse_internal False (get_token p) = sax_parse_internal True q"
      "ready (m_lexer q) (ws' @ CHR '']'' # r)" "started (m_lexer q)" "states q = states p"
      "sax q = (sax p)\<lparr>ref_stack := Open_array (acc @ [j]) # fs\<rparr>"
    using read_element[OF assms(1) _ _ ve stack, of "ws @ ind"] p w(1) assms(2) by auto
  obtain lx where lx: "get_token q = q\<lparr>last_token := end_array, m_lexer := lx\<rparr>" "ready lx r" "started lx"
    by (rule get_punctuation[OF punctuation_all(2) before_started[OF q(3,4)] w(2)])
  let ?q = "(get_token q)\<lparr>sax := sax_end_array (sax q), states := sts\<rparr>"
  have "after_value q = Continue True ?q" using q(5) sts lx(1) by (simp add: after_value_def)
  from internal_after_continue[OF this] have "sax_parse_internal False (get_token p) = sax_parse_internal True ?q"
    using q(2) by simp
  moreover have "finishes p ?q (JArr (acc @ [j])) fs sts r"
    using lx q(6) by (simp add: finishes_def sax_end_array_def)
  ultimately show "last_token (get_token p) \<noteq> end_array \<and>
      (\<exists>q. sax_parse_internal False (get_token p) = sax_parse_internal True q \<and>
           finishes p q (JArr (acc @ [j])) fs sts r)"
    using q(1) by blast
qed

lemma elements_cons:
  assumes "parses u j" "parses_elements t js" "white ind" "white nl"
  shows "parses_elements (ind @ u @ CHR '','' # nl @ t) (j # js)"
  unfolding parses_elements_def
proof (intro allI impI)
  fix p :: parser and ws ws' acc fs sts r
  assume p: "before p (ws @ (ind @ u @ CHR '','' # nl @ t) @ ws' @ CHR '']'' # r)" and w: "white ws" "white ws'"
    and sts: "states p = True # sts" and stack: "ref_stack (sax p) = Open_array acc # fs"
  let ?r = "CHR '','' # nl @ t @ ws' @ CHR '']'' # r"
  have ve: "value_end ?r" by (rule value_end_close)
  obtain q where q: "last_token (get_token p) \<noteq> end_array"
      "sax_parse_internal False (get_token p) = sax_parse_internal True q"
      "ready (m_lexer q) ?r" "started (m_lexer q)" "states q = states p"
      "sax q = (sax p)\<lparr>ref_stack := Open_array (acc @ [j]) # fs\<rparr>"
    using read_element[OF assms(1) _ _ ve stack, of "ws @ ind"] p w(1) assms(3) by auto
  obtain lx where lx: "get_token q = q\<lparr>last_token := value_separator, m_lexer := lx\<rparr>"
      "ready lx (nl @ t @ ws' @ CHR '']'' # r)" "started lx"
    using get_punctuation[OF punctuation_all(6), of q "[]"] before_started[OF q(3,4)] by auto
  let ?p = "get_token q"
  have "after_value q = Continue False (get_token ?p)" using q(5) sts lx(1) by (simp add: after_value_def)
  from internal_after_continue[OF this]
  have run: "sax_parse_internal False (get_token p) = sax_parse_internal False (get_token ?p)"
    using q(2) by simp
  have "before ?p (nl @ t @ ws' @ CHR '']'' # r)" using lx by (simp add: before_started)
  moreover have "states ?p = True # sts" "ref_stack (sax ?p) = Open_array (acc @ [j]) # fs"
    using q(5,6) sts by simp_all
  ultimately obtain q' where "sax_parse_internal False (get_token ?p) = sax_parse_internal True q'"
      "finishes ?p q' (JArr ((acc @ [j]) @ js)) fs sts r"
    using assms(2)[unfolded parses_elements_def] assms(4) w(2) by blast
  moreover from this(2) have "finishes p q' (JArr (acc @ j # js)) fs sts r"
    using q(6) by (simp add: finishes_def)
  ultimately show "last_token (get_token p) \<noteq> end_array \<and>
      (\<exists>q. sax_parse_internal False (get_token p) = sax_parse_internal True q \<and>
           finishes p q (JArr (acc @ j # js)) fs sts r)"
    using q(1) run by auto
qed

lemma push_get_token: "push_state b (get_token p) = get_token (push_state b p)"
  by (simp add: push_state_def get_token_def Let_def)

lemma parses_array:
  assumes "parses_elements t js" "white w1" "white w2"
  shows "parses (CHR ''['' # w1 @ t @ w2 @ [CHR '']'']) (JArr js)"
  unfolding parses_def
proof (intro allI impI)
  fix p :: parser and ws r
  assume p: "before p (ws @ (CHR ''['' # w1 @ t @ w2 @ [CHR '']'']) @ r)" and w: "white ws"
  obtain lx where lx: "get_token p = p\<lparr>last_token := begin_array, m_lexer := lx\<rparr>"
      "ready lx (w1 @ t @ w2 @ CHR '']'' # r)" "started lx"
    using get_punctuation[OF punctuation_all(1), of p ws] p w by auto
  let ?p0 = "(get_token p)\<lparr>sax := start_array (sax p)\<rparr>"
  let ?p = "push_state True ?p0"
  have "before ?p (w1 @ t @ w2 @ CHR '']'' # r)" using lx by (simp add: before_started)
  moreover have "states ?p = True # states p" "ref_stack (sax ?p) = Open_array [] # ref_stack (sax p)"
    by (simp_all add: start_array_def)
  ultimately obtain q where q: "last_token (get_token ?p) \<noteq> end_array"
      "sax_parse_internal False (get_token ?p) = sax_parse_internal True q"
      "finishes ?p q (JArr ([] @ js)) (ref_stack (sax p)) (states p) r"
    using assms unfolding parses_elements_def by blast
  have "last_token (get_token ?p0) \<noteq> end_array" using q(1) unfolding push_get_token[symmetric] by simp
  then have "parse_value (get_token p) = Continue False (get_token ?p)"
    by (simp add: parse_value_def lx(1) flip: push_get_token)
  from internal_value_continue[OF this] have "sax_parse_internal False (get_token p) = sax_parse_internal True q"
    using q(2) by simp
  then have "reads p q (JArr js) r" using q(3) by (simp add: reads_def finishes_def start_array_def)
  then show "last_token (get_token p) \<noteq> end_array \<and> (\<exists>q. reads p q (JArr js) r)" by (auto simp: lx(1))
qed

lemma parses_empty_array: "parses ''[]'' (JArr [])"
  unfolding parses_def
proof (intro allI impI)
  fix p :: parser and ws r
  assume p: "before p (ws @ ''[]'' @ r)" and w: "white ws"
  obtain lx where lx: "get_token p = p\<lparr>last_token := begin_array, m_lexer := lx\<rparr>"
      "ready lx (CHR '']'' # r)" "started lx"
    using get_punctuation[OF punctuation_all(1), of p ws] p w by auto
  let ?p0 = "(get_token p)\<lparr>sax := start_array (sax p)\<rparr>"
  obtain lx' where lx': "get_token ?p0 = ?p0\<lparr>last_token := end_array, m_lexer := lx'\<rparr>" "ready lx' r" "started lx'"
    using get_punctuation[OF punctuation_all(2), of ?p0 "[]"] before_started[of ?p0] lx by auto
  let ?q = "(get_token ?p0)\<lparr>sax := sax_end_array (sax (get_token ?p0))\<rparr>"
  have "parse_value (get_token p) = Value_done ?q" using lx' by (simp add: parse_value_def lx(1))
  then have "sax_parse_internal False (get_token p) = sax_parse_internal True ?q" by (rule internal_value_done)
  then have "reads p ?q (JArr []) r" using lx' by (simp add: reads_def sax_end_array_def start_array_def lx(1))
  then show "last_token (get_token p) \<noteq> end_array \<and> (\<exists>q. reads p q (JArr []) r)" by (auto simp: lx(1))
qed



text \<open>A key, the colon and the value of an open object.\<close>

lemma sm_put_again: "sm_put k v (sm_put k w kvs) = sm_put k v kvs"
  by (induction kvs) auto

lemma read_member:
  assumes "utf8 k" "parses u j" "white ws" "white sp" "value_end r"
    "before p (ws @ CHR 0x22 # escape_text k @ CHR 0x22 # CHR '':'' # sp @ u @ r)"
    "ref_stack (sax p) = Open_object acc k0 # fs"
  obtains p2 where "last_token (get_token p) = value_string" "parse_key (get_token p) = Continue False p2"
    "states p2 = states p"
    "\<forall>sts. \<exists>q. sax_parse_internal False (get_token (p2\<lparr>states := sts\<rparr>)) = sax_parse_internal True q \<and>
       ready (m_lexer q) r \<and> started (m_lexer q) \<and> states q = sts \<and>
       sax q = (sax p)\<lparr>ref_stack := Open_object (sm_put k j acc) k # fs\<rparr>"
proof -
  obtain lx where lx: "get_token p = p\<lparr>last_token := value_string, m_lexer := lx\<rparr>"
      "ready lx (CHR '':'' # sp @ u @ r)" "started lx" "token_buffer lx = k"
    using get_string_token[OF assms(1) _ assms(3), of p] assms(6) by blast
  let ?p1 = "(get_token p)\<lparr>sax := sax_key k (sax p)\<rparr>"
  obtain lx' where lx': "get_token ?p1 = ?p1\<lparr>last_token := name_separator, m_lexer := lx'\<rparr>"
      "ready lx' (sp @ u @ r)" "started lx'"
    using get_punctuation[OF punctuation_all(5), of ?p1 "[]"] before_started[of ?p1] lx by auto
  let ?p2 = "get_token ?p1"
  have "parse_key (get_token p) = Continue False ?p2"
    using lx lx'(1) by (simp add: parse_key_def Let_def)
  moreover have "\<exists>q. sax_parse_internal False (get_token (?p2\<lparr>states := sts\<rparr>)) = sax_parse_internal True q \<and>
       ready (m_lexer q) r \<and> started (m_lexer q) \<and> states q = sts \<and>
       sax q = (sax p)\<lparr>ref_stack := Open_object (sm_put k j acc) k # fs\<rparr>" for sts
  proof -
    let ?p3 = "?p2\<lparr>states := sts\<rparr>"
    have "before ?p3 (sp @ u @ r)" using lx' by (simp add: before_started)
    from parsesD[OF assms(2) this assms(4,5)] obtain q where q: "reads ?p3 q j r" by blast
    have "sax ?p3 = sax_key k (sax p)" by simp
    then have "handle_value j (sax ?p3) = (sax p)\<lparr>ref_stack := Open_object (sm_put k j acc) k # fs\<rparr>"
      using assms(7) by (simp add: sax_key_def handle_value_def sm_put_again)
    then show ?thesis using q by (auto simp: reads_def)
  qed
  ultimately show ?thesis using that[of ?p2] lx(1) lx'(1) by simp
qed

definition put_members :: "(string \<times> json) list \<Rightarrow> (string \<times> json) list \<Rightarrow> (string \<times> json) list" where
  "put_members kvs acc = fold (\<lambda>kv. sm_put (fst kv) (snd kv)) kvs acc"

lemma put_members_simps [simp]:
  "put_members [] acc = acc" "put_members ((k, v) # kvs) acc = put_members kvs (sm_put k v acc)"
  by (simp_all add: put_members_def)

text \<open>From the first member of an open object to the point after the object.\<close>

definition member_run :: "parser \<Rightarrow> parser \<Rightarrow> json \<Rightarrow> container list \<Rightarrow> string \<Rightarrow> bool" where
  "member_run p p2 j fs r \<longleftrightarrow>
     last_token (get_token p) = value_string \<and> parse_key (get_token p) = Continue False p2 \<and>
     states p2 = states p \<and>
     (\<forall>sts. \<exists>q. sax_parse_internal False (get_token (p2\<lparr>states := False # sts\<rparr>)) = sax_parse_internal True q \<and>
        finishes p q j fs sts r)"

definition parses_members :: "string \<Rightarrow> (string \<times> json) list \<Rightarrow> bool" where
  "parses_members t kvs \<longleftrightarrow>
     (\<forall>p ws ws' acc k0 fs r. before p (ws @ t @ ws' @ CHR ''}'' # r) \<longrightarrow> white ws \<longrightarrow> white ws' \<longrightarrow>
        ref_stack (sax p) = Open_object acc k0 # fs \<longrightarrow>
        (\<exists>p2. member_run p p2 (JObj (put_members kvs acc)) fs r))"

lemma members_single:
  assumes "utf8 k" "parses u j" "white ind" "white sp"
  shows "parses_members (ind @ CHR 0x22 # escape_text k @ CHR 0x22 # CHR '':'' # sp @ u) [(k, j)]"
  unfolding parses_members_def
proof (intro allI impI)
  fix p :: parser and ws ws' acc k0 fs r
  assume p: "before p (ws @ (ind @ CHR 0x22 # escape_text k @ CHR 0x22 # CHR '':'' # sp @ u) @ ws' @ CHR ''}'' # r)"
    and w: "white ws" "white ws'" and stack: "ref_stack (sax p) = Open_object acc k0 # fs"
  let ?r = "ws' @ CHR ''}'' # r"
  have ve: "value_end ?r" by (rule value_end_white[OF w(2) value_end_close(3)])
  have wi: "white (ws @ ind)" using w assms(3) by auto
  have p': "before p ((ws @ ind) @ CHR 0x22 # escape_text k @ CHR 0x22 # CHR '':'' # sp @ u @ ?r)" using p by simp
  obtain p2 where p2: "last_token (get_token p) = value_string" "parse_key (get_token p) = Continue False p2"
      "states p2 = states p"
      "\<forall>sts. \<exists>q. sax_parse_internal False (get_token (p2\<lparr>states := sts\<rparr>)) = sax_parse_internal True q \<and>
       ready (m_lexer q) ?r \<and> started (m_lexer q) \<and> states q = sts \<and>
       sax q = (sax p)\<lparr>ref_stack := Open_object (sm_put k j acc) k # fs\<rparr>"
    by (rule read_member[OF assms(1,2) wi assms(4) ve p' stack])
  have "\<exists>q. sax_parse_internal False (get_token (p2\<lparr>states := False # sts\<rparr>)) = sax_parse_internal True q \<and>
        finishes p q (JObj (put_members [(k, j)] acc)) fs sts r" for sts
  proof -
    obtain q where q: "sax_parse_internal False (get_token (p2\<lparr>states := False # sts\<rparr>)) = sax_parse_internal True q"
        "ready (m_lexer q) ?r" "started (m_lexer q)" "states q = False # sts"
        "sax q = (sax p)\<lparr>ref_stack := Open_object (sm_put k j acc) k # fs\<rparr>"
      using p2(4)[THEN spec, of "False # sts"] by blast
    obtain lx where lx: "get_token q = q\<lparr>last_token := end_object, m_lexer := lx\<rparr>" "ready lx r" "started lx"
      by (rule get_punctuation[OF punctuation_all(4) before_started[OF q(2,3)] w(2)])
    let ?q = "(get_token q)\<lparr>sax := sax_end_object (sax q), states := sts\<rparr>"
    have "after_value q = Continue True ?q" using q(4) lx(1) by (simp add: after_value_def)
    from internal_after_continue[OF this] q(1)
    have "sax_parse_internal False (get_token (p2\<lparr>states := False # sts\<rparr>)) = sax_parse_internal True ?q" by simp
    moreover have "finishes p ?q (JObj (put_members [(k, j)] acc)) fs sts r"
      using lx q(5) by (simp add: finishes_def sax_end_object_def)
    ultimately show ?thesis by blast
  qed
  then show "\<exists>p2. member_run p p2 (JObj (put_members [(k, j)] acc)) fs r"
    using p2(1-3) unfolding member_run_def by blast
qed

lemma members_cons:
  assumes "utf8 k" "parses u j" "parses_members t kvs" "white ind" "white sp" "white nl"
  shows "parses_members (ind @ CHR 0x22 # escape_text k @ CHR 0x22 # CHR '':'' # sp @ u @ CHR '','' # nl @ t)
    ((k, j) # kvs)"
  unfolding parses_members_def
proof (intro allI impI)
  fix p :: parser and ws ws' acc k0 fs r
  assume p: "before p (ws @ (ind @ CHR 0x22 # escape_text k @ CHR 0x22 # CHR '':'' # sp @ u @ CHR '','' # nl @ t) @
      ws' @ CHR ''}'' # r)"
    and w: "white ws" "white ws'" and stack: "ref_stack (sax p) = Open_object acc k0 # fs"
  let ?tail = "nl @ t @ ws' @ CHR ''}'' # r"
  let ?r = "CHR '','' # ?tail"
  have ve: "value_end ?r" by (rule value_end_close)
  have wi: "white (ws @ ind)" using w assms(4) by auto
  have p': "before p ((ws @ ind) @ CHR 0x22 # escape_text k @ CHR 0x22 # CHR '':'' # sp @ u @ ?r)" using p by simp
  obtain p2 where p2: "last_token (get_token p) = value_string" "parse_key (get_token p) = Continue False p2"
      "states p2 = states p"
      "\<forall>sts. \<exists>q. sax_parse_internal False (get_token (p2\<lparr>states := sts\<rparr>)) = sax_parse_internal True q \<and>
       ready (m_lexer q) ?r \<and> started (m_lexer q) \<and> states q = sts \<and>
       sax q = (sax p)\<lparr>ref_stack := Open_object (sm_put k j acc) k # fs\<rparr>"
    by (rule read_member[OF assms(1,2) wi assms(5) ve p' stack])
  have "\<exists>q. sax_parse_internal False (get_token (p2\<lparr>states := False # sts\<rparr>)) = sax_parse_internal True q \<and>
        finishes p q (JObj (put_members ((k, j) # kvs) acc)) fs sts r" for sts
  proof -
    obtain q where q: "sax_parse_internal False (get_token (p2\<lparr>states := False # sts\<rparr>)) = sax_parse_internal True q"
        "ready (m_lexer q) ?r" "started (m_lexer q)" "states q = False # sts"
        "sax q = (sax p)\<lparr>ref_stack := Open_object (sm_put k j acc) k # fs\<rparr>"
      using p2(4)[THEN spec, of "False # sts"] by blast
    obtain lx where lx: "get_token q = q\<lparr>last_token := value_separator, m_lexer := lx\<rparr>" "ready lx ?tail" "started lx"
      using get_punctuation[OF punctuation_all(6), of q "[]"] before_started[OF q(2,3)] by auto
    let ?p = "get_token q"
    have "before ?p (nl @ t @ ws' @ CHR ''}'' # r)" using lx by (simp add: before_started)
    moreover have "ref_stack (sax ?p) = Open_object (sm_put k j acc) k # fs" using q(5) by simp
    ultimately obtain p3 where p3: "member_run ?p p3 (JObj (put_members kvs (sm_put k j acc))) fs r"
      using assms(3)[unfolded parses_members_def] assms(6) w(2) by blast
    then have key: "parse_key (get_token ?p) = Continue False p3" "states p3 = False # sts"
      using q(4) by (simp_all add: member_run_def)
    have "after_value q = Continue False (get_token p3)" using q(4) lx(1) key(1) by (simp add: after_value_def)
    moreover have "p3\<lparr>states := False # sts\<rparr> = p3" using key(2) by simp
    moreover obtain q' where "sax_parse_internal False (get_token (p3\<lparr>states := False # sts\<rparr>)) = sax_parse_internal True q'"
        "finishes ?p q' (JObj (put_members kvs (sm_put k j acc))) fs sts r"
      using p3 unfolding member_run_def by blast
    ultimately have "sax_parse_internal False (get_token (p2\<lparr>states := False # sts\<rparr>)) = sax_parse_internal True q'"
        "finishes p q' (JObj (put_members ((k, j) # kvs) acc)) fs sts r"
      using internal_after_continue[of q False "get_token p3"] q(1,5) by (simp_all add: finishes_def)
    then show ?thesis by blast
  qed
  then show "\<exists>p2. member_run p p2 (JObj (put_members ((k, j) # kvs) acc)) fs r"
    using p2(1-3) unfolding member_run_def by blast
qed

lemma parses_object:
  assumes "parses_members t kvs" "white w1" "white w2" "put_members kvs [] = kvs"
  shows "parses (CHR ''{'' # w1 @ t @ w2 @ [CHR ''}'']) (JObj kvs)"
  unfolding parses_def
proof (intro allI impI)
  fix p :: parser and ws r
  assume p: "before p (ws @ (CHR ''{'' # w1 @ t @ w2 @ [CHR ''}'']) @ r)" and w: "white ws"
  obtain lx where lx: "get_token p = p\<lparr>last_token := begin_object, m_lexer := lx\<rparr>"
      "ready lx (w1 @ t @ w2 @ CHR ''}'' # r)" "started lx"
    using get_punctuation[OF punctuation_all(3), of p ws] p w by auto
  let ?p = "(get_token p)\<lparr>sax := start_object (sax p)\<rparr>"
  have "before ?p (w1 @ t @ w2 @ CHR ''}'' # r)" using lx by (simp add: before_started)
  moreover have "ref_stack (sax ?p) = Open_object [] [] # ref_stack (sax p)" by (simp add: start_object_def)
  ultimately obtain p2 where "member_run ?p p2 (JObj (put_members kvs [])) (ref_stack (sax p)) r"
    using assms(1)[unfolded parses_members_def] assms(2,3) by blast
  then obtain q where key: "last_token (get_token ?p) = value_string" "parse_key (get_token ?p) = Continue False p2"
      "states p2 = states p" and
      q: "sax_parse_internal False (get_token (p2\<lparr>states := False # states p\<rparr>)) = sax_parse_internal True q"
      "finishes ?p q (JObj kvs) (ref_stack (sax p)) (states p) r"
    unfolding member_run_def assms(4) by auto
  have "push_state False p2 = p2\<lparr>states := False # states p\<rparr>" using key(3) by (simp add: push_state_def)
  then have "parse_value (get_token p) = Continue False (get_token (p2\<lparr>states := False # states p\<rparr>))"
    using key(1,2) by (simp add: parse_value_def lx(1))
  from internal_value_continue[OF this] have "sax_parse_internal False (get_token p) = sax_parse_internal True q"
    using q(1) by simp
  then have "reads p q (JObj kvs) r" using q(2) by (simp add: reads_def finishes_def start_object_def)
  then show "last_token (get_token p) \<noteq> end_array \<and> (\<exists>q. reads p q (JObj kvs) r)" by (auto simp: lx(1))
qed

lemma parses_empty_object: "parses ''{}'' (JObj [])"
  unfolding parses_def
proof (intro allI impI)
  fix p :: parser and ws r
  assume p: "before p (ws @ ''{}'' @ r)" and w: "white ws"
  obtain lx where lx: "get_token p = p\<lparr>last_token := begin_object, m_lexer := lx\<rparr>"
      "ready lx (CHR ''}'' # r)" "started lx"
    using get_punctuation[OF punctuation_all(3), of p ws] p w by auto
  let ?p0 = "(get_token p)\<lparr>sax := start_object (sax p)\<rparr>"
  obtain lx' where lx': "get_token ?p0 = ?p0\<lparr>last_token := end_object, m_lexer := lx'\<rparr>" "ready lx' r" "started lx'"
    using get_punctuation[OF punctuation_all(4), of ?p0 "[]"] before_started[of ?p0] lx by auto
  let ?q = "(get_token ?p0)\<lparr>sax := sax_end_object (sax (get_token ?p0))\<rparr>"
  have "parse_value (get_token p) = Value_done ?q" using lx' by (simp add: parse_value_def lx(1))
  then have "sax_parse_internal False (get_token p) = sax_parse_internal True ?q" by (rule internal_value_done)
  then have "reads p ?q (JObj []) r" using lx' by (simp add: reads_def sax_end_object_def start_object_def lx(1))
  then show "last_token (get_token p) \<noteq> end_array \<and> (\<exists>q. reads p q (JObj []) r)" by (auto simp: lx(1))
qed



section \<open>Everything the serializer writes\<close>

lemma sm_put_last: "\<forall>kv \<in> set kvs. fst kv < k \<Longrightarrow> sm_put k v kvs = kvs @ [(k, v)]"
  by (induction kvs) (auto dest: less_not_sym)

lemma put_members_ordered: "sm_ordered (acc @ kvs) \<Longrightarrow> put_members kvs acc = acc @ kvs"
proof (induction kvs arbitrary: acc)
  case (Cons kv kvs)
  obtain k v where kv: "kv = (k, v)" by (cases kv)
  have "\<forall>kv \<in> set acc. fst kv < k" using Cons.prems by (auto simp: sm_ordered_def sorted_wrt_append kv)
  then have "sm_put k v acc = acc @ [(k, v)]" by (rule sm_put_last)
  then show ?case using Cons.IH[of "acc @ [(k, v)]"] Cons.prems by (simp add: kv)
qed simp

lemma white_indent: "white (indent n)"
  by (simp add: indent_def whitespace_def)

definition line_end :: "bool \<Rightarrow> string" where
  "line_end pretty = (if pretty then [CHR 0x0A] else [])"

lemma white_line_end: "white (line_end pretty)"
  by (simp add: line_end_def whitespace_def)

lemma whitespace_space: "whitespace CHR '' ''" "whitespace CHR 0x0A"
  by (simp_all add: whitespace_def)

text \<open>The text of a value, its shape at the front, and what the parser makes of it.\<close>

definition written :: "string \<Rightarrow> json \<Rightarrow> bool" where
  "written t j \<longleftrightarrow> t \<noteq> [] \<and> hd t \<noteq> CHR 0xEF \<and> parses t (json_stored j)"

lemma written_elements:
  assumes "\<And>x. x \<in> set xs \<Longrightarrow> \<exists>t. dump_value S pretty False step cur x = Inr t \<and> written t x"
    "xs \<noteq> []"
  shows "\<exists>t. dump_elements S pretty False step cur xs = Inr t \<and> t \<noteq> [] \<and> parses_elements t (map json_stored xs)"
  using assms
proof (induction xs)
  case (Cons x xs)
  let ?ind = "if pretty then indent cur else []"
  have wi: "white ?ind" using white_indent[of cur] by auto
  obtain u where u: "dump_value S pretty False step cur x = Inr u" "written u x" using Cons.prems(1) by auto
  show ?case
  proof (cases "xs = []")
    case True
    then show ?thesis using u elements_single[OF _ wi, of u "json_stored x"]
      by (cases pretty) (simp_all add: written_def)
  next
    case False
    then obtain t where t: "dump_elements S pretty False step cur xs = Inr t" "parses_elements t (map json_stored xs)"
      using Cons by auto
    from elements_cons[OF _ t(2) wi white_line_end] u(2)
    have "parses_elements (?ind @ u @ CHR '','' # line_end pretty @ t) (json_stored x # map json_stored xs)"
      by (simp add: written_def)
    then show ?thesis using u t(1) False by (cases pretty) (simp_all add: line_end_def)
  qed
qed simp

lemma written_members:
  assumes "\<And>k v. (k, v) \<in> set kvs \<Longrightarrow> \<exists>t. dump_value S pretty False step cur v = Inr t \<and> written t v"
    "\<And>k v. (k, v) \<in> set kvs \<Longrightarrow> utf8 k" "kvs \<noteq> []" "error_handler S = Handler_strict"
  shows "\<exists>t. dump_members S pretty False step cur kvs = Inr t \<and>
    parses_members t (map (map_prod id json_stored) kvs)"
  using assms
proof (induction kvs)
  case (Cons kv kvs)
  obtain k v where kv: "kv = (k, v)" by (cases kv)
  let ?ind = "if pretty then indent cur else []" and ?sp = "if pretty then '' '' else []"
  have wi: "white ?ind" "white ?sp" using white_indent[of cur] by (auto simp: whitespace_space)
  have k: "utf8 k" "dump_escaped (error_handler S) False k = Inr (escape_text k)"
    using Cons.prems(2)[of k v] Cons.prems(4) by (simp_all add: dump_escaped_strict kv)
  obtain u where u: "dump_value S pretty False step cur v = Inr u" "written u v"
    using Cons.prems(1)[of k v] kv by auto
  then have pu: "parses u (json_stored v)" by (simp add: written_def)
  show ?case
  proof (cases "kvs = []")
    case True
    then show ?thesis using u(1) k(2) members_single[OF k(1) pu wi] by (cases pretty) (simp_all add: kv)
  next
    case False
    have "\<exists>t. dump_members S pretty False step cur kvs = Inr t \<and>
        parses_members t (map (map_prod id json_stored) kvs)"
      by (rule Cons.IH) (use Cons.prems False in auto)
    then obtain t where t: "dump_members S pretty False step cur kvs = Inr t"
        "parses_members t (map (map_prod id json_stored) kvs)" by blast
    from members_cons[OF k(1) pu t(2) wi white_line_end[of pretty]] show ?thesis
      using u(1) k(2) t(1) False by (cases pretty) (simp_all add: kv line_end_def id_def)
  qed
qed simp

lemma written_value:
  "json_writable j \<Longrightarrow> error_handler S = Handler_strict \<Longrightarrow>
   \<exists>t. dump_value S pretty False step cur j = Inr t \<and> written t j"
proof (induction j arbitrary: pretty cur)
  case (JBool b)
  show ?case using parses_bool[of b] by (simp add: written_def)
next
  case JNull
  show ?case using parses_null by (simp add: written_def)
next
  case (JInt i)
  then have i: "dump_integer i = dec_int i" by (simp add: dump_integer)
  obtain c ds where "dec (nat i) = c # ds" "is_digit c" by (rule dec_split)
  moreover have "\<not> is_digit (CHR 0xEF)" by code_simp
  ultimately have "dec_int i \<noteq> [] \<and> hd (dec_int i) \<noteq> CHR 0xEF" by (auto simp: dec_int_def)
  then show ?case using parses_integer[of i] JInt.prems(1) i by (simp add: written_def)
next
  case (JUInt w)
  obtain c ds where "to_string w = c # ds" "is_digit c" unfolding to_string_def by (rule dec_split)
  moreover have "\<not> is_digit (CHR 0xEF)" by code_simp
  ultimately have "to_string w \<noteq> [] \<and> hd (to_string w) \<noteq> CHR 0xEF" by auto
  then show ?case using parses_unsigned[of "unat w"] unsigned_less[of w]
    by (simp add: written_def dump_unsigned to_string_def)
next
  case (JFloat r)
  then show ?case by simp
next
  case (JStr s)
  then show ?case using parses_string[of s] by (simp add: dump_escaped_strict written_def)
next
  case (JArr xs)
  show ?case
  proof (cases "xs = []")
    case True
    then show ?thesis using parses_empty_array by (simp add: written_def)
  next
    case False
    have "\<exists>t. dump_value S b False step c x = Inr t \<and> written t x" if "x \<in> set xs" for x b c
      using JArr.IH[OF that] JArr.prems that by (simp add: json_writable_JArr)
    then have el: "\<exists>t. dump_elements S b False step c xs = Inr t \<and> parses_elements t (map json_stored xs)" for b c
      using written_elements[of xs S b step c] False by blast
    show ?thesis
    proof (cases pretty)
      case True
      obtain t where "dump_elements S True False step (cur + step) xs = Inr t" "parses_elements t (map json_stored xs)"
        using el by blast
      moreover from parses_array[OF this(2), of "[CHR 0x0A]" "CHR 0x0A # indent cur"]
      have "parses (''['' @ [CHR 0x0A] @ t @ [CHR 0x0A] @ indent cur @ '']'') (JArr (map json_stored xs))"
        using white_indent whitespace_space by simp
      ultimately show ?thesis using False True by (simp add: written_def)
    next
      case compact: False
      obtain t where "dump_elements S False False step cur xs = Inr t" "parses_elements t (map json_stored xs)"
        using el by blast
      then show ?thesis using parses_array[of t _ "[]" "[]"] False compact by (simp add: written_def)
    qed
  qed
next
  case (JObj kvs)
  show ?case
  proof (cases "kvs = []")
    case True
    then show ?thesis using parses_empty_object by (simp add: written_def)
  next
    case False
    let ?kvs = "map (map_prod id json_stored) kvs"
    have w: "utf8 k \<and> json_writable v" if "(k, v) \<in> set kvs" for k v
      using JObj.prems(1) that by (auto simp: json_writable_JObj)
    have "\<exists>t. dump_value S b False step c v = Inr t \<and> written t v" if "(k, v) \<in> set kvs" for k v b c
      using JObj.IH[OF that] w[OF that] JObj.prems(2) by simp
    then have el: "\<exists>t. dump_members S b False step c kvs = Inr t \<and> parses_members t ?kvs" for b c
      using written_members[of kvs S b step c] False w JObj.prems(2) by blast
    have "sm_ordered ([] @ ?kvs)" using JObj.prems(1) by (simp add: json_writable_JObj sm_ordered_def o_def)
    then have put: "put_members ?kvs [] = ?kvs" using put_members_ordered by fastforce
    show ?thesis
    proof (cases pretty)
      case True
      obtain t where "dump_members S True False step (cur + step) kvs = Inr t" "parses_members t ?kvs"
        using el by blast
      moreover from parses_object[OF this(2) _ _ put, of "[CHR 0x0A]" "CHR 0x0A # indent cur"]
      have "parses (''{'' @ [CHR 0x0A] @ t @ [CHR 0x0A] @ indent cur @ ''}'') (JObj ?kvs)"
        using white_indent whitespace_space by simp
      ultimately show ?thesis using False True by (simp add: written_def)
    next
      case compact: False
      obtain t where "dump_members S False False step cur kvs = Inr t" "parses_members t ?kvs"
        using el by blast
      then show ?thesis using parses_object[of t ?kvs "[]" "[]"] put False compact by (simp add: written_def)
    qed
  qed
qed



section \<open>Whole texts\<close>

lemma new_lexer_before:
  assumes "s = [] \<or> hd s \<noteq> CHR 0xEF"
  shows "before \<lparr>m_lexer = new_lexer s False, last_token = t, states = sts, sax = d\<rparr> s"
  using assms by (simp add: before_def ready_def no_bom_def started_def new_lexer_def)

lemma parsed_value:
  assumes "written t j" "white ws" "value_end r"
  obtains q where "sax_parse_internal False (new_parser (ws @ t @ r) False) = Inr q"
    "ready (m_lexer q) r" "started (m_lexer q)" "root (sax q) = json_stored j"
proof -
  define p0 where "p0 = \<lparr>m_lexer = new_lexer (ws @ t @ r) False, last_token = uninitialized, states = [],
    sax = \<lparr>root = JNull, ref_stack = []\<rparr>\<rparr>"
  have "\<not> whitespace CHR 0xEF" by code_simp
  then have "hd (ws @ t @ r) \<noteq> CHR 0xEF" using assms(1,2) by (cases ws) (auto simp: written_def)
  then have "before p0 (ws @ t @ r)" unfolding p0_def by (intro new_lexer_before) simp
  then obtain q where q: "reads p0 q (json_stored j) r"
    using parsesD[of t "json_stored j" p0 ws r] assms by (auto simp: written_def)
  have "after_value q = Return q" using q by (simp add: reads_def after_value_def p0_def)
  then have "sax_parse_internal True q = Inr q" by (subst sax_parse_internal.simps) (simp add: iteration_def)
  then have "sax_parse_internal False (new_parser (ws @ t @ r) False) = Inr q"
    using q by (simp add: reads_def new_parser_def p0_def)
  then show ?thesis using that q by (simp add: reads_def handle_value_def p0_def)
qed

lemma json_dump_written:
  assumes "json_writable j"
  obtains t where "json_dump floats ind False Handler_strict j = Inr t" "written t j"
proof -
  define S where "S = \<lparr>error_handler = Handler_strict, float_chars = floats\<rparr>"
  have "\<exists>t. dump_value S b False step cur j = Inr t \<and> written t j" for b step cur
    using written_value[OF assms, of S b step cur] by (simp add: S_def)
  then have "\<exists>t. json_dump floats ind False Handler_strict j = Inr t \<and> written t j"
    by (simp add: json_dump_def S_def[symmetric])
  then show ?thesis using that by blast
qed

text \<open>Strict parsing, with white space around the value.\<close>

lemma json_parse_written:
  assumes "written t j" "white ws" "white ws'"
  shows "json_parse (ws @ t @ ws') = Inr (json_stored j)"
proof -
  have ve: "value_end ws'" using assms(3) by (cases ws') (simp_all add: value_end_whitespace, simp add: value_end_def)
  obtain q where q: "sax_parse_internal False (new_parser (ws @ t @ ws') False) = Inr q"
      "ready (m_lexer q) ws'" "started (m_lexer q)" "root (sax q) = json_stored j"
    by (rule parsed_value[OF assms(1,2) ve])
  have "last_token (get_token q) = end_of_input"
    using scan_end[OF q(2) _ assms(3)] q(3) by (simp add: get_token_def Let_def no_bom_def)
  then show ?thesis using q(1,4) by (simp add: json_parse_def parser_parse_def)
qed

text \<open>Non-strict parsing looks at no more than the byte after the value.\<close>

lemma json_read_written:
  assumes "written t j" "white ws" "value_end r"
  shows "json_read (ws @ t @ r) = Inr (json_stored j)"
  using parsed_value[OF assms] by (force simp: json_read_def parser_parse_def)

lemma json_parse_nul:
  assumes "written t j" "white ws" "white ws'"
  shows "json_parse (ws @ t @ ws' @ CHR 0x00 # r) = Inr (json_stored j)"
proof -
  have "\<not> whitespace CHR 0x00" "\<not> is_digit CHR 0x00" "\<not> exponent_char CHR 0x00" by code_simp+
  then have ve: "value_end (ws' @ CHR 0x00 # r)"
    using assms(3) by (intro value_end_white) (simp_all add: value_end_Cons)
  obtain q where q: "sax_parse_internal False (new_parser (ws @ t @ ws' @ CHR 0x00 # r) False) = Inr q"
      "ready (m_lexer q) (ws' @ CHR 0x00 # r)" "started (m_lexer q)" "root (sax q) = json_stored j"
    by (rule parsed_value[OF assms(1,2) ve])
  obtain lx1 where "scan (m_lexer q) = scan_token lx1" "current lx1 = Some CHR 0x00"
    using scan_ready[OF q(2) _ assms(3) \<open>\<not> whitespace CHR 0x00\<close>] q(3) by (auto simp: no_bom_def)
  then have "last_token (get_token q) = end_of_input"
    using \<open>\<not> is_digit CHR 0x00\<close> by (simp add: get_token_def Let_def scan_token_def)
  then show ?thesis using q(1,4) by (simp add: json_parse_def parser_parse_def)
qed

text \<open>Plain values are written and stored as they are.\<close>

lemma json_plain_writable: "json_plain j \<Longrightarrow> json_writable j"
  by (induction j) (auto simp: json_writable_JArr json_writable_JObj json_plain_JObj ascii_utf8)

lemma json_plain_stored: "json_plain j \<Longrightarrow> json_stored j = j"
proof (induction j)
  case (JArr xs)
  then show ?case by (simp add: map_idI)
next
  case (JObj kvs)
  then show ?case by (auto simp: json_plain_JObj intro!: map_idI)
qed auto



section \<open>When the serializer throws\<close>

text \<open>The strings and keys of a value.\<close>

primrec json_strings :: "json \<Rightarrow> string list" where
  "json_strings JNull = []"
| "json_strings (JBool b) = []"
| "json_strings (JInt i) = []"
| "json_strings (JUInt w) = []"
| "json_strings (JFloat r) = []"
| "json_strings (JStr s) = [s]"
| "json_strings (JArr xs) = concat (map json_strings xs)"
| "json_strings (JObj kvs) = concat (map (\<lambda>(k, ss). k # ss) (map (map_prod id json_strings) kvs))"

definition all_utf8 :: "json \<Rightarrow> bool" where
  "all_utf8 j \<longleftrightarrow> (\<forall>s \<in> set (json_strings j). utf8 s)"

lemma all_utf8_simps [simp]:
  "all_utf8 JNull" "all_utf8 (JBool b)" "all_utf8 (JInt i)" "all_utf8 (JUInt w)" "all_utf8 (JFloat r)"
  "all_utf8 (JStr s) \<longleftrightarrow> utf8 s"
  "all_utf8 (JArr xs) \<longleftrightarrow> (\<forall>x \<in> set xs. all_utf8 x)"
  "all_utf8 (JObj kvs) \<longleftrightarrow> (\<forall>kv \<in> set kvs. utf8 (fst kv) \<and> all_utf8 (snd kv))"
  by (auto simp: all_utf8_def)

definition throws_316 :: "string result \<Rightarrow> bool \<Rightarrow> bool" where
  "throws_316 r ok \<longleftrightarrow> (if ok then \<exists>t. r = Inr t else r = Inl (JsonException 316))"

lemma throws_316_bind:
  assumes "throws_316 r a" "\<And>t. throws_316 (f t) b"
  shows "throws_316 (ebind r f) (a \<and> b)"
  using assms by (cases r) (auto simp: throws_316_def split: if_splits)

lemma throws_316_Inr: "throws_316 (Inr t) True"
  by (simp add: throws_316_def)

lemma throws_elements:
  "(\<And>x. x \<in> set xs \<Longrightarrow> throws_316 (dump_value S b False step cur x) (P x)) \<Longrightarrow>
   throws_316 (dump_elements S b False step cur xs) (\<forall>x \<in> set xs. P x)"
proof (induction xs)
  case (Cons x xs)
  have "throws_316 (dump_elements S b False step cur (x # xs)) (P x \<and> (\<forall>x \<in> set xs. P x) \<and> True)"
    using Cons unfolding dump_elements.simps
    by (intro throws_316_bind) (auto simp: throws_316_def split: if_splits)
  then show ?case by simp
qed (simp add: throws_316_def)

lemma throws_members:
  "error_handler S = Handler_strict \<Longrightarrow>
   (\<And>kv. kv \<in> set kvs \<Longrightarrow> throws_316 (dump_value S b False step cur (snd kv)) (P (snd kv))) \<Longrightarrow>
   throws_316 (dump_members S b False step cur kvs) (\<forall>kv \<in> set kvs. utf8 (fst kv) \<and> P (snd kv))"
proof (induction kvs)
  case (Cons kv kvs)
  obtain k v where kv: "kv = (k, v)" by (cases kv)
  have "throws_316 (dump_escaped (error_handler S) False k) (utf8 k)"
    using Cons.prems(1) by (simp add: throws_316_def dump_escaped_strict)
  moreover have "throws_316 (dump_value S b False step cur v) (P v)" using Cons.prems(2)[of kv] kv by simp
  moreover have rest: "throws_316 (dump_members S b False step cur kvs) (\<forall>kv \<in> set kvs. utf8 (fst kv) \<and> P (snd kv))"
    using Cons by simp
  have "throws_316 (if kvs = [] then Inr [] else ebind (dump_members S b False step cur kvs) f)
      (\<forall>kv \<in> set kvs. utf8 (fst kv) \<and> P (snd kv))" if "\<And>t. \<exists>u. f t = Inr u" for f
    using rest that by (cases "dump_members S b False step cur kvs") (auto simp: throws_316_def split: if_splits)
  ultimately have "throws_316 (dump_members S b False step cur ((k, v) # kvs))
      (utf8 k \<and> P v \<and> (\<forall>kv \<in> set kvs. utf8 (fst kv) \<and> P (snd kv)) \<and> True)"
    unfolding dump_members.simps by (intro throws_316_bind throws_316_Inr) auto
  then show ?case by (simp add: kv conj_ac)
qed (simp add: throws_316_def)

lemma throws_value:
  "error_handler S = Handler_strict \<Longrightarrow> throws_316 (dump_value S b False step cur j) (all_utf8 j)"
proof (induction j arbitrary: b cur)
  case (JStr s)
  then show ?case by (auto simp: throws_316_def dump_escaped_strict)
next
  case (JArr xs)
  have el: "throws_316 (dump_elements S b False step c xs) (all_utf8 (JArr xs))" for b c
    using throws_elements[of xs S b step c all_utf8] JArr by simp
  have "throws_316 (ebind (dump_elements S b False step c xs) (\<lambda>t. Inr (f t))) (all_utf8 (JArr xs))" for b c f
    using throws_316_bind[OF el throws_316_Inr] by simp
  then show ?case by (auto simp: throws_316_def)
next
  case (JObj kvs)
  have "throws_316 (dump_value S b False step c (snd kv)) (all_utf8 (snd kv))" if "kv \<in> set kvs" for kv b c
    using JObj.IH[of kv "snd kv"] JObj.prems that by (cases kv) auto
  then have el: "throws_316 (dump_members S b False step c kvs) (all_utf8 (JObj kvs))" for b c
    using throws_members[of S kvs b step c all_utf8] JObj.prems by simp
  have "throws_316 (ebind (dump_members S b False step c kvs) (\<lambda>t. Inr (f t))) (all_utf8 (JObj kvs))" for b c f
    using throws_316_bind[OF el throws_316_Inr] by simp
  then show ?case by (auto simp: throws_316_def)
qed (simp_all add: throws_316_def)

lemma json_dump_throws:
  "json_dump floats ind False Handler_strict j = Inl e \<longleftrightarrow> e = JsonException 316 \<and> \<not> all_utf8 j"
proof -
  define S where "S = \<lparr>error_handler = Handler_strict, float_chars = floats\<rparr>"
  have "throws_316 (json_dump floats ind False Handler_strict j) (all_utf8 j)"
    using throws_value[of S _ _ _ j] by (simp add: json_dump_def S_def Let_def)
  then show ?thesis by (auto simp: throws_316_def split: if_splits)
qed



section \<open>The text of a parse error\<close>

lemma first_byte_scan:
  fixes c :: char and s :: string
  assumes "0x80 \<le> (of_char c :: nat)" "c \<noteq> CHR 0xEF"
  defines "lx \<equiv> snd (scan (new_lexer (c # s) False))"
  shows "fst (scan (new_lexer (c # s) False)) = parse_error" "token_string lx = [c]"
    "error_message lx = ''invalid literal''"
    "lx_position lx = \<lparr>chars_read_total = 1, chars_read_current_line = 1, lines_read = 0\<rparr>"
proof -
  have ne: "c \<noteq> d" if "(of_char d :: nat) < 0x80" for d using assms(1) that by auto
  have w: "\<not> whitespace c" by (simp add: whitespace_def ne)
  have nl: "Some c \<noteq> Some newline" using ne[of newline] by (simp add: newline_def)
  define p1 where "p1 = \<lparr>chars_read_total = 1, chars_read_current_line = 1, lines_read = 0\<rparr>"
  define lx0 where "lx0 = new_lexer (c # s) False"
  define lx1 where "lx1 = lx0\<lparr>ia := s, current := Some c, token_string := [c], lx_position := p1\<rparr>"
  define lx2 where "lx2 = lx0\<lparr>ia := s, current := Some c, next_unget := True\<rparr>"
  have get0: "get lx0 = lx1"
    using nl by (simp add: get_def lx0_def lx1_def p1_def new_lexer_def advance_def)
  have un: "unget lx1 = lx2"
    by (simp add: unget_def retreat_def Let_def lx0_def lx1_def lx2_def p1_def new_lexer_def)
  have get2: "get lx2 = lx1"
    using nl by (simp add: get_def lx0_def lx1_def lx2_def p1_def new_lexer_def advance_def)
  have lx1: "current lx1 = Some c" "\<not> ignore_comments lx1" "chars_read_total (lx_position lx0) = 0"
    by (simp_all add: lx1_def lx0_def new_lexer_def)
  have "skip_bom lx0 = (True, lx2)" using assms(2) by (simp add: skip_bom_def get0 un lx1)
  moreover have "skip_whitespace lx2 = lx1" using w by (subst skip_whitespace.simps) (simp add: get2 lx1)
  moreover have "skip_comments_loop lx1 = (True, lx1)" by (subst skip_comments_loop.simps) (simp add: lx1)
  ultimately have "scan lx0 = scan_token lx1" using lx1(3) by (simp add: scan_def)
  moreover have "scan_token lx1 = lex_error ''invalid literal'' lx1"
    using ne assms(1) by (simp add: scan_token_def lx1 is_digit_iff)
  ultimately have "scan lx0 = lex_error ''invalid literal'' lx1" by simp
  then show "fst (scan (new_lexer (c # s) False)) = parse_error" "token_string lx = [c]"
      "error_message lx = ''invalid literal''"
      "lx_position lx = \<lparr>chars_read_total = 1, chars_read_current_line = 1, lines_read = 0\<rparr>"
    by (simp_all add: lx_def lex_error_def lx0_def[symmetric] lx1_def p1_def)
qed

lemma ascii_joined: "ascii (s @ t) \<longleftrightarrow> ascii s \<and> ascii t"
  by (auto simp: ascii_def)

lemma first_byte_error:
  assumes "0x80 \<le> (of_char c :: nat)" "c \<noteq> CHR 0xEF"
  obtains pre where "ascii pre" "json_parse (c # s) = Inl (101, pre @ [c, CHR 0x27])"
proof -
  let ?p = "new_parser (c # s) False"
  note sc = first_byte_scan[OF assms, of s]
  define pre where "pre = exception_name ''parse_error'' 101 @ ''parse error'' @
    position_string \<lparr>chars_read_total = 1, chars_read_current_line = 1, lines_read = 0\<rparr> @ '': '' @
    ''syntax error while parsing value - invalid literal; last read: '' @ [CHR 0x27]"
  have p: "last_token ?p = parse_error" "m_lexer ?p = snd (scan (new_lexer (c # s) False))"
    using sc by (simp_all add: new_parser_def get_token_def Let_def)
  have "get_token_string (m_lexer ?p) = [c]" using sc(2) assms(1) by (simp add: p(2) get_token_string_def)
  then have "exception_message uninitialized ''value'' ?p =
      ''syntax error while parsing value - invalid literal; last read: '' @ [CHR 0x27, c, CHR 0x27]"
    using p sc(3) by (simp add: exception_message_def quoted_def)
  then have "parse_value ?p = Throw 101 (pre @ [c, CHR 0x27])"
    using p sc(4) by (simp add: parse_value_def throw_parse_error_def pre_def)
  then have "sax_parse_internal False ?p = Inl (101, pre @ [c, CHR 0x27])"
    by (subst sax_parse_internal.simps) (simp add: iteration_def)
  then have "json_parse (c # s) = Inl (101, pre @ [c, CHR 0x27])" by (simp add: json_parse_def parser_parse_def)
  moreover have "ascii pre" unfolding pre_def by code_simp
  ultimately show ?thesis using that by blast
qed

lemma not_utf8_last:
  assumes "ascii pre" "0x80 \<le> (of_char c :: nat)"
  shows "\<not> utf8 (pre @ [c, CHR 0x27])"
proof -
  let ?q = "dfa 0 (of_char c)"
  have "?q \<in> {1, 2, 3, 4, 5, 6, 7, 8}" using assms(2) of_char_256[of c] by (simp add: dfa_0)
  moreover have "\<forall>q \<in> {1, 2, 3, 4, 5, 6, 7, 8}. dfa q 0x27 = 1" by (simp add: dfa_rows dfa_1[unfolded One_nat_def])
  ultimately have "dfa ?q 0x27 = 1" by blast
  moreover have "dfa_run 0 pre = 0" using assms(1) by (simp add: ascii_utf8 utf8_dfa)
  moreover have "(of_char (CHR 0x27) :: nat) = 0x27" by code_simp
  ultimately show ?thesis by (simp add: utf8_iff_dfa dfa_run_append)
qed


lemma dumped_array_length:
  assumes "is_array j \<and> j \<noteq> JArr []" "json_dump floats ind False Handler_strict j = Inr t" "json_plain j"
  shows "2 < length t"
proof -
  define S where "S = \<lparr>error_handler = Handler_strict, float_chars = floats\<rparr>"
  obtain xs where j: "j = JArr xs" "xs \<noteq> []" using assms(1) by (cases j) (auto simp: is_array_def)
  have "\<exists>u. dump_value S b False step c x = Inr u \<and> written u x" if "x \<in> set xs" for x b step c
    using written_value[of x S] json_plain_writable[OF assms(3)] that by (simp add: S_def j json_writable_JArr)
  then have el: "\<exists>u. dump_elements S b False step c xs = Inr u \<and> u \<noteq> []" for b step c
    using written_elements[of xs S b step c] j(2) by blast
  have len: "0 < length u" if "dump_elements S b False step c xs = Inr u" for b step c u
    using el[of b step c] that by auto
  have "json_dump floats ind False Handler_strict j =
      (if 0 \<le> ind then dump_value S True False (nat ind) 0 j else dump_value S False False 0 0 j)"
    by (simp add: json_dump_def S_def Let_def)
  then show ?thesis using assms(2) j el[of True "nat ind" "0 + nat ind"] el[of False 0 0] len
    by (auto split: if_splits)
qed

text \<open>The contract that the rest of the development assumes.\<close>

lemma library_text_ok: "json_text_ok (library_text floats)"
  unfolding json_text_ok_def
proof (intro allI impI)
  fix i j
  assume plain: "json_plain j"
  obtain t where t: "json_dump floats i False Handler_strict j = Inr t" "written t j"
    using json_dump_written[OF json_plain_writable[OF plain]] .
  have "json_parse t = Inr j" using json_parse_written[OF t(2), of "[]" "[]"] json_plain_stored[OF plain] by simp
  moreover have "2 < length t" if "is_array j \<and> j \<noteq> JArr []"
    using that t(1) plain by (rule dumped_array_length)
  ultimately show "\<exists>s. dump (library_text floats) i j = Inr s \<and> parse (library_text floats) s = Inr j \<and> s \<noteq> [] \<and>
      (is_array j \<and> j \<noteq> JArr [] \<longrightarrow> 2 < length s)"
    using t by (auto simp: library_text_def as_result_def written_def)
qed


section \<open>Properties\<close>




text \<open>
  A zero byte ends the input: the strict reader, which is to accept a text only when it has
  been read completely, returns the value before a zero byte whatever follows that byte.
\<close>

theorem strict_parse_stops_at_nul:
  assumes "json_writable j" "list_all whitespace ws"
  shows "\<exists>t. json_dump floats ind False Handler_strict j = Inr t \<and>
    json_parse (t @ ws @ CHR 0x00 # garbage) = Inr (json_stored j)"
proof -
  obtain t where "json_dump floats ind False Handler_strict j = Inr t" "written t j"
    by (rule json_dump_written[OF assms(1)])
  then show ?thesis using json_parse_nul[of t j "[]" ws garbage] assms(2) by (auto simp: list_all_iff)
qed

theorem strict_parse_stops_at_nul_witness:
  "\<exists>t. json_dump (\<lambda>_. []) (- 1) False Handler_strict (JArr [JBool True]) = Inr t \<and>
     json_parse (t @ [] @ CHR 0x00 # ''; not JSON'') = Inr (json_stored (JArr [JBool True]))"
  by (rule strict_parse_stops_at_nul) (simp_all add: json_writable_JArr)

end
