(* ===== verification/Json_Parsed.thy ===== *)
theory Json_Parsed
  imports Json_Text
begin

unbundle bit_operations_syntax

text \<open>
  What the parser can return: every string and key of the value is well-formed UTF-8, whatever
  bytes and escapes the input has, objects have strictly increasing keys and signed integers
  fit into 64 bits; the only exceptions are the parse error and the number overflow.
\<close>

section \<open>Code points become well-formed sequences\<close>

lemma or_payload:
  "list_all (\<lambda>x. 0xC0 OR x = 0xC0 + (x :: int)) [0..31]"
  "list_all (\<lambda>x. 0xE0 OR x = 0xE0 + (x :: int)) [0..15]"
  "list_all (\<lambda>x. 0xF0 OR x = 0xF0 + (x :: int)) [0..7]"
  "list_all (\<lambda>x. 0x80 OR x = 0x80 + (x :: int)) [0..63]"
  by code_simp+

lemma or_lead:
  fixes x :: int
  shows "0 \<le> x \<Longrightarrow> x \<le> 31 \<Longrightarrow> 0xC0 OR x = 0xC0 + x" "0 \<le> x \<Longrightarrow> x \<le> 15 \<Longrightarrow> 0xE0 OR x = 0xE0 + x"
    "0 \<le> x \<Longrightarrow> x \<le> 7 \<Longrightarrow> 0xF0 OR x = 0xF0 + x"
  using or_payload unfolding list_all_iff by simp_all

lemma or_cont: "0x80 OR (x AND 0x3F) = 0x80 + (x mod 64 :: int)"
proof -
  have "x AND 0x3F = x mod 64" using take_bit_eq_mask[of 6 x] by (simp add: take_bit_eq_mod mask_eq_exp_minus_1)
  then show ?thesis using or_payload(4) unfolding list_all_iff by simp
qed

lemma of_char_of_int: "0 \<le> i \<Longrightarrow> i < 256 \<Longrightarrow> (of_char (char_of (i :: int)) :: nat) = nat i"
proof -
  assume i: "0 \<le> i" "i < 256"
  then have "char_of i = char_of (nat i)" by (simp add: char_of_def bit_nat_iff)
  then show ?thesis using i by (simp add: of_char_of)
qed

lemma byte_in_int:
  "0 \<le> i \<Longrightarrow> i < 256 \<Longrightarrow> byte_in lo hi (char_of i) \<longleftrightarrow> int lo \<le> i \<and> i \<le> int hi"
  by (simp add: byte_in_def of_char_of_int le_nat_iff nat_le_iff)

lemma div_int: "drop_bit n (x :: int) = x div 2 ^ n"
  by (rule drop_bit_eq_div)

lemma codepoint_bytes_utf8:
  assumes "0 \<le> cp" "cp \<le> 0x10FFFF" "\<not> (0xD800 \<le> cp \<and> cp \<le> 0xDFFF)"
  shows "utf8_char (codepoint_bytes cp)"
proof -
  have m: "0 \<le> x mod 64" "x mod 64 < 64" for x :: int by simp_all
  have cont: "cont (char_of (0x80 OR (x AND 0x3F)))" for x :: int
    using m[of x] by (simp add: or_cont byte_in_int)
  consider "cp < 0x80" | "0x80 \<le> cp" "cp \<le> 0x7FF" | "0x800 \<le> cp" "cp \<le> 0xFFFF" | "0x10000 \<le> cp" by linarith
  then show ?thesis
  proof cases
    case 1
    then show ?thesis using assms(1) by (simp add: codepoint_bytes_def byte_in_def of_char_of_int)
  next
    case 2
    then have d: "2 \<le> cp div 64" "cp div 64 \<le> 31" by linarith+
    then have "byte_in 0xC2 0xDF (char_of (0xC0 OR drop_bit 6 cp))"
      by (simp add: div_int or_lead byte_in_int)
    then show ?thesis using 2 cont[of cp] by (simp add: codepoint_bytes_def)
  next
    case 3
    define a where "a = cp div 4096"
    define b where "b = cp div 64 mod 64"
    have a: "0 \<le> a" "a \<le> 15" using 3 by (simp_all add: a_def)
    have split: "cp div 64 = 64 * a + b" using zdiv_zmult2_eq[of 64 cp 64] by (simp add: a_def b_def)
    have b: "0 \<le> b" "b < 64" by (simp_all add: b_def)
    have ab1: "32 \<le> b" if "a = 0" using 3(1) split that by linarith
    have ab2: "b \<le> 31" if "a = 13"
    proof (rule ccontr)
      assume "\<not> b \<le> 31"
      then have "864 \<le> cp div 64" "cp div 64 \<le> 895" using split that b by linarith+
      then have "0xD800 \<le> cp \<and> cp \<le> 0xDFFF" by linarith
      then show False using assms(3) by blast
    qed
    have lead: "0xE0 OR drop_bit 12 cp = 0xE0 + a" using a by (simp add: div_int or_lead a_def)
    have second: "0x80 OR (drop_bit 6 cp AND 0x3F) = 0x80 + b" by (simp add: div_int or_cont b_def)
    consider "a = 0" | "1 \<le> a" "a \<le> 12" | "a = 13" | "14 \<le> a" using a by linarith
    then show ?thesis
      using 3 cont[of cp] a ab1 ab2 b by cases (simp_all add: codepoint_bytes_def byte_in_int lead second)
  next
    case 4
    define a where "a = cp div 262144"
    define b where "b = cp div 4096 mod 64"
    have a: "0 \<le> a" "a \<le> 4" using 4 assms(2) by (simp_all add: a_def)
    have split: "cp div 4096 = 64 * a + b" using zdiv_zmult2_eq[of 64 cp 4096] by (simp add: a_def b_def)
    have ab1: "16 \<le> b" if "a = 0" using 4 split that by linarith
    have ab2: "b \<le> 15" if "a = 4" using assms(2) split that by linarith
    have lead: "0xF0 OR drop_bit 18 cp = 0xF0 + a" using a by (simp add: div_int or_lead a_def)
    have second: "0x80 OR (drop_bit 12 cp AND 0x3F) = 0x80 + b" by (simp add: div_int or_cont b_def)
    have b: "0 \<le> b" "b < 64" by (simp_all add: b_def)
    consider "a = 0" | "1 \<le> a" "a \<le> 3" | "a = 4" using a by linarith
    then show ?thesis
      using 4 cont[of cp] cont[of "drop_bit 6 cp"] a ab1 ab2 b
      by cases (simp_all add: codepoint_bytes_def byte_in_int lead second)
  qed
qed



section \<open>Scanned strings\<close>

lemma codepoint_digit:
  assumes "lo \<le> c" "c \<le> hi"
  shows "int (of_char lo) \<le> of_char c \<and> of_char c \<le> int (of_char hi)"
  using assms unfolding less_eq_char_nat by (metis of_nat_le_iff of_nat_of_char)

lemma codepoint_loop_keeps:
  "codepoint_loop fs cp lx = (r, lx') \<Longrightarrow> token_buffer lx' = token_buffer lx"
  by (induction fs arbitrary: cp lx) (auto simp: Let_def split: option.splits if_splits)

lemma codepoint_loop_range:
  "codepoint_loop fs cp lx = (r, lx') \<Longrightarrow> r \<noteq> - 1 \<Longrightarrow> cp \<le> r \<and> r \<le> cp + (\<Sum>f \<leftarrow> fs. 15 * 2 ^ f)"
proof (induction fs arbitrary: cp lx)
  case (Cons f fs)
  obtain c where c: "current (get lx) = Some c" using Cons.prems by (auto simp: Let_def split: option.splits)
  obtain d where d: "0 \<le> d" "d \<le> 15" "codepoint_loop fs (cp + push_bit f d) (get lx) = (r, lx')"
  proof -
    have n: "int (of_char CHR ''0'') = 0x30" "int (of_char CHR ''9'') = 0x39" "int (of_char CHR ''A'') = 0x41"
      "int (of_char CHR ''F'') = 0x46" "int (of_char CHR ''a'') = 0x61" "int (of_char CHR ''f'') = 0x66" by code_simp+
    consider "CHR ''0'' \<le> c" "c \<le> CHR ''9''" | "\<not> (CHR ''0'' \<le> c \<and> c \<le> CHR ''9'')" "CHR ''A'' \<le> c" "c \<le> CHR ''F''"
      | "\<not> (CHR ''0'' \<le> c \<and> c \<le> CHR ''9'')" "\<not> (CHR ''A'' \<le> c \<and> c \<le> CHR ''F'')" "CHR ''a'' \<le> c" "c \<le> CHR ''f''"
      using Cons.prems c by (auto simp: Let_def split: if_splits)
    then show ?thesis
    proof cases
      case 1
      then show ?thesis using that[of "of_char c - 0x30"] Cons.prems c codepoint_digit[OF 1] n by (simp add: Let_def)
    next
      case 2
      then show ?thesis using that[of "of_char c - 0x37"] Cons.prems c codepoint_digit[OF 2(2,3)] n by (auto simp: Let_def split: if_splits)
    next
      case 3
      then show ?thesis using that[of "of_char c - 0x57"] Cons.prems c codepoint_digit[OF 3(3,4)] n by (auto simp: Let_def split: if_splits)
    qed
  qed
  have p: "push_bit f d = d * 2 ^ f" by (rule push_bit_eq_mult)
  have "0 \<le> push_bit f d" "push_bit f d \<le> 15 * 2 ^ f" using d(1,2) unfolding p by (auto intro: mult_right_mono)
  then show ?case using Cons.IH[OF d(3) Cons.prems(2)] unfolding list.map sum_list.Cons by linarith
qed simp

lemma get_codepoint_range:
  "get_codepoint lx = (r, lx') \<Longrightarrow> token_buffer lx' = token_buffer lx \<and> (r \<noteq> - 1 \<longrightarrow> 0 \<le> r \<and> r \<le> 0xFFFF)"
  using codepoint_loop_keeps[of "[12, 8, 4, 0]" 0 lx r lx'] codepoint_loop_range[of "[12, 8, 4, 0]" 0 lx r lx']
  unfolding get_codepoint_def by simp

text \<open>A successful step of the scanner appends a well-formed sequence to the buffer.\<close>

definition extends :: "lexer \<Rightarrow> bool \<times> lexer \<Rightarrow> bool" where
  "extends lx r \<longleftrightarrow> (fst r \<longrightarrow> (\<exists>u. utf8_char u \<and> token_buffer (snd r) = token_buffer lx @ u))"

lemma extends_error [simp]: "extends lx (string_error m lx')"
  by (simp add: extends_def string_error_def)

lemma extends_bytes:
  "0 \<le> cp \<Longrightarrow> cp \<le> 0x10FFFF \<Longrightarrow> \<not> (0xD800 \<le> cp \<and> cp \<le> 0xDFFF) \<Longrightarrow> token_buffer lx' = token_buffer lx \<Longrightarrow>
   extends lx (True, add_bytes (codepoint_bytes cp) lx')"
  using codepoint_bytes_utf8[of cp] by (auto simp: extends_def)

lemma low_surrogate_extends:
  assumes "0xD800 \<le> cp1" "cp1 \<le> 0xDBFF"
  shows "extends lx (low_surrogate cp1 lx)"
proof -
  obtain cp2 lx2 where c2: "get_codepoint (get (get lx)) = (cp2, lx2)" by fastforce
  have tb: "token_buffer lx2 = token_buffer lx" using get_codepoint_range[OF c2] by simp
  have "extends lx (True, add_bytes (codepoint_bytes (push_bit 10 cp1 + cp2 - 0x35FDC00)) lx2)"
    if "0xDC00 \<le> cp2" "cp2 \<le> 0xDFFF"
    using assms that tb by (intro extends_bytes) (simp_all add: push_bit_eq_mult)
  then show ?thesis by (simp add: low_surrogate_def Let_def c2 high_surrogate_error_def hex_digits_error_def)
qed

lemma unicode_extends: "extends lx (scan_unicode_escape lx)"
proof -
  obtain cp lx1 where c: "get_codepoint lx = (cp, lx1)" by fastforce
  note r = get_codepoint_range[OF c]
  have "extends lx (low_surrogate cp lx1)" if "0xD800 \<le> cp" "cp \<le> 0xDBFF"
    using low_surrogate_extends[OF that, of lx1] r by (simp add: extends_def)
  moreover have "extends lx (True, add_bytes (codepoint_bytes cp) lx1)"
    if "cp \<noteq> - 1" "\<not> (0xD800 \<le> cp \<and> cp \<le> 0xDBFF)" "\<not> (0xDC00 \<le> cp \<and> cp \<le> 0xDFFF)"
    using that r by (intro extends_bytes) auto
  ultimately show ?thesis by (auto simp: scan_unicode_escape_def c hex_digits_error_def)
qed

lemma ascii_char: "(of_char c :: nat) < 0x80 \<Longrightarrow> utf8_char [c]"
  by (simp add: byte_in_def)

lemma escape_extends: "extends lx (scan_escape lx)"
proof -
  have "extends lx (scan_unicode_escape (get lx))" using unicode_extends[of "get lx"] by (simp add: extends_def)
  moreover have "extends lx (True, add c (get lx))" if "(of_char c :: nat) < 0x80" for c
    using ascii_char[OF that] by (auto simp: extends_def)
  ultimately show ?thesis by (simp add: scan_escape_def Let_def)
qed

lemma range_loop_buffer:
  "range_loop rs lx = (True, lx') \<Longrightarrow>
   \<exists>cs. token_buffer lx' = token_buffer lx @ cs \<and> list_all2 (\<lambda>c (lo, hi). byte_in lo hi c) cs rs"
proof (induction rs arbitrary: lx)
  case (Cons p rs)
  obtain lo hi where p: "p = (lo, hi)" by (cases p)
  obtain c where c: "current (get lx) = Some c" "byte_in lo hi c" "range_loop rs (add c (get lx)) = (True, lx')"
    using Cons.prems p by (auto simp: Let_def byte_in_def split: option.splits if_splits)
  obtain cs where "token_buffer lx' = token_buffer (add c (get lx)) @ cs"
      "list_all2 (\<lambda>c (lo, hi). byte_in lo hi c) cs rs"
    using Cons.IH[OF c(3)] by blast
  then show ?case using c(2) p by (intro exI[of _ "c # cs"]) simp
qed simp

lemma following_utf8:
  assumes "following_bytes (of_char c) = Some rs" "list_all2 (\<lambda>c (lo, hi). byte_in lo hi c) cs rs"
  shows "utf8_char (c # cs)"
  using assms unfolding following_bytes_def
  by (auto simp: list_all2_Cons2 byte_in_def split: if_splits)

lemma next_byte_extends:
  assumes "current lx = Some c" "following_bytes (of_char c) = Some rs"
  shows "extends lx (next_byte_in_range rs lx)"
proof (cases "next_byte_in_range rs lx")
  case (Pair ok lx')
  show ?thesis
  proof (cases ok)
    case True
    then have "range_loop rs (add c lx) = (True, lx')"
      using Pair assms(1) by (simp add: next_byte_in_range_def to_char_type_def)
    then obtain cs where "token_buffer lx' = token_buffer (add c lx) @ cs" "list_all2 (\<lambda>c (lo, hi). byte_in lo hi c) cs rs"
      using range_loop_buffer by blast
    then show ?thesis using Pair following_utf8[OF assms(2)] by (auto simp: extends_def)
  qed (simp add: Pair extends_def)
qed

lemma extends_utf8: "extends lx r \<Longrightarrow> fst r \<Longrightarrow> utf8 (token_buffer lx) \<Longrightarrow> utf8 (token_buffer (snd r))"
  by (auto simp: extends_def intro: utf8_append[OF _ utf8_charI])

lemma string_loop_utf8:
  "utf8 (token_buffer lx) \<Longrightarrow> string_loop lx = (value_string, lx') \<Longrightarrow> utf8 (token_buffer lx')"
proof (induction lx rule: string_loop.induct)
  case (1 lx)
  let ?g = "get lx"
  have tb: "utf8 (token_buffer ?g)" using "1.prems"(1) by simp
  obtain c where c: "current ?g = Some c"
    using "1.prems"(2) by (subst (asm) string_loop.simps) (auto simp: Let_def lex_error_def split: option.splits)
  consider "c = CHR 0x22" | "c = CHR 0x5C" | "c \<noteq> CHR 0x22" "c \<noteq> CHR 0x5C" "of_char c \<le> (0x1F :: nat)"
    | "c \<noteq> CHR 0x22" "c \<noteq> CHR 0x5C" "\<not> of_char c \<le> (0x1F :: nat)" "of_char c \<le> (0x7F :: nat)"
    | "c \<noteq> CHR 0x22" "c \<noteq> CHR 0x5C" "\<not> of_char c \<le> (0x1F :: nat)" "\<not> of_char c \<le> (0x7F :: nat)" by blast
  then show ?case
  proof cases
    case 1
    then show ?thesis using "1.prems"(2) c tb by (subst (asm) string_loop.simps) simp
  next
    case 2
    let ?r = "scan_escape ?g"
    have ok: "fst ?r" "string_loop (snd ?r) = (value_string, lx')"
      using "1.prems"(2) c 2 by (subst (asm) string_loop.simps, simp add: Let_def split: if_splits)+
    show ?thesis using "1.IH"(1)[OF refl c _ 2 refl] ok extends_utf8[OF escape_extends ok(1) tb] 2 by simp
  next
    case 3
    then show ?thesis using "1.prems"(2) c by (subst (asm) string_loop.simps) (simp add: lex_error_def)
  next
    case 4
    then have "string_loop (add c ?g) = (value_string, lx')"
      using "1.prems"(2) c by (subst (asm) string_loop.simps) simp
    moreover have "utf8 (token_buffer (add c ?g))" using utf8_append[OF tb utf8_charI[OF ascii_char[of c]]] 4(4) by simp
    ultimately show ?thesis using "1.IH"(2)[OF refl c] 4 by blast
  next
    case 5
    obtain rs where rs: "following_bytes (of_char c) = Some rs"
      using "1.prems"(2) c 5 by (subst (asm) string_loop.simps) (auto simp: Let_def lex_error_def split: option.splits)
    let ?r = "next_byte_in_range rs ?g"
    have ok: "fst ?r" "string_loop (snd ?r) = (value_string, lx')"
      using "1.prems"(2) c 5 rs by (subst (asm) string_loop.simps, simp add: Let_def split: if_splits)+
    show ?thesis
      using "1.IH"(3)[OF refl c _ _ _ _ rs refl] ok extends_utf8[OF next_byte_extends[OF c rs] ok(1) tb] 5 by simp
  qed
qed



section \<open>Tokens\<close>

lemma literal_loop_token: "literal_loop cs t lx = (x, lx') \<Longrightarrow> x = t \<or> x = parse_error"
  by (induction cs arbitrary: lx) (auto simp: Let_def lex_error_def split: if_splits)

lemma strtoll_range: "strtoll s = Some i \<Longrightarrow> - (2 ^ 63) \<le> i \<and> i < 2 ^ 63"
  by (auto simp: strtoll_def Let_def split: if_splits)

definition number_result :: "token_type \<times> lexer \<Rightarrow> bool" where
  "number_result r \<longleftrightarrow> fst r \<in> {value_unsigned, value_integer, value_float, parse_error} \<and>
     (fst r = value_integer \<longrightarrow> - (2 ^ 63) \<le> number_integer (snd r) \<and> number_integer (snd r) < 2 ^ 63)"

lemma number_done_result: "number_result (number_done nt lx)"
  using strtoll_range[of "token_buffer lx"]
  by (auto simp: number_done_def number_result_def float_token_def Let_def split: option.splits)

lemma number_loop_result: "number_result (number_loop st nt lx)"
proof (induction st nt lx rule: number_loop.induct)
  case (1 st nt lx)
  show ?case
  proof (cases "number_move st (current (get lx))")
    case (Goto st' c)
    then show ?thesis using 1[OF refl refl Goto] by (subst number_loop.simps) (simp add: Let_def)
  next
    case Num_done
    then show ?thesis using number_done_result by (subst number_loop.simps) (simp add: Let_def)
  next
    case (Num_error msg)
    then show ?thesis by (subst number_loop.simps) (simp add: Let_def lex_error_def number_result_def)
  qed
qed

definition token_result :: "token_type \<times> lexer \<Rightarrow> bool" where
  "token_result r \<longleftrightarrow>
     (fst r = value_string \<longrightarrow> utf8 (token_buffer (snd r))) \<and>
     (fst r = value_integer \<longrightarrow> - (2 ^ 63) \<le> number_integer (snd r) \<and> number_integer (snd r) < 2 ^ 63)"

lemma string_loop_token: "string_loop lx = (t, lx') \<Longrightarrow> t = value_string \<or> t = parse_error"
proof (induction lx rule: string_loop.induct)
  case (1 lx)
  show ?case
  proof (rule ccontr)
    assume no: "\<not> ?thesis"
    obtain c where c: "current (get lx) = Some c" "c \<noteq> CHR 0x22"
      using "1.prems" no
      by (subst (asm) string_loop.simps) (auto simp: Let_def lex_error_def split: option.splits if_splits)
    consider "c = CHR 0x5C" "fst (scan_escape (get lx))" "string_loop (snd (scan_escape (get lx))) = (t, lx')"
      | "c \<noteq> CHR 0x5C" "\<not> of_char c \<le> (0x1F :: nat)" "of_char c \<le> (0x7F :: nat)" "string_loop (add c (get lx)) = (t, lx')"
      | rs where "c \<noteq> CHR 0x5C" "\<not> of_char c \<le> (0x1F :: nat)" "\<not> of_char c \<le> (0x7F :: nat)"
          "following_bytes (of_char c) = Some rs" "fst (next_byte_in_range rs (get lx))"
          "string_loop (snd (next_byte_in_range rs (get lx))) = (t, lx')"
      using "1.prems" no c
      by (subst (asm) string_loop.simps) (auto simp: Let_def lex_error_def split: option.splits if_splits)
    then show False
    proof cases
      case 1
      then show ?thesis using "1.IH"(1)[OF refl c(1) c(2) _ refl] no by blast
    next
      case 2
      then show ?thesis using "1.IH"(2)[OF refl c(1) c(2)] no by blast
    next
      case 3
      then show ?thesis using "1.IH"(3)[OF refl c(1) c(2) _ _ _ _ refl] no by blast
    qed
  qed
qed

lemma scan_string_result: "token_result (scan_string lx)"
proof -
  obtain t lx' where s: "string_loop (reset lx) = (t, lx')" by fastforce
  show ?thesis using string_loop_utf8[of "reset lx"] string_loop_token[OF s] s utf8.Nil
    by (auto simp: token_result_def scan_string_def)
qed

lemma scan_literal_result: "t \<notin> {value_string, value_integer} \<Longrightarrow> token_result (scan_literal l t lx)"
proof -
  obtain x lx' where s: "literal_loop (tl l) t lx = (x, lx')" by fastforce
  then show "t \<notin> {value_string, value_integer} \<Longrightarrow> token_result (scan_literal l t lx)"
    using literal_loop_token[OF s] by (auto simp: token_result_def scan_literal_def)
qed

lemma scan_number_result: "token_result (scan_number lx)"
proof -
  have "number_result r \<Longrightarrow> token_result r" for r by (auto simp: number_result_def token_result_def)
  then show ?thesis using number_loop_result unfolding scan_number_def Let_def by blast
qed

lemma scan_token_result: "token_result (scan_token lx)"
proof -
  have "token_result (t, lx')" if "t \<notin> {value_string, value_integer}" for t lx'
    using that by (simp add: token_result_def)
  then show ?thesis
    unfolding scan_token_def lex_error_def
    by (simp add: scan_string_result scan_literal_result scan_number_result split: option.split)
qed

lemma scan_result: "token_result (scan lx)"
proof -
  have "token_result (parse_error, lx')" for lx' by (simp add: token_result_def)
  then show ?thesis by (simp add: scan_def Let_def lex_error_def scan_token_result)
qed



section \<open>The parser's invariant\<close>

primrec json_parsed :: "json \<Rightarrow> bool" where
  "json_parsed JNull = True"
| "json_parsed (JBool b) = True"
| "json_parsed (JInt i) = (- (2 ^ 63) \<le> i \<and> i < 2 ^ 63)"
| "json_parsed (JUInt w) = True"
| "json_parsed (JFloat r) = True"
| "json_parsed (JStr s) = utf8 s"
| "json_parsed (JArr xs) = list_all (\<lambda>p. p) (map json_parsed xs)"
| "json_parsed (JObj kvs) =
     (sm_ordered kvs \<and> list_all (\<lambda>(k, p). utf8 k \<and> p) (map (map_prod id json_parsed) kvs))"

lemma json_parsed_JArr: "json_parsed (JArr xs) \<longleftrightarrow> (\<forall>x \<in> set xs. json_parsed x)"
  by (simp add: list_all_iff)

lemma json_parsed_JObj:
  "json_parsed (JObj kvs) \<longleftrightarrow> sm_ordered kvs \<and> (\<forall>kv \<in> set kvs. utf8 (fst kv) \<and> json_parsed (snd kv))"
  by (auto simp: list_all_iff split_beta)

declare json_parsed.simps(7,8) [simp del]

lemma json_parsed_sm_put:
  assumes "json_parsed (JObj kvs)" "utf8 k" "json_parsed v"
  shows "json_parsed (JObj (sm_put k v kvs))"
proof -
  have "set (sm_put k v kvs) \<subseteq> insert (k, v) (set kvs)"
    by (induction k v kvs rule: sm_put.induct) auto
  moreover have "sm_ordered (sm_put k v kvs)"
    using assms(1) omap.ok_put[of kvs k v] by (simp add: json_parsed_JObj)
  ultimately show ?thesis using assms by (auto simp: json_parsed_JObj)
qed

fun container_ok :: "container \<Rightarrow> bool" where
  "container_ok (Open_array xs) = json_parsed (JArr xs)"
| "container_ok (Open_object kvs k) = (json_parsed (JObj kvs) \<and> utf8 k)"

definition dom_ok :: "dom \<Rightarrow> bool" where
  "dom_ok d \<longleftrightarrow> json_parsed (root d) \<and> (\<forall>f \<in> set (ref_stack d). container_ok f)"

lemma handle_value_ok: "dom_ok d \<Longrightarrow> json_parsed v \<Longrightarrow> dom_ok (handle_value v d)"
  by (auto simp: dom_ok_def handle_value_def json_parsed_JArr json_parsed_sm_put
      split: list.splits container.splits)

lemma start_ok: "dom_ok d \<Longrightarrow> dom_ok (start_object d)" "dom_ok d \<Longrightarrow> dom_ok (start_array d)"
  using omap.ok_empty by (auto simp: dom_ok_def start_object_def start_array_def json_parsed_JArr json_parsed_JObj utf8.Nil)

lemma sax_key_ok: "dom_ok d \<Longrightarrow> utf8 k \<Longrightarrow> dom_ok (sax_key k d)"
  by (auto simp: dom_ok_def sax_key_def json_parsed_sm_put split: list.splits container.splits)

lemma sax_end_ok: "dom_ok d \<Longrightarrow> dom_ok (sax_end_object d)" "dom_ok d \<Longrightarrow> dom_ok (sax_end_array d)"
  by (auto simp: sax_end_object_def sax_end_array_def split: list.splits container.splits
      intro!: handle_value_ok) (auto simp: dom_ok_def)

definition parser_ok :: "parser \<Rightarrow> bool" where
  "parser_ok p \<longleftrightarrow> dom_ok (sax p) \<and> token_result (last_token p, m_lexer p)"

lemma get_token_ok: "dom_ok (sax p) \<Longrightarrow> parser_ok (get_token p)"
  using scan_result[of "m_lexer p"] by (simp add: parser_ok_def get_token_def Let_def)

definition outcome_ok :: "outcome \<Rightarrow> bool" where
  "outcome_ok out \<longleftrightarrow>
     (case out of
        Throw i w \<Rightarrow> i = 101 \<or> i = 406
      | Continue b q \<Rightarrow> parser_ok q
      | Value_done q \<Rightarrow> dom_ok (sax q)
      | Return q \<Rightarrow> dom_ok (sax q))"

lemma outcome_ok_simps:
  "outcome_ok (Throw i w) \<longleftrightarrow> i = 101 \<or> i = 406" "outcome_ok (Continue b q) \<longleftrightarrow> parser_ok q"
  "outcome_ok (Value_done q) \<longleftrightarrow> dom_ok (sax q)" "outcome_ok (Return q) \<longleftrightarrow> dom_ok (sax q)"
  by (simp_all add: outcome_ok_def)

lemma outcome_ok_throw [simp]: "outcome_ok (throw_parse_error w p)" "outcome_ok (throw_out_of_range w p)"
  by (simp_all add: outcome_ok_def throw_parse_error_def throw_out_of_range_def)

lemma parser_ok_dom: "parser_ok p \<Longrightarrow> dom_ok (sax p)"
  by (simp add: parser_ok_def)

lemma give_value_ok: "dom_ok (sax p) \<Longrightarrow> json_parsed v \<Longrightarrow> outcome_ok (give_value v p)"
  by (simp add: outcome_ok_def give_value_def handle_value_ok)

lemma parse_key_ok:
  assumes "parser_ok p"
  shows "outcome_ok (parse_key p)"
proof (cases "last_token p = value_string")
  case True
  then have "utf8 (token_buffer (m_lexer p))" using assms by (simp add: parser_ok_def token_result_def)
  then have "dom_ok (sax_key (token_buffer (m_lexer p)) (sax p))" using assms by (simp add: parser_ok_def sax_key_ok)
  then have "parser_ok (get_token (p\<lparr>sax := sax_key (token_buffer (m_lexer p)) (sax p)\<rparr>))" by (intro get_token_ok) simp
  then show ?thesis using True by (simp add: parse_key_def Let_def) (simp add: outcome_ok_def)
qed (simp add: parse_key_def)

lemma parse_key_then:
  assumes "parser_ok p" "\<And>q. parser_ok q \<Longrightarrow> outcome_ok (f q)"
  shows "outcome_ok (case parse_key p of Continue _ q \<Rightarrow> f q | out \<Rightarrow> out)"
  using parse_key_ok[OF assms(1)] assms(2) by (cases "parse_key p") (simp_all add: outcome_ok_simps)

lemma parse_value_ok:
  assumes "parser_ok p"
  shows "outcome_ok (parse_value p)"
proof -
  have d: "dom_ok (sax p)" using assms by (rule parser_ok_dom)
  let ?po = "get_token (p\<lparr>sax := start_object (sax p)\<rparr>)" and ?pa = "get_token (p\<lparr>sax := start_array (sax p)\<rparr>)"
  have po: "parser_ok ?po" using d by (intro get_token_ok) (simp add: start_ok)
  have pa: "parser_ok ?pa" using d by (intro get_token_ok) (simp add: start_ok)
  have "outcome_ok (Continue False (get_token (push_state False q)))" if "parser_ok q" for q
    using that get_token_ok[of "push_state False q"] by (simp add: outcome_ok_def parser_ok_dom)
  from parse_key_then[OF po this] have key: "outcome_ok (case parse_key ?po of
      Continue _ q \<Rightarrow> Continue False (get_token (push_state False q)) | out \<Rightarrow> out)" by simp
  have ends: "outcome_ok (Value_done (?po\<lparr>sax := sax_end_object (sax ?po)\<rparr>))"
      "outcome_ok (Value_done (?pa\<lparr>sax := sax_end_array (sax ?pa)\<rparr>))"
    using sax_end_ok parser_ok_dom[OF po] parser_ok_dom[OF pa] by (simp_all add: outcome_ok_def)
  have arr: "outcome_ok (Continue False (push_state True ?pa))" using pa by (simp add: outcome_ok_def parser_ok_def)
  have vals: "last_token p = value_string \<Longrightarrow> json_parsed (JStr (token_buffer (m_lexer p)))"
      "last_token p = value_integer \<Longrightarrow> json_parsed (JInt (number_integer (m_lexer p)))"
    using assms by (simp_all add: parser_ok_def token_result_def)
  show ?thesis
  proof (cases "last_token p")
    case begin_object
    then show ?thesis using key ends(1) by (simp add: parse_value_def Let_def)
  next
    case begin_array
    then show ?thesis using arr ends(2) by (simp add: parse_value_def Let_def)
  next
    case value_float
    then show ?thesis using d by (simp add: parse_value_def give_value_ok split: option.split)
  qed (use d vals in \<open>simp_all add: parse_value_def give_value_ok\<close>)
qed

lemma after_value_ok:
  assumes "dom_ok (sax p)"
  shows "outcome_ok (after_value p)"
proof -
  have p1: "parser_ok (get_token p)" using assms by (rule get_token_ok)
  have p2: "parser_ok (get_token (get_token p))" using assms by (intro get_token_ok) simp
  have "outcome_ok (Continue False (get_token q))" if "parser_ok q" for q
    using that get_token_ok[of q] by (simp add: outcome_ok_def parser_ok_dom)
  from parse_key_then[OF p2 this] have key: "outcome_ok (case parse_key (get_token (get_token p)) of
      Continue _ q \<Rightarrow> Continue False (get_token q) | out \<Rightarrow> out)" by simp
  have "parser_ok ((get_token p)\<lparr>sax := d, states := sts\<rparr>)" if "dom_ok d" for d sts
    using p1 that by (simp add: parser_ok_def)
  then have ends: "outcome_ok (Continue True ((get_token p)\<lparr>sax := sax_end_array (sax p), states := sts\<rparr>))"
      "outcome_ok (Continue True ((get_token p)\<lparr>sax := sax_end_object (sax p), states := sts\<rparr>))" for sts
    using assms sax_end_ok by (simp_all add: outcome_ok_def)
  have com: "outcome_ok (Continue False (get_token (get_token p)))" using p2 by (simp add: outcome_ok_def)
  have ret: "outcome_ok (Return p)" using assms by (simp add: outcome_ok_def)
  show ?thesis
  proof (cases "states p")
    case Nil
    then show ?thesis using ret by (simp add: after_value_def)
  next
    case (Cons b sts)
    then show ?thesis using key ends com by (cases b) (simp_all add: after_value_def Let_def)
  qed
qed

lemma iteration_ok: "parser_ok p \<Longrightarrow> outcome_ok (iteration skip p)"
  using parse_value_ok[of p]
  by (cases "parse_value p") (simp_all add: iteration_def parser_ok_dom after_value_ok outcome_ok_simps)

lemma sax_parse_internal_ok:
  "parser_ok p \<Longrightarrow>
   (case sax_parse_internal skip p of Inl (i, w) \<Rightarrow> i = 101 \<or> i = 406 | Inr q \<Rightarrow> dom_ok (sax q))"
proof (induction skip p rule: sax_parse_internal.induct)
  case (1 skip p)
  have ok: "outcome_ok (iteration skip p)" using "1.prems" by (rule iteration_ok)
  show ?case
  proof (cases "iteration skip p")
    case (Continue b q)
    then show ?thesis using "1.IH"[OF Continue] ok by (subst sax_parse_internal.simps) (simp add: outcome_ok_def)
  qed (use ok in \<open>subst sax_parse_internal.simps, simp add: outcome_ok_def\<close>)+
qed

lemma json_parse_ok:
  "case json_parse s of Inl (i, w) \<Rightarrow> i = 101 \<or> i = 406 | Inr j \<Rightarrow> json_parsed j"
proof -
  have "parser_ok (new_parser s False)" unfolding new_parser_def by (rule get_token_ok) (simp add: dom_ok_def)
  from sax_parse_internal_ok[OF this, of False] show ?thesis
    by (auto simp: json_parse_def parser_parse_def throw_parse_error_def dom_ok_def Let_def split: sum.split)
qed

lemma json_parsed_utf8: "json_parsed j \<Longrightarrow> all_utf8 j"
  by (induction j) (auto simp: json_parsed_JArr json_parsed_JObj)



section \<open>Properties\<close>

text \<open>
  C18. Every value the strict reader returns is well formed, whatever bytes it was given: strings
  and keys are well-formed UTF-8, escapes and surrogate pairs decoded, keys strictly increase
  and signed integers fit into 64 bits. So the value can always be written out again. The only
  exceptions of the reader are the parse error 101 and the number overflow 406.
\<close>

theorem parsed_values_well_formed:
  "case json_parse s of
     Inl (i, w) \<Rightarrow> i = 101 \<or> i = 406
   | Inr j \<Rightarrow> json_parsed j \<and> (\<exists>t. json_dump floats ind False Handler_strict j = Inr t)"
proof -
  have "\<exists>t. json_dump floats ind False Handler_strict j = Inr t" if "json_parsed j" for j
    using json_dump_throws[of floats ind j] json_parsed_utf8[OF that]
    by (cases "json_dump floats ind False Handler_strict j") auto
  then show ?thesis using json_parse_ok[of s] by (auto split: sum.splits)
qed

end
