(* ===== verification/Library_Safety.thy ===== *)
theory Library_Safety
  imports Json_Parsed Http_Safety Node_Identity
begin

text \<open>
  The program on top of the JSON library's own text functions: the contracts that the other
  components assume of a reader and a writer hold for them, what a peer sends can be written
  again, and a request body that is not UTF-8 ends the HTTP server.
\<close>

section \<open>The file of the node identity\<close>

lemma writable_identity:
  assumes "ascii_identity r"
  shows "json_writable (identity_file_json r)" "json_stored (identity_file_json r) = stored_json r"
proof -
  have u: "utf8 (nodeId r)" "utf8 (ni_publicKey r)" "utf8 (ni_privateKey r)" "utf8 (advertisedIp r)"
    using assms by (simp_all add: ascii_identity_def ascii_utf8)
  have k: "utf8 ''nodeId''" "utf8 ''publicKey''" "utf8 ''privateKey''" "utf8 ''advertisedIp''" "utf8 ''port''"
      "utf8 ''reputation''"
    by (simp_all add: ascii_utf8 ascii_def)
  show "json_writable (identity_file_json r)"
    using assms u k
    by (simp add: identity_file_json_def jobj_def json_writable_JObj sm_ordered_def ascii_identity_def)
  show "json_stored (identity_file_json r) = stored_json r"
    by (simp add: identity_file_json_def stored_json_def jobj_def)
qed

lemma library_stream_ok: "stream_ok (library_text floats) library_stream"
  unfolding stream_ok_def
proof (intro allI impI)
  fix r
  assume r: "ascii_identity r"
  obtain t where t: "json_dump floats 2 False Handler_strict (identity_file_json r) = Inr t"
      "Json_Text.written t (identity_file_json r)"
    using json_dump_written[OF writable_identity(1)[OF r]] .
  have "value_end [CHR 0x0A]" by (rule value_end_whitespace) (simp add: whitespace_def)
  from json_read_written[OF t(2) _ this, of "[]"] writable_identity(2)[OF r]
  have "library_stream (t @ [CHR 0x0A]) = Inr (stored_json r)" by (simp add: library_stream_def as_result_def)
  then show "\<exists>s. dump (library_text floats) 2 (identity_file_json r) = Inr s \<and>
      library_stream (s @ [CHR 0x0A]) = Inr (stored_json r)"
    using t(1) by (simp add: library_text_def)
qed


section \<open>Messages\<close>

lemma library_dump_utf8: "all_utf8 j \<Longrightarrow> \<exists>t. dump (library_text floats) i j = Inr t"
  using json_dump_throws[of floats i j] by (cases "dump (library_text floats) i j") (auto simp: library_text_def)

lemma library_parse_utf8: "parse (library_text floats) s = Inr j \<Longrightarrow> all_utf8 j"
  using json_parse_ok[of s] json_parsed_utf8[of j]
  by (auto simp: library_text_def as_result_def split: sum.splits)

lemma jvalue_utf8:
  assumes "jvalue Inr key d j = Inr p" "all_utf8 j" "all_utf8 d"
  shows "all_utf8 p"
proof -
  have "all_utf8 v" if "j = JObj kvs" "sm_get kvs key = Some v" for kvs v
    using assms(2) that map_of_SomeD[of kvs key v] by (fastforce simp: sm_get_def)
  then show ?thesis using assms by (auto simp: jvalue_def split: json.splits option.splits)
qed

lemma deserialized_utf8: "all_utf8 (msg_payload (deserialize (library_text floats) data))"
proof (cases "parse (library_text floats) data")
  case (Inr j)
  then have j: "all_utf8 j" by (rule library_parse_utf8)
  show ?thesis
  proof (cases "ebind (jvalue get_str ''type'' ''UNKNOWN'' j) (\<lambda>t. ebind (jvalue Inr ''payload'' (JObj []) j)
      (\<lambda>p. Inr \<lparr>msg_type = stringToType t, msg_payload = p\<rparr>))")
    case (Inr m)
    then have "jvalue Inr ''payload'' (JObj []) j = Inr (msg_payload m)" by auto
    then have "all_utf8 (msg_payload m)" using j by (rule jvalue_utf8) simp
    moreover have "deserialize (library_text floats) data = m"
      unfolding deserialize_def \<open>parse (library_text floats) data = Inr j\<close> ebind.simps(2) Inr by simp
    ultimately show ?thesis by simp
  next
    case (Inl e)
    then have "deserialize (library_text floats) data = \<lparr>msg_type = UNKNOWN, msg_payload = JObj []\<rparr>"
      unfolding deserialize_def \<open>parse (library_text floats) data = Inr j\<close> ebind.simps(2) Inl by simp
    then show ?thesis by simp
  qed
qed (simp add: deserialize_def)


section \<open>Properties\<close>


text \<open>
  C37. Whatever bytes a peer sends, the message they are decoded into can be written again, and
  so can its payload alone: neither relaying a message nor forming its digest for the
  suppression of duplicates throws.
\<close>

theorem received_messages_serialize:
  "\<exists>t u. serialize (library_text floats) (deserialize (library_text floats) data) = Inr t \<and>
     dump (library_text floats) i (msg_payload (deserialize (library_text floats) data)) = Inr u"
proof -
  let ?m = "deserialize (library_text floats) data"
  have "utf8 (typeToString (msg_type ?m))" "utf8 ''type''" "utf8 ''payload''"
    using ascii_typeToString[of "msg_type ?m"] by (simp_all add: ascii_utf8 ascii_def)
  then have "all_utf8 (jobj [(''type'', JStr (typeToString (msg_type ?m))), (''payload'', msg_payload ?m)])"
    using deserialized_utf8[of floats data] by (simp add: jobj_def)
  then show ?thesis
    using library_dump_utf8[of _ floats "-1"] library_dump_utf8[OF deserialized_utf8[of floats data], of floats i]
    by (fastforce simp: serialize_def)
qed



end
