(* ===== verification/Spec2Isabelle.thy ===== *)
theory Spec2Isabelle
  imports Program_Safety Merkle_Tree Ledger_Safety Node_Sync Library_Safety
begin

text \<open>
  A verification library for the personal blockchain node: a C++ program that keeps a chain of
  blocks with signed transactions, mines and exchanges blocks with other nodes over TCP, serves
  an HTTP interface and stores everything in JSON files.

  The program's parts and their theories, from the bottom up:

  \<^item> \<^verbatim>\<open>Prelude\<close>, \<^verbatim>\<open>Ordered_Map\<close>, \<^verbatim>\<open>Number_Input\<close>: strings, decimal numbers, machine integers,
    exceptions as values (\<^verbatim>\<open>exn\<close>, \<^verbatim>\<open>'a result\<close>), \<^verbatim>\<open>std::map\<close> as sorted association lists with the
    interface \<^verbatim>\<open>omap\<close>, \<^verbatim>\<open>std::stoi\<close>.
  \<^item> \<^verbatim>\<open>Json\<close>: the values and accessors of \<^verbatim>\<open>include/utils/json.hpp\<close> that the program uses. For the
    components the text functions \<^verbatim>\<open>dump\<close> and \<^verbatim>\<open>parse\<close> are the parameter \<^verbatim>\<open>json_text\<close>, with the law
    \<^verbatim>\<open>json_text_ok\<close> where a proof needs the round trip; \<^verbatim>\<open>demo_json\<close> is a small instance for witnesses,
    and \<^verbatim>\<open>library_text\<close> is the library's own pair, for which \<^verbatim>\<open>Library_Safety\<close> proves the laws.
  \<^item> \<^verbatim>\<open>Json_Dump\<close>: the library's writer: \<^verbatim>\<open>dump_escaped\<close> with the UTF-8 automaton, the buffer of 512
    bytes and the three error handlers, integers written backwards into the number buffer, arrays
    and objects. \<^verbatim>\<open>Json_Strings\<close>: the automaton accepts exactly the table of well-formed sequences of
    the Unicode standard, what is written for a string, how far the buffer is used.
  \<^item> \<^verbatim>\<open>Json_Lexer\<close>, \<^verbatim>\<open>Json_Parser\<close>: the library's reader: the lexer with its positions, put-back and
    messages, the number states, the loop \<^verbatim>\<open>sax_parse_internal\<close>, the value it builds and the texts of
    its exceptions. The loops end because every token takes bytes of the input (\<^verbatim>\<open>pending\<close>, \<^verbatim>\<open>unread\<close>).
    \<^verbatim>\<open>Json_Tokens\<close>, \<^verbatim>\<open>Json_Text\<close>: what is read back from a written token and a written value;
    \<^verbatim>\<open>Json_Parsed\<close>: what any text can be read as.
  \<^item> \<^verbatim>\<open>Crypto\<close>: \<^verbatim>\<open>src/crypto/sha256.cpp\<close>, \<^verbatim>\<open>src/crypto/ecdsa.cpp\<close> around OpenSSL, whose functions are
    parameters (\<^verbatim>\<open>openssl\<close>) with the laws \<^verbatim>\<open>digest_ok\<close> and \<^verbatim>\<open>ecdsa_ok\<close>; no collision-freedom is assumed
    in general, only \<^verbatim>\<open>no_collision\<close> of the inputs at hand.
  \<^item> \<^verbatim>\<open>Timestamp\<close>, \<^verbatim>\<open>Transaction\<close>: \<^verbatim>\<open>src/transaction/transaction.cpp\<close>: identifiers, signatures, expiry
    with its calendar arithmetic, JSON.
  \<^item> \<^verbatim>\<open>Block\<close>: \<^verbatim>\<open>src/block/block.cpp\<close>: Merkle root, hash, proof of work as a search that may not
    return (\<^verbatim>\<open>partial_function\<close>), validity, JSON.
  \<^item> \<^verbatim>\<open>State_Manager\<close>: \<^verbatim>\<open>src/state/state_manager.cpp\<close>: balances, nonces, spent identifiers and
    histories, and their characterisation over the whole chain.
  \<^item> \<^verbatim>\<open>Consensus\<close>: \<^verbatim>\<open>include/consensus/\<close> and \<^verbatim>\<open>difficulty_adjuster.cpp\<close>: the engine interface as a
    record of functions and the locale \<^verbatim>\<open>engine_laws\<close>, interpreted for the proof-of-work and the
    proof-of-stake engine; the retarget computation in double precision with the explicit
    rounding of \<^verbatim>\<open>Floats\<close>, which also holds the rounding of decimal numbers to doubles.
  \<^item> \<^verbatim>\<open>Chain_Rules\<close>: the static validation of whole chains of \<^verbatim>\<open>src/core/blockchain.cpp\<close>.
  \<^item> \<^verbatim>\<open>Storage\<close>: \<^verbatim>\<open>src/storage/leveldb_manager.cpp\<close>: the file system as a map; a writing operation is
    the list of file systems it passes through, so a crash is a cut of that list; which library
    calls fail is an argument (\<^verbatim>\<open>io_env\<close>).
  \<^item> \<^verbatim>\<open>Blockchain\<close>: the class of \<^verbatim>\<open>src/core/blockchain.cpp\<close>: every public method as one step, runs of
    such steps (\<^verbatim>\<open>chain_reachable\<close>) and their invariant \<^verbatim>\<open>chain_inv\<close>.
  \<^item> \<^verbatim>\<open>Wallet\<close>: \<^verbatim>\<open>src/wallet/\<close>: keys and login challenges, with runs of the login protocol.
  \<^item> \<^verbatim>\<open>Message\<close>, \<^verbatim>\<open>Peer\<close>: \<^verbatim>\<open>src/network/message.cpp\<close>, \<^verbatim>\<open>peer.cpp\<close>: wire format, write queue, reading loop.
  \<^item> \<^verbatim>\<open>Peer_Scorer\<close>, \<^verbatim>\<open>Peer_Manager\<close>, \<^verbatim>\<open>Connections\<close>, \<^verbatim>\<open>Node_Identity\<close>: the managers under
    \<^verbatim>\<open>src/network/\<close> with the same names.
  \<^item> \<^verbatim>\<open>Node\<close>: \<^verbatim>\<open>src/network/node.cpp\<close>: handlers as actions that return, throw or block on a state
    with an explicit store of peer objects and the state of \<^verbatim>\<open>peersMutex_\<close>; asynchronous operations
    are recorded when started and completed by later actions.
  \<^item> \<^verbatim>\<open>Node_Safety\<close>: a logic for actions (locale \<^verbatim>\<open>action_relation\<close>, interpreted for equality and for
    reachability of the chain) and what every run of the event loop keeps; \<^verbatim>\<open>Node_Threats\<close>: what
    hostile peers can cause; \<^verbatim>\<open>Node_Sync\<close>: how a node catches up with a longer chain.
  \<^item> \<^verbatim>\<open>Http_Server\<close>: \<^verbatim>\<open>src/network/http_server.cpp\<close>: parsing, routing and all handlers;
    \<^verbatim>\<open>Http_Safety\<close>: which requests change what.
  \<^item> \<^verbatim>\<open>Program\<close>: \<^verbatim>\<open>src/main.cpp\<close>: configuration file, command line, construction of the whole program
    and its stop by a signal; \<^verbatim>\<open>Program_Safety\<close>: every run of the program, and restarts.
  \<^item> \<^verbatim>\<open>Merkle_Tree\<close>: the Merkle root as the root of a binary tree, a reference for the loop over
    levels in \<^verbatim>\<open>Block\<close>.
  \<^item> \<^verbatim>\<open>Library_Safety\<close>: the program with the library's own text functions: the laws that the
    components assume, messages that can be relayed, request bodies that end the server.
  \<^item> \<^verbatim>\<open>Ledger_Safety\<close>: the accounting that \<^verbatim>\<open>addTransaction\<close> guarantees on a node without peers, and
    how blocks from peers get around it.

  What the properties show. The chain: valid and consistent with its derived state after any
  sequence of calls, messages and requests; transactions are not replayed; mining confirms the
  oldest pending transactions; longer valid chains are adopted; the tip's hash determines the
  history. Blocks, transactions and state: what identifiers and roots bind and what they do not
  bind, when mining returns, what the balances of a chain are. Money: a node that only submits and
  mines has no overdrafts, no nonce gaps and at most 50 per block, while peers can have a transfer
  paid twice or mint any amount. Storage: an interrupted write
  leaves the old or the new contents, except on the first write. Wallet: logins agree with fresh
  challenges. Network: connections are bounded first-in first-out channels, reputation and
  gossip invariants, synchronisation of a shorter chain with a longer one, identity across
  restarts, and several ways in which a peer can hang, kill
  or isolate the node. HTTP: what an accepted submission means, that reading requests do not
  write, that mining is rate limited, and a request that ends the server. JSON: the round trip of
  the library's writer and reader, exactly when the writer throws, what the reader can return, a
  buffer that never overflows, and that these functions keep the laws the rest relies on. The whole
  program:
  the chain's invariant from the start through every run, and a clean restart. Properties about
  flaws of the code state what the code does.

  Conventions and bounds. Integers keep their widths (\<^verbatim>\<open>u16\<close>, \<^verbatim>\<open>u32\<close>, \<^verbatim>\<open>u64\<close>, signed ones wrapped
  by \<^verbatim>\<open>s32\<close>); sizes of containers are natural numbers. Clock readings, random numbers, generated
  keys, shuffles and faults are arguments. Mining loops are partial functions without fuel;
  reading loops terminate on the length of the input. Chains are assumed to have fewer than
  \<open>2^64\<close> blocks where an index is compared with a length; the accounting of \<^verbatim>\<open>Ledger_Safety\<close> needs
  fewer than \<open>2^57\<close> transactions, so that twice the supply of 50 per block fits into 64 bits.

  Not modelled: OpenSSL, sockets and the scheduling of Boost.Asio (an operation completes at any
  later time with any outcome); interleaving within one handler, since handlers are single steps;
  log output, signals and threads of \<^verbatim>\<open>src/main.cpp\<close>; the web client under \<^verbatim>\<open>blockchain-explorer/\<close>, the
  tests and the generated files under \<^verbatim>\<open>build/\<close>. Of \<^verbatim>\<open>include/utils/json.hpp\<close> the text of a
  floating-point number (\<^verbatim>\<open>to_chars\<close>) is the parameter \<open>floats\<close>, so floats are written but no round trip
  is stated for them, and the sign of a zero and numbers that are not finite have no value of
  their own; positions in a text are unbounded numbers instead of 64-bit ones, the depth of the stack in
  the recursive \<^verbatim>\<open>dump\<close> is not limited, and the string of blanks for the indentation is taken to be
  long enough, as it is for steps of at most 512 and the nesting the program writes. Binary
  formats, JSON Pointer and Patch, callbacks, iterators and wide-character input are not used by
  the program. The strings of an open object or array are put into the parent when the container is
  closed, since the code looks at the parent only then.
\<close>

end
